(* ===== verification/Prelude.thy ===== *)
theory Prelude
  imports Main "HOL-Library.AList"
begin

text \<open>
  What every other theory of the development shares.

  \<^item> The bytes the protocol gives a meaning to. A Go \<open>string\<close> is a sequence of bytes, and
    so is Isabelle's \<open>string\<close> (a list of 8-bit \<open>char\<close>s), so lengths and indices agree.
  \<^item> \<open>error\<close>: the error values of the program, one constructor per kind.
  \<^item> \<open>'a res\<close>: the outcome of code that can panic. \<open>Ret\<close> is a normal return; \<open>Fail Panic\<close>
    is a run-time panic (an index out of range, a nil dereference), which ends the whole Go
    process because nothing recovers; \<open>Fail OutOfFuel\<close> says that the fuel given to a loop of
    the model ran out, and is never a behaviour of the code.
  \<^item> \<open>split_on\<close>, \<open>trim_set\<close>: \<open>strings.Split\<close> with a one-byte separator and
    \<open>strings.Trim\<close>.
  \<^item> Facts on association lists, which stand for Go maps.
\<close>

named_theorems map_simps "lookups in association lists after an update or a deletion"
named_theorems text_simps "splitting and trimming of strings"

section \<open>Bytes and errors\<close>

abbreviation SP :: char where "SP \<equiv> CHR 0x20"
abbreviation COLON :: char where "COLON \<equiv> CHR 0x3A"
abbreviation CR :: char where "CR \<equiv> CHR 0x0D"
abbreviation LF :: char where "LF \<equiv> CHR 0x0A"

text \<open>Why \<open>net.SplitHostPort\<close> refuses an address.\<close>

datatype addr_reason = MissingPort | TooManyColons | MissingBracket | UnexpectedBracket

datatype error =
    EOF                        \<comment> \<open>\<open>io.EOF\<close>\<close>
  | ErrTooLong                 \<comment> \<open>\<open>bufio.ErrTooLong\<close>\<close>
  | ErrConnectionClosed        \<comment> \<open>\<open>errConnectionClosed\<close> of the proxy\<close>
  | ErrClientID string         \<comment> \<open>\<open>clientIDParseError\<close>\<close>
  | ErrManyMessages string     \<comment> \<open>the \<open>fmt.Errorf\<close> of \<open>ParseMessage\<close>\<close>
  | ErrAddress addr_reason     \<comment> \<open>\<open>*net.AddrError\<close>\<close>
  | ErrBadXSRFToken | ErrIllegalPortNumber  \<comment> \<open>the errors of the settings form\<close>
  | ErrJSONSyntax | ErrJSONType  \<comment> \<open>\<open>SyntaxError\<close> and \<open>UnmarshalTypeError\<close> of \<open>encoding/json\<close>\<close>
  | ErrIO nat                  \<comment> \<open>an error of the environment: network or database\<close>

section \<open>Outcomes of code that can panic\<close>

datatype failure = Panic | OutOfFuel | Blocked

datatype 'a res = Ret 'a | Fail failure

fun andThen :: "'a res \<Rightarrow> ('a \<Rightarrow> 'b res) \<Rightarrow> 'b res" where
  "andThen (Ret x) f = f x"
| "andThen (Fail e) f = Fail e"

lemma andThen_cong [fundef_cong]:
  "r = r' \<Longrightarrow> (\<And>x. r' = Ret x \<Longrightarrow> f x = g x) \<Longrightarrow> andThen r f = andThen r' g"
  by (cases r') auto

lemma andThen_Ret_iff: "andThen r f = Ret y \<longleftrightarrow> (\<exists>x. r = Ret x \<and> f x = Ret y)"
  by (cases r) auto

lemma andThen_RetE [elim]:
  assumes "andThen r f = Ret y"
  obtains x where "r = Ret x" and "f x = Ret y"
  using assms by (cases r) auto

lemma andThen_assoc: "andThen (andThen r f) g = andThen r (\<lambda>x. andThen (f x) g)"
  by (cases r) auto

text \<open>\<open>ensures r P\<close>: whenever the code returns, its result satisfies \<open>P\<close>.\<close>

definition ensures :: "'a res \<Rightarrow> ('a \<Rightarrow> bool) \<Rightarrow> bool" where
  "ensures r P \<longleftrightarrow> (\<forall>x. r = Ret x \<longrightarrow> P x)"

lemma ensures_simps [simp]: "ensures (Ret x) P = P x" "ensures (Fail e) P"
  by (simp_all add: ensures_def)

lemma ensures_andThen: "ensures r Q \<Longrightarrow> (\<And>x. Q x \<Longrightarrow> ensures (f x) P) \<Longrightarrow> ensures (andThen r f) P"
  by (cases r) auto

lemma ensures_bind: "(\<And>x. r = Ret x \<Longrightarrow> ensures (f x) P) \<Longrightarrow> ensures (andThen r f) P"
  by (cases r) auto

lemma ensures_if: "(b \<Longrightarrow> ensures x P) \<Longrightarrow> (\<not> b \<Longrightarrow> ensures y P) \<Longrightarrow> ensures (if b then x else y) P"
  by simp

lemma ensuresD: "ensures r P \<Longrightarrow> r = Ret x \<Longrightarrow> P x"
  by (simp add: ensures_def)

lemma ensures_mono: "ensures r P \<Longrightarrow> (\<And>x. P x \<Longrightarrow> Q x) \<Longrightarrow> ensures r Q"
  by (simp add: ensures_def)

lemma ensuresI: "(\<And>x. r = Ret x \<Longrightarrow> P x) \<Longrightarrow> ensures r P"
  by (simp add: ensures_def)

section \<open>Splitting and trimming strings\<close>

fun split_on :: "char \<Rightarrow> string \<Rightarrow> string list" where
  "split_on c [] = [[]]"
| "split_on c (x # xs) =
     (if x = c then [] # split_on c xs
      else (x # hd (split_on c xs)) # tl (split_on c xs))"

definition trim_set :: "string \<Rightarrow> string \<Rightarrow> string" where
  "trim_set cs s =
     rev (dropWhile (\<lambda>x. x \<in> set cs) (rev (dropWhile (\<lambda>x. x \<in> set cs) s)))"

lemma takeWhile_sep: "c \<notin> set a \<Longrightarrow> takeWhile (\<lambda>x. x \<noteq> c) (a @ c # b) = a"
  by (induction a) auto

lemma dropWhile_sep: "c \<notin> set a \<Longrightarrow> dropWhile (\<lambda>x. x \<noteq> c) (a @ c # b) = c # b"
  by (induction a) auto

lemma sep_unique: "a @ c # b = a' @ c # b' \<Longrightarrow> c \<notin> set a \<Longrightarrow> c \<notin> set a' \<Longrightarrow> a = a' \<and> b = b'"
  by (metis takeWhile_sep append_same_eq same_append_eq list.inject)

lemma dropWhile_all [simp]: "(\<And>x. x \<in> set s \<Longrightarrow> P x) \<Longrightarrow> dropWhile P s = []"
  by (simp add: dropWhile_eq_Nil_conv)

lemma set_tl_dropWhile: "set (tl (dropWhile P xs)) \<subseteq> set xs"
  by (induction xs) auto

lemma split_on_not_Nil [simp]: "split_on c s \<noteq> []"
  by (cases s) auto

lemma split_on_no_sep [text_simps]: "c \<notin> set s \<Longrightarrow> split_on c s = [s]"
  by (induction s) auto

lemma split_on_sep [text_simps]:
  "c \<notin> set xs \<Longrightarrow> split_on c (xs @ c # ys) = xs # split_on c ys"
  by (induction xs) auto

lemma split_on_parts: "w \<in> set (split_on c s) \<Longrightarrow> c \<notin> set w"
proof (induction s arbitrary: w)
  case Nil
  then show ?case by simp
next
  case (Cons x xs)
  have "hd (split_on c xs) \<in> set (split_on c xs)" by simp
  moreover have "set (tl (split_on c xs)) \<subseteq> set (split_on c xs)"
    by (cases "split_on c xs") auto
  ultimately show ?case using Cons by (auto split: if_splits)
qed

lemma length_split_on: "length (split_on c s) = Suc (count_list s c)"
proof (induction s)
  case (Cons x xs)
  then show ?case by (cases "split_on c xs") auto
qed simp

lemma split_on_two:
  "split_on c s = [a, b] \<longleftrightarrow> s = a @ c # b \<and> c \<notin> set a \<and> c \<notin> set b"
proof
  assume s: "split_on c s = [a, b]"
  then show "s = a @ c # b \<and> c \<notin> set a \<and> c \<notin> set b"
  proof (induction s arbitrary: a)
    case (Cons x xs)
    show ?case
    proof (cases "x = c")
      case True
      with Cons.prems have "a = []" "split_on c xs = [b]" by auto
      moreover from this have "c \<notin> set xs"
        using length_split_on [of c xs] count_notin by (fastforce simp: count_list_0_iff)
      ultimately show ?thesis using True by (auto simp: text_simps)
    next
      case False
      with Cons.prems obtain a' where a': "split_on c xs = [a', b]" "a = x # a'"
        by (cases "split_on c xs") auto
      with Cons.IH [OF a'(1)] False show ?thesis by simp
    qed
  qed simp
next
  assume "s = a @ c # b \<and> c \<notin> set a \<and> c \<notin> set b"
  then show "split_on c s = [a, b]" by (simp add: text_simps)
qed

lemma split_on_one: "split_on c s = [a] \<longleftrightarrow> a = s \<and> c \<notin> set s"
proof
  assume "split_on c s = [a]"
  then have "c \<notin> set s" using length_split_on [of c s] by (simp add: count_list_0_iff)
  with \<open>split_on c s = [a]\<close> show "a = s \<and> c \<notin> set s" by (simp add: text_simps)
qed (simp add: text_simps)

lemma trim_set_id [text_simps]:
  assumes "s = [] \<or> hd s \<notin> set cs \<and> last s \<notin> set cs"
  shows "trim_set cs s = s"
proof (cases s)
  case (Cons x xs)
  with assms have "dropWhile (\<lambda>x. x \<in> set cs) s = s" by simp
  moreover from Cons assms have "dropWhile (\<lambda>x. x \<in> set cs) (rev s) = rev s"
    by (cases xs rule: rev_cases) auto
  ultimately show ?thesis by (simp add: trim_set_def)
qed (simp add: trim_set_def)

section \<open>Association lists as Go maps\<close>

lemma map_of_update [map_simps]: "map_of (AList.update k v al) = (map_of al)(k \<mapsto> v)"
  by (rule AList.update_conv')

lemma map_of_delete_eq [map_simps]: "map_of (AList.delete k al) = (map_of al)(k := None)"
  by (rule AList.delete_conv')

lemma keys_update [map_simps]:
  "set (map fst (AList.update k v al)) = insert k (set (map fst al))"
  by (simp add: AList.update_keys) auto

lemma keys_delete [map_simps]: "fst ` set (AList.delete k al) = fst ` set al - {k}"
  by (simp add: AList.delete_keys AList.delete_eq) auto

lemma distinct_keys_update: "distinct (map fst al) \<Longrightarrow> distinct (map fst (AList.update k v al))"
  by (rule AList.distinct_update)

lemma distinct_keys_delete: "distinct (map fst al) \<Longrightarrow> distinct (map fst (AList.delete k al))"
  by (rule AList.distinct_delete)

end
