(* ===== verification/Irc_ClientID.thy ===== *)
theory Irc_ClientID
  imports Prelude
begin

text \<open>
  \<open>irc/clientid.go\<close>: client identifiers \<open>[flag]nick[!user][@host]\<close>, their printer and parser.
\<close>

section \<open>The type, the printer and the parser\<close>

record client_id =
  Flag :: string
  Nick :: string
  User :: string
  Host :: string

abbreviation AT :: char where "AT \<equiv> CHR 0x40"
abbreviation BANG :: char where "BANG \<equiv> CHR 0x21"
abbreviation PLUS :: char where "PLUS \<equiv> CHR 0x2B"

definition no_client_id :: client_id where
  "no_client_id = \<lparr>Flag = [], Nick = [], User = [], Host = []\<rparr>"

definition ClientID_String :: "client_id \<Rightarrow> string" where
  "ClientID_String i =
     (let ret = Flag i @ Nick i in
      if Host i = [] then ret
      else let ret = (if User i \<noteq> [] then ret @ BANG # User i else ret)
           in ret @ AT # Host i)"

definition clientIDParseError_Error :: "string \<Rightarrow> string" where
  "clientIDParseError_Error e = ''Error parsing client id: '' @ e"

definition has_flag :: "string \<Rightarrow> bool" where
  "has_flag text \<longleftrightarrow> text \<noteq> [] \<and> (hd text = AT \<or> hd text = PLUS)"

text \<open>The switch on the parts of the text without its flag, and the two final checks.\<close>

definition parse_nick_host :: "string \<Rightarrow> error + client_id" where
  "parse_nick_host text =
     (case split_on AT text of
        [_] \<Rightarrow> Inr (no_client_id\<lparr>Nick := text\<rparr>)
      | [nu, h] \<Rightarrow>
          (case split_on BANG nu of
             [_] \<Rightarrow> Inr (no_client_id\<lparr>Nick := nu, Host := h\<rparr>)
           | [n, u] \<Rightarrow> Inr (no_client_id\<lparr>Nick := n, User := u, Host := h\<rparr>)
           | _ \<Rightarrow> Inl (ErrClientID ''More than one '!' char in client id''))
      | _ \<Rightarrow> Inl (ErrClientID ''More than one '@' char in client id''))"

definition ParseClientID :: "string \<Rightarrow> error + client_id" where
  "ParseClientID text =
     (let (flag, text) = (if has_flag text then (take 1 text, drop 1 text) else ([], text)) in
      case parse_nick_host text of
        Inl e \<Rightarrow> Inl e
      | Inr ret \<Rightarrow>
          (if Nick ret = [] then Inl (ErrClientID ''No nick in client ID.'')
           else if User ret \<noteq> [] \<and> Host ret = []
           then Inl (ErrClientID ''User but no host in client ID.'')
           else Inr (ret\<lparr>Flag := flag\<rparr>)))"

section \<open>Printing and parsing\<close>

text \<open>
  The identifiers the two functions agree on: at most one flag character, a nick without
  separators that does not start with a flag of its own, and a user only with a host.
\<close>

definition client_id_ok :: "client_id \<Rightarrow> bool" where
  "client_id_ok i \<longleftrightarrow>
     Nick i \<noteq> [] \<and> AT \<notin> set (Nick i @ User i @ Host i) \<and> BANG \<notin> set (User i)
     \<and> (Host i \<noteq> [] \<longrightarrow> BANG \<notin> set (Nick i)) \<and> (Host i = [] \<longrightarrow> User i = [])
     \<and> (Flag i = [] \<and> \<not> has_flag (Nick i) \<or> Flag i = [AT] \<or> Flag i = [PLUS])"

definition nick_host_text :: "client_id \<Rightarrow> string" where
  "nick_host_text i =
     Nick i @ (if Host i = [] then [] else (if User i = [] then [] else BANG # User i) @ AT # Host i)"

lemma ClientID_String_eq: "ClientID_String i = Flag i @ nick_host_text i"
  by (simp add: ClientID_String_def nick_host_text_def)

lemma parse_nick_host_text:
  assumes "client_id_ok i"
  shows "parse_nick_host (nick_host_text i) = Inr (i\<lparr>Flag := []\<rparr>)"
proof -
  let ?nu = "Nick i @ (if User i = [] then [] else BANG # User i)"
  show ?thesis
  proof (cases "Host i = []")
    case True
    with assms show ?thesis
      by (auto simp: parse_nick_host_def nick_host_text_def client_id_ok_def text_simps no_client_id_def)
  next
    case False
    with assms have "split_on AT (nick_host_text i) = [?nu, Host i]"
      by (simp add: split_on_two nick_host_text_def client_id_ok_def)
    with False assms show ?thesis
      by (auto simp: parse_nick_host_def client_id_ok_def text_simps no_client_id_def)
  qed
qed

lemma parse_print: "client_id_ok i \<Longrightarrow> ParseClientID (ClientID_String i) = Inr i"
proof -
  assume ok: "client_id_ok i"
  have hf: "has_flag (nick_host_text i) = has_flag (Nick i)"
    using ok by (cases "Nick i") (auto simp: nick_host_text_def has_flag_def client_id_ok_def)
  have "(if has_flag (ClientID_String i) then (take 1 (ClientID_String i), drop 1 (ClientID_String i))
      else ([], ClientID_String i)) = (Flag i, nick_host_text i)"
    using ok hf by (auto simp: ClientID_String_eq client_id_ok_def) (auto simp: has_flag_def)
  with ok show ?thesis
    by (auto simp: ParseClientID_def parse_nick_host_text client_id_ok_def)
qed

text \<open>
  Everything the parser returns is of that shape, except that a nick may start with a second
  flag character and keeps the exclamation mark of a text without a host.
\<close>

lemma parse_nick_host_InrE:
  assumes "parse_nick_host text = Inr i"
  obtains (nick) "AT \<notin> set text" "i = no_client_id\<lparr>Nick := text\<rparr>"
    | (host) n h where "text = n @ AT # h" "AT \<notin> set n" "AT \<notin> set h" "BANG \<notin> set n"
      "i = no_client_id\<lparr>Nick := n, Host := h\<rparr>"
    | (user) n u h where "text = n @ BANG # u @ AT # h" "AT \<notin> set (n @ u @ h)" "BANG \<notin> set (n @ u)"
      "i = no_client_id\<lparr>Nick := n, User := u, Host := h\<rparr>"
proof -
  consider (one) a where "split_on AT text = [a]"
    | (two) nu h where "split_on AT text = [nu, h]"
    | (many) a b c ps where "split_on AT text = a # b # c # ps"
    by (metis split_on_not_Nil neq_Nil_conv)
  then show ?thesis
  proof cases
    case one
    then have "AT \<notin> set text" by (simp add: split_on_one)
    with one assms show ?thesis by (intro nick) (simp_all add: parse_nick_host_def)
  next
    case (two nu h)
    note parts = this
    then have t: "text = nu @ AT # h" "AT \<notin> set nu" "AT \<notin> set h" by (simp_all add: split_on_two)
    consider (one) a where "split_on BANG nu = [a]"
      | (two) n u where "split_on BANG nu = [n, u]"
      | (many) a b c ps where "split_on BANG nu = a # b # c # ps"
      by (metis split_on_not_Nil neq_Nil_conv)
    then show ?thesis
    proof cases
      case one
      then have "BANG \<notin> set nu" by (simp add: split_on_one)
      with one parts assms t show ?thesis
        by (intro host [of nu h]) (simp_all add: parse_nick_host_def)
    next
      case (two n u)
      then have "nu = n @ BANG # u" "BANG \<notin> set n" "BANG \<notin> set u" by (simp_all add: split_on_two)
      with two parts assms t show ?thesis
        by (intro user [of n u h]) (auto simp: parse_nick_host_def)
    next
      case many
      with parts assms show ?thesis by (simp add: parse_nick_host_def)
    qed
  next
    case many
    with assms show ?thesis by (simp add: parse_nick_host_def)
  qed
qed

lemma ParseClientID_InrE:
  assumes "ParseClientID text = Inr i"
  obtains body where "text = Flag i @ body" "Flag i = (if has_flag text then take 1 text else [])"
    "parse_nick_host body = Inr (i\<lparr>Flag := []\<rparr>)" "Nick i \<noteq> []" "Host i = [] \<Longrightarrow> User i = []"
proof -
  let ?f = "if has_flag text then take 1 text else []"
  let ?b = "if has_flag text then drop 1 text else text"
  obtain ret where ret: "parse_nick_host ?b = Inr ret" "Nick ret \<noteq> []"
      "User ret \<noteq> [] \<longrightarrow> Host ret \<noteq> []" "i = ret\<lparr>Flag := ?f\<rparr>"
    using assms by (auto simp: ParseClientID_def split: if_splits sum.splits)
  moreover from ret(1) have "Flag ret = []"
    by (cases rule: parse_nick_host_InrE) (simp_all add: no_client_id_def)
  moreover have "text = ?f @ ?b" by simp
  ultimately show ?thesis using that [of ?b] by (cases ret) auto
qed

text \<open>
  Printing a parsed identifier gives the text back unless an empty host or an empty user lost
  its mark.
\<close>

definition lossy :: "string \<Rightarrow> bool" where
  "lossy body \<longleftrightarrow> body \<noteq> [] \<and> last body = AT \<or> (\<exists>n h. body = n @ BANG # AT # h)"

lemma nick_host_text_lossy:
  assumes "parse_nick_host body = Inr i" and "Nick i \<noteq> []" and "Host i = [] \<longrightarrow> User i = []"
  shows "nick_host_text i = body \<longleftrightarrow> \<not> lossy body"
  using assms(1)
proof (cases rule: parse_nick_host_InrE)
  case nick
  then show ?thesis
    by (auto simp: nick_host_text_def lossy_def no_client_id_def dest: last_in_set)
next
  case (host n h)
  have no: "n @ AT # h \<noteq> n' @ BANG # AT # h'" for n' h'
  proof
    assume eq: "n @ AT # h = n' @ BANG # AT # h'"
    then have "takeWhile (\<lambda>x. x \<noteq> AT) (n' @ BANG # AT # h') = n"
      using takeWhile_sep [OF host(2), of h] by simp
    moreover have "count_list (n @ AT # h) AT = 1"
      using host(2,3) by (simp add: count_list_0_iff)
    then have "AT \<notin> set n'" by (simp add: eq count_list_0_iff)
    then have "takeWhile (\<lambda>x. x \<noteq> AT) ((n' @ [BANG]) @ AT # h') = n' @ [BANG]"
      by (intro takeWhile_sep) simp
    ultimately have "n = n' @ [BANG]" by simp
    with host(4) show False by simp
  qed
  have "h \<noteq> [] \<Longrightarrow> last (n @ AT # h) \<noteq> AT" using host(3) by (auto dest: last_in_set)
  with no host(1,5) show ?thesis
    by (auto simp: nick_host_text_def lossy_def no_client_id_def)
next
  case (user n u h)
  have "u = []" if eq: "n @ BANG # u @ AT # h = n' @ BANG # AT # h'" for n' h'
  proof -
    have "count_list (n @ BANG # u @ AT # h) AT = 1"
      using user(2) by (simp add: count_list_0_iff)
    then have "AT \<notin> set n'" by (simp add: eq count_list_0_iff)
    then have "n @ BANG # u = n' @ [BANG]"
      using sep_unique [of "n @ BANG # u" AT h "n' @ [BANG]" h'] user(2) eq by simp
    with user(3) show "u = []" by (cases u rule: rev_cases) auto
  qed
  moreover have "h \<noteq> [] \<Longrightarrow> last (n @ BANG # u @ AT # h) \<noteq> AT"
    using user(2) by (auto dest: last_in_set)
  ultimately show ?thesis using user(1,4) assms(3)
    by (auto simp: nick_host_text_def lossy_def no_client_id_def)
qed

lemma print_parse_iff:
  assumes "ParseClientID text = Inr i"
  shows "ClientID_String i = text \<longleftrightarrow> \<not> lossy (drop (length (Flag i)) text)"
proof -
  obtain body where b: "text = Flag i @ body" "parse_nick_host body = Inr (i\<lparr>Flag := []\<rparr>)"
      "Nick i \<noteq> []" "Host i = [] \<longrightarrow> User i = []"
    using assms by (elim ParseClientID_InrE) blast
  moreover have "nick_host_text (i\<lparr>Flag := []\<rparr>) = nick_host_text i"
    by (simp add: nick_host_text_def)
  ultimately show ?thesis
    using nick_host_text_lossy [OF b(2)] by (simp add: ClientID_String_eq)
qed

end
