(* ===== verification/Numeric_Replies.thy ===== *)
theory Numeric_Replies
  imports Prelude
begin

text \<open>
  \<open>irc/numeric_replies.go\<close>: the symbolic names of the numeric reply codes. The constants that
  the rest of the program uses are abbreviations (Go constants are inlined too); the whole
  table is \<open>numeric_replies\<close>, in the order of the file.
\<close>

section \<open>The codes the program uses\<close>

abbreviation RPL_WELCOME :: string where "RPL_WELCOME \<equiv> ''001''"
abbreviation RPL_YOURHOST :: string where "RPL_YOURHOST \<equiv> ''002''"
abbreviation RPL_CREATED :: string where "RPL_CREATED \<equiv> ''003''"
abbreviation RPL_MYINFO :: string where "RPL_MYINFO \<equiv> ''004''"
abbreviation RPL_TOPIC :: string where "RPL_TOPIC \<equiv> ''332''"
abbreviation RPL_NAMEREPLY :: string where "RPL_NAMEREPLY \<equiv> ''353''"
abbreviation RPL_ENDOFNAMES :: string where "RPL_ENDOFNAMES \<equiv> ''366''"
abbreviation RPL_MOTDSTART :: string where "RPL_MOTDSTART \<equiv> ''375''"
abbreviation RPL_MOTD :: string where "RPL_MOTD \<equiv> ''372''"
abbreviation RPL_ENDOFMOTD :: string where "RPL_ENDOFMOTD \<equiv> ''376''"
abbreviation ERR_NOMOTD :: string where "ERR_NOMOTD \<equiv> ''422''"
abbreviation ERR_NONICKNAMEGIVEN :: string where "ERR_NONICKNAMEGIVEN \<equiv> ''431''"
abbreviation ERR_ERRONEUSNICKNAME :: string where "ERR_ERRONEUSNICKNAME \<equiv> ''432''"
abbreviation ERR_NICKNAMEINUSE :: string where "ERR_NICKNAMEINUSE \<equiv> ''433''"
abbreviation ERR_NICKCOLLISION :: string where "ERR_NICKCOLLISION \<equiv> ''436''"
abbreviation ERR_UNKNOWNCOMMAND :: string where "ERR_UNKNOWNCOMMAND \<equiv> ''421''"
abbreviation ERR_NEEDMOREPARAMS :: string where "ERR_NEEDMOREPARAMS \<equiv> ''461''"

section \<open>The whole table\<close>

definition command_replies :: "(string \<times> string) list" where
  "command_replies = [
    (''RPL_WELCOME'', ''001''),
    (''RPL_YOURHOST'', ''002''),
    (''RPL_CREATED'', ''003''),
    (''RPL_MYINFO'', ''004''),
    (''RPL_BOUNCE'', ''005''),
    (''RPL_YOURID'', ''042''),
    (''RPL_TRACELINK'', ''200''),
    (''RPL_TRACECONNECTING'', ''201''),
    (''RPL_TRACEHANDSHAKE'', ''202''),
    (''RPL_TRACEOPERATOR'', ''204''),
    (''RPL_TRACEUSER'', ''205''),
    (''RPL_TRACESERVER'', ''206''),
    (''RPL_TRACESERVICE'', ''207''),
    (''RPL_TRACENEWTYPE'', ''208''),
    (''RPL_TRACECLASS'', ''209''),
    (''RPL_TRACECONNECT'', ''210''),
    (''RPL_STATSLINKINFO'', ''211''),
    (''RPL_STATSCOMMANDS'', ''212''),
    (''RPL_STATSCLINE'', ''213''),
    (''RPL_STATSNLINE'', ''214''),
    (''RPL_STATSILINE'', ''215''),
    (''RPL_STATSKLINE'', ''216''),
    (''RPL_STATSQLINE'', ''217''),
    (''RPL_STATSYLINE'', ''218''),
    (''RPL_ENDOFSTATS'', ''219''),
    (''RPL_UMODEIS'', ''221''),
    (''RPL_SERVICEINFO'', ''231''),
    (''RPL_ENDOFSERVICES'', ''232''),
    (''RPL_SERVICE'', ''233''),
    (''RPL_SERVLIST'', ''234''),
    (''RPL_STATSVLINE'', ''240''),
    (''RPL_STATSLLINE'', ''241''),
    (''RPL_STATSUPTIME'', ''242''),
    (''RPL_STATSOLINE'', ''243''),
    (''RPL_STATSHLINE'', ''244''),
    (''RPL_STATSSLINE'', ''244''),
    (''RPL_STATSPING'', ''246''),
    (''RPL_STATSBLINE'', ''247''),
    (''RPL_STATSDLINE'', ''250''),
    (''RPL_LUSERCLIENT'', ''251''),
    (''RPL_LUSEROP'', ''252''),
    (''RPL_LUSERUNKNOWN'', ''253''),
    (''RPL_LUSERCHANNELS'', ''254''),
    (''RPL_LUSERME'', ''255''),
    (''RPL_ADMINME'', ''256''),
    (''RPL_ADMINLOC1'', ''257''),
    (''RPL_ADMINLOC2'', ''258''),
    (''RPL_ADMINLOCEMAIL'', ''259''),
    (''RPL_TRACELOG'', ''261''),
    (''RPL_TRACEEND'', ''262''),
    (''RPL_TRYAGAIN'', ''263''),
    (''RPL_NONE'', ''300''),
    (''RPL_AWAY'', ''301''),
    (''RPL_USERHOST'', ''302''),
    (''RPL_ISON'', ''303''),
    (''RPL_UNAWAY'', ''305''),
    (''RPL_NOWAWAY'', ''306''),
    (''RPL_WHOISUSER'', ''311''),
    (''RPL_WHOISSERVER'', ''312''),
    (''RPL_WHOISOPERATOR'', ''313''),
    (''RPL_WHOWASUSER'', ''314''),
    (''RPL_ENDOFWHO'', ''315''),
    (''RPL_WHOISCHANOP'', ''316''),
    (''RPL_WHOISIDLE'', ''317''),
    (''RPL_ENDOFWHOIS'', ''318''),
    (''RPL_WHOISCHANNELS'', ''319''),
    (''RPL_LISTSTART'', ''321''),
    (''RPL_LIST'', ''322''),
    (''RPL_LISTEND'', ''323''),
    (''RPL_CHANNELMODEIS'', ''324''),
    (''RPL_UNIQOPIS'', ''325''),
    (''RPL_NOTOPIC'', ''331''),
    (''RPL_TOPIC'', ''332''),
    (''RPL_TOPICWHOTIME'', ''333''),
    (''RPL_INVITING'', ''341''),
    (''RPL_SUMMONING'', ''342''),
    (''RPL_INVITELIST'', ''346''),
    (''RPL_ENDOFINVITELIST'', ''347''),
    (''RPL_EXCEPTLIST'', ''348''),
    (''RPL_ENDOFEXCEPTLIST'', ''349''),
    (''RPL_VERSION'', ''351''),
    (''RPL_WHOREPLY'', ''352''),
    (''RPL_NAMEREPLY'', ''353''),
    (''RPL_KILLDONE'', ''361''),
    (''RPL_CLOSING'', ''362''),
    (''RPL_CLOSEEND'', ''363''),
    (''RPL_LINKS'', ''364''),
    (''RPL_ENDOFLINKS'', ''365''),
    (''RPL_ENDOFNAMES'', ''366''),
    (''RPL_BANLIST'', ''367''),
    (''RPL_ENDOFBANLIST'', ''368''),
    (''RPL_ENDOFWHOWAS'', ''369''),
    (''RPL_INFO'', ''371''),
    (''RPL_MOTD'', ''372''),
    (''RPL_INFOSTART'', ''373''),
    (''RPL_ENDOFINFO'', ''374''),
    (''RPL_MOTDSTART'', ''375''),
    (''RPL_ENDOFMOTD'', ''376''),
    (''RPL_YOUREOPER'', ''381''),
    (''RPL_REHASHING'', ''382''),
    (''RPL_YOURESERVICE'', ''383''),
    (''RPL_MYPORTIS'', ''384''),
    (''RPL_TIME'', ''391''),
    (''RPL_USERSSTART'', ''392''),
    (''RPL_USERS'', ''393''),
    (''RPL_ENDOFUSERS'', ''394''),
    (''RPL_NOUSERS'', ''395'')]"

definition error_replies :: "(string \<times> string) list" where
  "error_replies = [
    (''ERR_NOSUCHNICK'', ''401''),
    (''ERR_NOSUCHSERVER'', ''402''),
    (''ERR_NOSUCHCHANNEL'', ''403''),
    (''ERR_CANNOTSENDTOCHAN'', ''404''),
    (''ERR_TOOMANYCHANNELS'', ''405''),
    (''ERR_WASNOSUCHNICK'', ''406''),
    (''ERR_TOOMANYTARGETS'', ''407''),
    (''ERR_NOSUCHSERVICE'', ''408''),
    (''ERR_NOORIGIN'', ''409''),
    (''ERR_NORECIPIENT'', ''411''),
    (''ERR_NOTEXTTOSEND'', ''412''),
    (''ERR_NOTOPLEVEL'', ''412''),
    (''ERR_WILDTOPLEVEL'', ''414''),
    (''ERR_BADMASK'', ''415''),
    (''ERR_UNKNOWNCOMMAND'', ''421''),
    (''ERR_NOMOTD'', ''422''),
    (''ERR_NOADMININFO'', ''423''),
    (''ERR_FILEERROR'', ''424''),
    (''ERR_NONICKNAMEGIVEN'', ''431''),
    (''ERR_ERRONEUSNICKNAME'', ''432''),
    (''ERR_NICKNAMEINUSE'', ''433''),
    (''ERR_NICKCOLLISION'', ''436''),
    (''ERR_UNAVAILABLERESOURCE'', ''437''),
    (''ERR_USERNOTINCHANNEL'', ''441''),
    (''ERR_NOTONCHANNEL'', ''442''),
    (''ERR_USERONCHANNEL'', ''443''),
    (''ERR_NOLOGIN'', ''444''),
    (''ERR_SUMMONISDISABLED'', ''445''),
    (''ERR_USERISDISABLED'', ''446''),
    (''ERR_NOTREGISTERED'', ''451''),
    (''ERR_NEEDMOREPARAMS'', ''461''),
    (''ERR_ALREADYREGISTERED'', ''462''),
    (''ERR_NOPERMFORHOST'', ''463''),
    (''ERR_PASSDWMISMATCH'', ''464''),
    (''ERR_YOUREBANNEDCREEP'', ''465''),
    (''ERR_YOUWILLBEBANNED'', ''466''),
    (''ERR_KEYSET'', ''467''),
    (''ERR_CHANNELISFULL'', ''471''),
    (''ERR_UNKNOWNMODE'', ''472''),
    (''ERR_INVITEONLYCHAN'', ''473''),
    (''ERR_BANNEDFROMCHAN'', ''474''),
    (''ERR_BADCHANNELKEY'', ''475''),
    (''ERR_BADCHANMASK'', ''476''),
    (''ERR_NOCHANMODES'', ''477''),
    (''ERR_BANLISTISFULL'', ''478''),
    (''ERR_NOPRIVILEGES'', ''481''),
    (''ERR_CHANOPRIVSNEEDED'', ''482''),
    (''ERR_CANTKILLSERVER'', ''483''),
    (''ERR_RESTRICTED'', ''484''),
    (''ERR_UNIQOPPRIVSNEEDED'', ''485''),
    (''ERR_NOOPERHOST'', ''491''),
    (''ERR_NOSERVICEHOST'', ''492''),
    (''ERR_UMODEUNKNOWNFLAG'', ''501''),
    (''ERR_USERSDONTMATCH'', ''502'')]"

definition numeric_replies :: "(string \<times> string) list" where
  "numeric_replies = command_replies @ error_replies"

text \<open>
  The three digits of a code as a number, the names of the entries whose code is the code of
  the next entry, and the test that the codes never decrease down the table.
\<close>

fun code_value :: "string \<Rightarrow> nat" where
  "code_value s = foldl (\<lambda>n c. 10 * n + (of_char c - 48)) 0 s"

fun shared_codes :: "(string \<times> string) list \<Rightarrow> string list" where
  "shared_codes (a # b # rows) =
     (if snd a = snd b then fst a # shared_codes (b # rows) else shared_codes (b # rows))"
| "shared_codes rows = []"

fun ascending_codes :: "(string \<times> string) list \<Rightarrow> bool" where
  "ascending_codes (a # b # rows) =
     (code_value (snd a) \<le> code_value (snd b) \<and> ascending_codes (b # rows))"
| "ascending_codes rows = True"

end
