(* ===== verification/Irc_Message.thy ===== *)
theory Irc_Message
  imports Numeric_Replies
begin

text \<open>
  \<open>irc/message.go\<close>, the first half: the message type, its serialisation (\<open>WriteTo\<close>, \<open>String\<close>),
  its length and equality. An \<open>io.Writer\<close> is a function that takes the state of the writer and
  the bytes and returns the count and error that \<open>Write\<close> returns with the new state, so every
  writer, failing or not, is covered. The byte count is an \<open>int\<close>: it is the sum of lengths
  of strings in memory and stays far below \<open>2 ^ 63\<close>.
\<close>

section \<open>Messages\<close>

record message =
  Prefix :: string
  Command :: string
  Params :: "string list"

text \<open>\<open>&Message{Command: c, Params: ps}\<close>, with the prefix left at its zero value.\<close>

abbreviation msg_of :: "string \<Rightarrow> string list \<Rightarrow> message" where
  "msg_of c ps \<equiv> \<lparr>Prefix = [], Command = c, Params = ps\<rparr>"

text \<open>\<open>msg.Params[i]\<close>: an index out of range panics.\<close>

definition Param :: "message \<Rightarrow> nat \<Rightarrow> string res" where
  "Param m i = (if i < length (Params m) then Ret (Params m ! i) else Fail Panic)"

lemma Param_Ret [simp]: "i < length (Params m) \<Longrightarrow> Param m i = Ret (Params m ! i)"
  by (simp add: Param_def)

lemma Param_Fail [simp]: "length (Params m) \<le> i \<Longrightarrow> Param m i = Fail Panic"
  by (simp add: Param_def)

section \<open>Writing\<close>

type_synonym 'w writer = "'w \<Rightarrow> string \<Rightarrow> (int \<times> error option) \<times> 'w"

text \<open>
  The closure \<open>checkErr\<close> of \<open>WriteTo\<close>, over the named results \<open>(n, err)\<close>: it stores the new
  error only when \<open>err\<close> is not nil already.
\<close>

fun checkErr :: "int \<times> error option \<Rightarrow> int \<times> error option \<Rightarrow> int \<times> error option" where
  "checkErr (n, err) (sz, e) = (n + sz, if err \<noteq> None then e else err)"

text \<open>\<open>checkErr(fmt.Fprintf(w, ...))\<close>: one \<open>Write\<close> of the formatted bytes.\<close>

fun emit :: "'w writer \<Rightarrow> string \<Rightarrow> (int \<times> error option) \<times> 'w \<Rightarrow> (int \<times> error option) \<times> 'w" where
  "emit wr bs (res, w) = (let (r, w') = wr w bs in (checkErr res r, w'))"

definition last_param_text :: "string \<Rightarrow> string" where
  "last_param_text p = (if SP \<in> set p then [SP, COLON] @ p else [SP] @ p)"

definition WriteTo :: "'w writer \<Rightarrow> message \<Rightarrow> 'w \<Rightarrow> (int \<times> error option) \<times> 'w" where
  "WriteTo wr m w =
     (let st = ((0, None), w);
          st = (if Prefix m \<noteq> [] then emit wr ([COLON] @ Prefix m @ [SP]) st else st);
          st = emit wr (Command m) st;
          st = (if length (Params m) \<noteq> 0
                then let st = fold (\<lambda>p. emit wr ([SP] @ p)) (butlast (Params m)) st
                     in emit wr (last_param_text (last (Params m))) st
                else st)
      in emit wr [CR, LF] st)"

text \<open>\<open>ioWriter.WriteMessage\<close>: the error of \<open>WriteTo\<close>. The lock only serialises callers.\<close>

definition WriteMessage :: "'w writer \<Rightarrow> message \<Rightarrow> 'w \<Rightarrow> error option \<times> 'w" where
  "WriteMessage wr m w = (let ((n, err), w') = WriteTo wr m w in (err, w'))"

text \<open>\<open>bytes.Buffer\<close> as a writer: it appends and never fails.\<close>

definition buffer_Write :: "string writer" where
  "buffer_Write buf bs = ((int (length bs), None), buf @ bs)"

definition String :: "message \<Rightarrow> string" where
  "String m = snd (WriteTo buffer_Write m [])"

section \<open>Equality and length\<close>

text \<open>The loop of \<open>Eq\<close> over the indices of \<open>m1.Params\<close>.\<close>

fun params_eq :: "string list \<Rightarrow> string list \<Rightarrow> bool" where
  "params_eq [] qs = True"
| "params_eq (p # ps) [] = False"
| "params_eq (p # ps) (q # qs) = (if p \<noteq> q then False else params_eq ps qs)"

definition Eq :: "message \<Rightarrow> message \<Rightarrow> bool" where
  "Eq m1 m2 =
     (if Prefix m1 \<noteq> Prefix m2 \<or> Command m1 \<noteq> Command m2 then False
      else if length (Params m1) \<noteq> length (Params m2) then False
      else params_eq (Params m1) (Params m2))"

definition Len :: "message \<Rightarrow> nat" where
  "Len m =
     (let total = 0;
          total = (if Prefix m \<noteq> [] then total + (length (Prefix m) + 2) else total);
          total = total + length (Command m);
          total = total + length (Params m);
          total = (if length (Params m) \<noteq> 0 \<and> SP \<in> set (Params m ! (length (Params m) - 1))
                   then total + 1 else total);
          total = fold (\<lambda>p t. t + length p) (Params m) total
      in total + 2)"

section \<open>The serialised form\<close>

text \<open>The text of a message without the line end, as one string.\<close>

definition prefix_text :: "string \<Rightarrow> string" where
  "prefix_text p = (if p = [] then [] else COLON # p @ [SP])"

fun params_text :: "string list \<Rightarrow> string" where
  "params_text [] = []"
| "params_text [p] = last_param_text p"
| "params_text (p # ps) = SP # p @ params_text ps"

definition line_text :: "message \<Rightarrow> string" where
  "line_text m = prefix_text (Prefix m) @ Command m @ params_text (Params m)"

declare emit.simps [simp del]

text \<open>Starting from no error, no error is ever recorded.\<close>

lemma emit_no_error: "snd (fst st) = None \<Longrightarrow> snd (fst (emit wr bs st)) = None"
  by (cases st; cases "fst st") (auto simp: emit.simps split: prod.split)

lemma fold_emit_no_error: "snd (fst st) = None \<Longrightarrow> snd (fst (fold (\<lambda>p. emit wr (f p)) ps st)) = None"
  by (induction ps arbitrary: st) (simp_all add: emit_no_error)

lemma WriteMessage_no_error: "fst (WriteMessage wr m w) = None"
proof -
  have "snd (fst (WriteTo wr m w)) = None"
    unfolding WriteTo_def Let_def
    by (intro emit_no_error) (auto intro!: emit_no_error fold_emit_no_error)
  then show ?thesis by (auto simp: WriteMessage_def Let_def split: prod.split)
qed

lemma emit_buffer:
  "emit buffer_Write bs ((n, None), b) = ((n + int (length bs), None), b @ bs)"
  by (simp add: emit.simps buffer_Write_def)

lemma fold_emit_buffer:
  "fold (\<lambda>p. emit buffer_Write (SP # p)) ps ((n, None), b) =
     ((n + int (length (concat (map (\<lambda>p. SP # p) ps))), None),
      b @ concat (map (\<lambda>p. SP # p) ps))"
  by (induction ps arbitrary: n b) (simp_all add: emit_buffer)

lemma params_text_eq:
  "ps \<noteq> [] \<Longrightarrow>
     params_text ps = concat (map (\<lambda>p. SP # p) (butlast ps)) @ last_param_text (last ps)"
  by (induction ps rule: params_text.induct) simp_all

lemma WriteTo_buffer:
  "WriteTo buffer_Write m b =
     ((int (length (line_text m @ [CR, LF])), None), b @ line_text m @ [CR, LF])"
  by (cases "Params m = []")
    (simp_all add: WriteTo_def line_text_def prefix_text_def params_text_eq emit_buffer
      fold_emit_buffer)

lemma String_eq: "String m = line_text m @ [CR, LF]"
  by (simp add: String_def WriteTo_buffer)

lemma Eq_iff: "Eq m1 m2 \<longleftrightarrow> m1 = m2"
proof -
  have "length ps = length qs \<Longrightarrow> params_eq ps qs \<longleftrightarrow> ps = qs" for ps qs
    by (induction ps qs rule: params_eq.induct) auto
  then show ?thesis by (auto simp: Eq_def)
qed

lemma fold_lengths: "fold (\<lambda>p t. t + length p) ps n = n + length (concat ps)"
  by (induction ps arbitrary: n) simp_all

lemma length_params_text:
  "length (params_text ps) = length ps + length (concat ps)
     + (if ps \<noteq> [] \<and> SP \<in> set (last ps) then 1 else 0)"
  by (induction ps rule: params_text.induct) (auto simp: last_param_text_def)

lemma Len_eq: "Len m = length (String m)"
  by (cases "Params m" rule: rev_cases)
    (simp_all add: Len_def String_eq line_text_def prefix_text_def length_params_text
      fold_lengths nth_append)

end
