(* ===== verification/Irc_Validate.thy ===== *)
theory Irc_Validate
  imports Irc_Message
begin

text \<open>
  \<open>irc/validate.go\<close>: the check that every message passes before the proxy acts on it. A
  \<open>*MessageError\<close> is a message under another type name, so the result is \<open>None\<close> for a valid
  message and \<open>Some\<close> the reply for an invalid one. Looking up a missing key of the Go map
  \<open>minParams\<close> gives 0.
\<close>

definition MessageError_String :: "message \<Rightarrow> string" where
  "MessageError_String me = (let m = me in String m)"

definition MessageError_Error :: "message \<Rightarrow> string" where
  "MessageError_Error me = MessageError_String me"

definition minParams :: "(string \<times> nat) list" where
  "minParams = [
     (''PASS'', 1),
     (''PRIVMSG'', 2),
     (''NOTICE'', 2),
     (''JOIN'', 1),
     (''NICK'', 1),
     (''USER'', 4),
     (RPL_WELCOME, 2),
     (RPL_YOURHOST, 2),
     (RPL_CREATED, 2),
     (RPL_MYINFO, 5),
     (RPL_TOPIC, 3),
     (RPL_NAMEREPLY, 4),
     (RPL_ENDOFNAMES, 3)]"

definition min_params_of :: "string \<Rightarrow> nat" where
  "min_params_of c = (case map_of minParams c of None \<Rightarrow> 0 | Some n \<Rightarrow> n)"

definition Validate :: "message \<Rightarrow> message option" where
  "Validate m =
     (if Command m = [] then
        Some (msg_of ERR_UNKNOWNCOMMAND [''Unknown command: '' @ [CHR 0x22, CHR 0x22]])
      else if length (Params m) > 15 then
        Some (msg_of ERR_UNKNOWNCOMMAND [''Too many parameters (max 15)''])
      else if length (Params m) < min_params_of (Command m) then
        Some (msg_of ERR_NEEDMOREPARAMS [''Not enough parameters''])
      else None)"

lemma Validate_None:
  "Validate m = None \<longleftrightarrow>
     Command m \<noteq> [] \<and> length (Params m) \<le> 15 \<and> min_params_of (Command m) \<le> length (Params m)"
  by (auto simp: Validate_def)

lemma min_params_simps [simp]:
  "min_params_of ''PASS'' = 1" "min_params_of ''PRIVMSG'' = 2" "min_params_of ''NOTICE'' = 2"
  "min_params_of ''JOIN'' = 1" "min_params_of ''NICK'' = 1" "min_params_of ''USER'' = 4"
  "min_params_of RPL_WELCOME = 2" "min_params_of RPL_YOURHOST = 2" "min_params_of RPL_CREATED = 2"
  "min_params_of RPL_MYINFO = 5" "min_params_of RPL_TOPIC = 3" "min_params_of RPL_NAMEREPLY = 4"
  "min_params_of RPL_ENDOFNAMES = 3"
  "min_params_of ''KICK'' = 0" "min_params_of ''PART'' = 0" "min_params_of ''QUIT'' = 0"
  by (simp_all add: min_params_of_def minParams_def)

text \<open>An error reply is itself a valid message that a peer can read back.\<close>

lemma Validate_reply:
  assumes "Validate m = Some r"
  shows "Prefix r = [] \<and> Command r \<in> {ERR_UNKNOWNCOMMAND, ERR_NEEDMOREPARAMS}
    \<and> length (Params r) = 1 \<and> Validate r = None"
proof -
  have "min_params_of ERR_UNKNOWNCOMMAND = 0" "min_params_of ERR_NEEDMOREPARAMS = 0"
    by (simp_all add: min_params_of_def minParams_def)
  with assms show ?thesis by (auto simp: Validate_def split: if_splits)
qed

end
