(* ===== verification/Session_State.thy ===== *)
theory Session_State
  imports Irc_ClientID Irc_Validate
begin

text \<open>
  \<open>proxy/state\<close>: what the proxy knows of one side's view of the session, in the order of the
  package's files: the handshake, the channels, the session that holds both.

  A Go map is an association list with distinct keys, so that a \<open>range\<close> over it can be
  modelled as the list in an order that the run-time chooses. The channel states live behind
  pointers in the map; every update of the code goes to the entry of the map, and no two keys
  share a pointer, so updating the entry is what the code does. \<open>UpdateFromServer\<close> indexes
  \<open>msg.Params\<close> without a check, so it can panic.
\<close>

section \<open>The handshake\<close>

record handshake =
  haveNick :: bool
  haveUser :: bool
  haveMOTD :: bool

definition no_handshake :: handshake where
  "no_handshake = \<lparr>haveNick = False, haveUser = False, haveMOTD = False\<rparr>"

definition Done :: "handshake \<Rightarrow> bool" where
  "Done h \<longleftrightarrow> haveNick h \<and> haveUser h \<and> haveMOTD h"

definition WantsWelcome :: "handshake \<Rightarrow> bool" where
  "WantsWelcome h \<longleftrightarrow> haveNick h \<and> haveUser h \<and> \<not> haveMOTD h"

definition Handshake_UpdateFromClient :: "handshake \<Rightarrow> message \<Rightarrow> handshake" where
  "Handshake_UpdateFromClient h msg =
     (if Done h then h
      else if Command msg = ''USER'' then h\<lparr>haveUser := True\<rparr>
      else if Command msg = ''NICK'' then h\<lparr>haveNick := True\<rparr>
      else h)"

definition nick_errors :: "string list" where
  "nick_errors = [ERR_NONICKNAMEGIVEN, ERR_ERRONEUSNICKNAME, ERR_NICKNAMEINUSE, ERR_NICKCOLLISION]"

definition Handshake_UpdateFromServer :: "handshake \<Rightarrow> message \<Rightarrow> handshake" where
  "Handshake_UpdateFromServer h msg =
     (if Done h then h
      else if Command msg \<in> set nick_errors then h\<lparr>haveNick := False\<rparr>
      else if Command msg = RPL_ENDOFMOTD \<or> Command msg = ERR_NOMOTD then h\<lparr>haveMOTD := True\<rparr>
      else h)"

text \<open>A finished handshake never becomes unfinished.\<close>

lemma Done_stable [simp]:
  "Done h \<Longrightarrow> Handshake_UpdateFromClient h msg = h"
  "Done h \<Longrightarrow> Handshake_UpdateFromServer h msg = h"
  by (simp_all add: Handshake_UpdateFromClient_def Handshake_UpdateFromServer_def)

text \<open>The commands that move the handshake; everything else leaves it alone.\<close>

definition handshake_commands :: "string list" where
  "handshake_commands = ''USER'' # ''NICK'' # RPL_ENDOFMOTD # ERR_NOMOTD # nick_errors"

lemma handshake_frame:
  "Command msg \<notin> {''USER'', ''NICK''} \<Longrightarrow> Handshake_UpdateFromClient h msg = h"
  "Command msg \<notin> {RPL_ENDOFMOTD, ERR_NOMOTD} \<union> set nick_errors \<Longrightarrow> Handshake_UpdateFromServer h msg = h"
  by (auto simp: Handshake_UpdateFromClient_def Handshake_UpdateFromServer_def)

section \<open>One channel\<close>

record channel_state =
  Topic :: string
  users :: "(string \<times> bool) list"

definition NewChannelState :: "string \<Rightarrow> channel_state" where
  "NewChannelState topic = \<lparr>Topic = topic, users = []\<rparr>"

text \<open>\<open>Users\<close> ranges over the map; \<open>ord\<close> is the order the run-time picks.\<close>

definition Users :: "(string list \<Rightarrow> string list) \<Rightarrow> channel_state \<Rightarrow> string list" where
  "Users ord s = ord (map fst (users s))"

definition AddUser :: "channel_state \<Rightarrow> string \<Rightarrow> channel_state" where
  "AddUser s nick = s\<lparr>users := AList.update nick True (users s)\<rparr>"

definition RemoveUser :: "channel_state \<Rightarrow> string \<Rightarrow> channel_state" where
  "RemoveUser s nick = s\<lparr>users := AList.delete nick (users s)\<rparr>"

definition HaveUser :: "channel_state \<Rightarrow> string \<Rightarrow> bool" where
  "HaveUser s nick = (case map_of (users s) nick of None \<Rightarrow> False | Some b \<Rightarrow> b)"

text \<open>The body of the loop over the names of an \<open>RPL_NAMEREPLY\<close>: \<open>nick\<close> stays empty on an error.\<close>

definition name_nick :: "string \<Rightarrow> string" where
  "name_nick user =
     (case ParseClientID (trim_set [SP, CR, LF] user) of
        Inl _ \<Rightarrow> []
      | Inr clientID \<Rightarrow> Nick clientID)"

text \<open>A message of the client changes nothing in a channel, joining included: the server has to confirm it.\<close>

definition Channel_UpdateFromClient :: "channel_state \<Rightarrow> message \<Rightarrow> channel_state" where
  "Channel_UpdateFromClient s msg = s"

definition Channel_UpdateFromServer :: "channel_state \<Rightarrow> message \<Rightarrow> channel_state res" where
  "Channel_UpdateFromServer s msg =
     (if Command msg = ''JOIN'' then
        Ret (case ParseClientID (Prefix msg) of
               Inl _ \<Rightarrow> s
             | Inr clientID \<Rightarrow> AddUser s (Nick clientID))
      else if Command msg = ''PART'' \<or> Command msg = ''KICK'' \<or> Command msg = ''QUIT'' then
        Ret (case ParseClientID (Prefix msg) of
               Inl _ \<Rightarrow> s
             | Inr clientID \<Rightarrow> RemoveUser s (Nick clientID))
      else if Command msg = RPL_NAMEREPLY then
        andThen (Param msg 3) (\<lambda>names.
          Ret (fold (\<lambda>user s. AddUser s (name_nick user)) (split_on SP names) s))
      else if Command msg = ''NICK'' then
        andThen (Param msg 0) (\<lambda>newNick.
          Ret (case ParseClientID (Prefix msg) of
                 Inl _ \<Rightarrow> s
               | Inr clientID \<Rightarrow>
                   (if HaveUser s (Nick clientID)
                    then AddUser (RemoveUser s (Nick clientID)) newNick
                    else s)))
      else Ret s)"

section \<open>All channels\<close>

type_synonym channels = "(string \<times> channel_state) list"

definition Channels_HaveChannel :: "channels \<Rightarrow> string \<Rightarrow> bool" where
  "Channels_HaveChannel chans name \<longleftrightarrow> map_of chans name \<noteq> None"

text \<open>\<open>GetChannel\<close>: the map, with a fresh entry if there was none, and the entry.\<close>

definition Channels_GetChannel :: "channels \<Rightarrow> string \<Rightarrow> channels \<times> channel_state" where
  "Channels_GetChannel chans name =
     (case map_of chans name of
        None \<Rightarrow> (let s = NewChannelState [] in (AList.update name s chans, s))
      | Some s \<Rightarrow> (chans, s))"

definition DeleteChannel :: "channels \<Rightarrow> string \<Rightarrow> channels" where
  "DeleteChannel chans name = AList.delete name chans"

text \<open>\<open>s.GetChannel(name).UpdateFromServer(msg)\<close>: the update through the pointer.\<close>

definition update_channel :: "channels \<Rightarrow> string \<Rightarrow> message \<Rightarrow> channels res" where
  "update_channel chans name msg =
     (let (chans, s) = Channels_GetChannel chans name in
      andThen (Channel_UpdateFromServer s msg) (\<lambda>s'. Ret (AList.update name s' chans)))"

fun update_all :: "channels \<Rightarrow> message \<Rightarrow> channels res" where
  "update_all [] msg = Ret []"
| "update_all ((name, s) # chans) msg =
     andThen (Channel_UpdateFromServer s msg) (\<lambda>s'.
       andThen (update_all chans msg) (\<lambda>chans'. Ret ((name, s') # chans')))"

definition Channels_UpdateFromClient :: "channels \<Rightarrow> message \<Rightarrow> channels" where
  "Channels_UpdateFromClient chans msg = chans"

definition Channels_UpdateFromServer :: "channels \<Rightarrow> message \<Rightarrow> channels res" where
  "Channels_UpdateFromServer chans msg =
     (if Command msg = ''KICK'' \<or> Command msg = ''PART'' \<or> Command msg = ''JOIN'' then
        andThen (Param msg 0) (\<lambda>name. update_channel chans name msg)
      else if Command msg = RPL_TOPIC then
        andThen (Param msg 1) (\<lambda>name. andThen (Param msg 2) (\<lambda>topic.
          (let (chans, s) = Channels_GetChannel chans name in
           Ret (AList.update name (s\<lparr>Topic := topic\<rparr>) chans))))
      else if Command msg = RPL_NAMEREPLY then
        andThen (Param msg 2) (\<lambda>name. update_channel chans name msg)
      else if Command msg = ''NICK'' \<or> Command msg = ''QUIT'' then update_all chans msg
      else Ret chans)"

section \<open>The session\<close>

record session =
  ClientID :: client_id
  Handshake :: handshake
  channels :: channels

definition NewSession :: session where
  "NewSession = \<lparr>ClientID = no_client_id, Handshake = no_handshake, channels = []\<rparr>"

definition IsMe :: "session \<Rightarrow> string \<Rightarrow> bool" where
  "IsMe s prefix =
     (case ParseClientID prefix of
        Inl _ \<Rightarrow> False
      | Inr clientID \<Rightarrow> Nick clientID = Nick (ClientID s))"

definition HaveChannel :: "session \<Rightarrow> string \<Rightarrow> bool" where
  "HaveChannel s name = Channels_HaveChannel (channels s) name"

definition GetChannel :: "session \<Rightarrow> string \<Rightarrow> session \<times> channel_state" where
  "GetChannel s name =
     (let (chans, c) = Channels_GetChannel (channels s) name in (s\<lparr>channels := chans\<rparr>, c))"

text \<open>The state behind the pointer \<open>GetChannel\<close> returned, written back.\<close>

definition put_channel :: "session \<Rightarrow> string \<Rightarrow> channel_state \<Rightarrow> session" where
  "put_channel s name c = s\<lparr>channels := AList.update name c (channels s)\<rparr>"

definition Session_UpdateFromClient :: "session \<Rightarrow> message \<Rightarrow> session" where
  "Session_UpdateFromClient s msg =
     s\<lparr>Handshake := Handshake_UpdateFromClient (Handshake s) msg\<rparr>"

definition Session_UpdateFromServer :: "session \<Rightarrow> message \<Rightarrow> session res" where
  "Session_UpdateFromServer s msg =
     (let s = s\<lparr>Handshake := Handshake_UpdateFromServer (Handshake s) msg\<rparr> in
      andThen (Channels_UpdateFromServer (channels s) msg) (\<lambda>chans.
        let s = s\<lparr>channels := chans\<rparr> in
        if IsMe s (Prefix msg) then
          if Command msg = ''KICK'' \<or> Command msg = ''PART'' then
            andThen (Param msg 0) (\<lambda>name. Ret (s\<lparr>channels := DeleteChannel (channels s) name\<rparr>))
          else if Command msg = ''NICK'' then
            andThen (Param msg 0) (\<lambda>nick. Ret (s\<lparr>ClientID := (ClientID s)\<lparr>Nick := nick\<rparr>\<rparr>))
          else Ret s
        else Ret s))"

end
