(* ===== verification/Log_Store.thy ===== *)
theory Log_Store
  imports Irc_Message
begin

text \<open>
  \<open>storage/storage.go\<close>: the interface to the message logs. The methods of \<open>Store\<close>, \<open>ChannelLog\<close>
  and \<open>LogCursor\<close> are the fields of \<open>store_ops\<close>; a \<open>ChannelLog\<close> is the store and a name, so its
  methods take both. Every method returns the error it returns in Go (\<open>None\<close> is nil) and the
  store after the call, so that a failing backend is covered. \<open>Get\<close> may return a nil message.

  \<open>log_store\<close> is the contract its comments state: a log per channel, appended to by
  \<open>LogMessage\<close>, read in order by a cursor, emptied by \<open>Clear\<close>. The proxy is proved correct
  against the contract only; the two backends provide it.
\<close>

section \<open>The methods\<close>

record ('s, 'c) store_ops =
  op_GetChannel :: "'s \<Rightarrow> string \<Rightarrow> error option \<times> 's"
  op_LogMessage :: "'s \<Rightarrow> string \<Rightarrow> message \<Rightarrow> error option \<times> 's"
  op_Replay :: "'s \<Rightarrow> string \<Rightarrow> (error + 'c) \<times> 's"
  op_Clear :: "'s \<Rightarrow> string \<Rightarrow> error option \<times> 's"
  op_Get :: "'c \<Rightarrow> message option \<times> error option"
  op_Next :: "'c \<Rightarrow> 'c"

section \<open>The empty cursor\<close>

text \<open>\<open>EmptyCursor\<close> has no state: any value stands for it.\<close>

definition emptyCursor_Get :: "'c \<Rightarrow> message option \<times> error option" where
  "emptyCursor_Get c = (None, Some EOF)"

definition emptyCursor_Next :: "'c \<Rightarrow> 'c" where
  "emptyCursor_Next c = c"

definition emptyCursor_Close :: "'c \<Rightarrow> error option \<times> 'c" where
  "emptyCursor_Close c = (None, c)"

lemmas emptyCursor_defs [simp] = emptyCursor_Get_def emptyCursor_Next_def emptyCursor_Close_def

section \<open>Client code\<close>

text \<open>Logging several messages to one channel, as long as the store reports no error.\<close>

fun log_all :: "('s, 'c) store_ops \<Rightarrow> 's \<Rightarrow> string \<Rightarrow> message list \<Rightarrow> 's option" where
  "log_all ops s name [] = Some s"
| "log_all ops s name (m # ms) =
     (case op_LogMessage ops s name m of
        (None, s') \<Rightarrow> log_all ops s' name ms
      | (Some e, s') \<Rightarrow> None)"

text \<open>The cursor read to its end by \<open>Get\<close> and \<open>Next\<close>, with fuel.\<close>

fun read_cursor :: "('s, 'c) store_ops \<Rightarrow> nat \<Rightarrow> 'c \<Rightarrow> message list \<times> error option" where
  "read_cursor ops 0 c = ([], None)"
| "read_cursor ops (Suc n) c =
     (case op_Get ops c of
        (Some m, None) \<Rightarrow> (let (ms, e) = read_cursor ops n (op_Next ops c) in (m # ms, e))
      | (_, e) \<Rightarrow> ([], e))"

section \<open>The contract\<close>

text \<open>
  \<^item> \<open>inv\<close>: the states the store can be in; \<open>contents\<close>: the log of each channel.
  \<^item> \<open>keeps\<close>: the messages the store gives back as they were logged.
  \<^item> \<open>cinv\<close>: the states a cursor can be in; \<open>pending\<close>: the messages a cursor will still deliver; \<open>fails\<close>: the error that follows
    them, \<open>None\<close> at the end of the log. A cursor that fails has delivered a prefix of the log.
  A method that reports an error has changed no log.
\<close>

locale log_store =
  fixes ops :: "('s, 'c) store_ops"
    and inv :: "'s \<Rightarrow> bool"
    and contents :: "'s \<Rightarrow> string \<Rightarrow> message list"
    and cinv :: "'c \<Rightarrow> bool"
    and pending :: "'c \<Rightarrow> message list"
    and fails :: "'c \<Rightarrow> error option"
    and keeps :: "message \<Rightarrow> bool"
  assumes get_channel:
      "inv s \<Longrightarrow> op_GetChannel ops s name = (e, s') \<Longrightarrow> inv s' \<and> contents s' = contents s"
    and log_message:
      "inv s \<Longrightarrow> keeps m \<Longrightarrow> op_LogMessage ops s name m = (e, s') \<Longrightarrow>
         inv s' \<and> contents s' =
           (if e = None then (contents s)(name := contents s name @ [m]) else contents s)"
    and replay:
      "inv s \<Longrightarrow> op_Replay ops s name = (r, s') \<Longrightarrow> inv s' \<and> contents s' = contents s"
    and replay_cursor:
      "inv s \<Longrightarrow> op_Replay ops s name = (Inr c, s') \<Longrightarrow>
         cinv c \<and> (\<exists>rest. contents s name = pending c @ rest \<and> (fails c = None \<longrightarrow> rest = []))"
    and clear:
      "inv s \<Longrightarrow> op_Clear ops s name = (e, s') \<Longrightarrow>
         inv s' \<and> contents s' = (if e = None then (contents s)(name := []) else contents s)"
    and get_end: "cinv c \<Longrightarrow> pending c = [] \<Longrightarrow>
         snd (op_Get ops c) = Some (case fails c of None \<Rightarrow> EOF | Some e \<Rightarrow> e)"
    and get_message: "cinv c \<Longrightarrow> pending c = m # ms \<Longrightarrow> op_Get ops c = (Some m, None)"
    and next_message: "cinv c \<Longrightarrow> pending c = m # ms \<Longrightarrow>
         cinv (op_Next ops c) \<and> pending (op_Next ops c) = ms \<and> fails (op_Next ops c) = fails c"
    and fails_not_EOF: "cinv c \<Longrightarrow> fails c \<noteq> Some EOF"
begin

lemmas store_laws = get_channel log_message replay replay_cursor clear get_end get_message
  next_message fails_not_EOF

lemma log_all_contents:
  "inv s \<Longrightarrow> list_all keeps ms \<Longrightarrow> log_all ops s name ms = Some s' \<Longrightarrow>
     inv s' \<and> contents s' = (contents s)(name := contents s name @ ms)"
proof (induction ms arbitrary: s)
  case (Cons m ms)
  then obtain s1 where s1: "op_LogMessage ops s name m = (None, s1)" "log_all ops s1 name ms = Some s'"
    by (auto split: prod.splits option.splits)
  with log_message [of s m name None s1] Cons.prems
  have "inv s1" "contents s1 = (contents s)(name := contents s name @ [m])" by auto
  with Cons.IH [of s1] Cons.prems s1(2) show ?case by auto
qed simp

lemma read_cursor_pending:
  "cinv c \<Longrightarrow> length (pending c) < n \<Longrightarrow>
     read_cursor ops n c = (pending c, Some (case fails c of None \<Rightarrow> EOF | Some e \<Rightarrow> e))"
proof (induction n arbitrary: c)
  case (Suc n)
  show ?case
  proof (cases "pending c")
    case Nil
    with get_end [of c] Suc.prems show ?thesis by (cases "op_Get ops c") (auto split: option.splits)
  next
    case (Cons m ms)
    with get_message [OF _ Cons] next_message [OF _ Cons] Suc.IH [of "op_Next ops c"] Suc.prems
    show ?thesis by simp
  qed
qed simp

text \<open>What was logged to an empty channel is what a replay delivers, in the same order.\<close>

lemma log_then_replay:
  assumes "inv s" and "contents s name = []" and "list_all keeps ms"
    and "log_all ops s name ms = Some s1" and "op_Replay ops s1 name = (Inr c, s2)"
    and "fails c = None" and "length ms < n"
  shows "read_cursor ops n c = (ms, Some EOF)"
proof -
  have s1: "inv s1" "contents s1 name = ms" using log_all_contents [OF assms(1,3,4)] assms(2) by auto
  with replay_cursor [OF s1(1) assms(5)] assms(6) have "cinv c" "pending c = ms" by auto
  with read_cursor_pending [of c n] assms(6,7) show ?thesis by simp
qed

end

text \<open>A store whose methods never report an error.\<close>

locale reliable_store = log_store +
  assumes no_error:
      "inv s \<Longrightarrow> fst (op_GetChannel ops s name) = None"
      "inv s \<Longrightarrow> fst (op_LogMessage ops s name m) = None"
      "inv s \<Longrightarrow> fst (op_Clear ops s name) = None"
    and replay_ok: "inv s \<Longrightarrow> \<exists>c s'. op_Replay ops s name = (Inr c, s') \<and> fails c = None"
begin

lemma log_all_ok: "inv s \<Longrightarrow> list_all keeps ms \<Longrightarrow> \<exists>s'. log_all ops s name ms = Some s'"
proof (induction ms arbitrary: s)
  case (Cons m ms)
  obtain e s1 where s1: "op_LogMessage ops s name m = (e, s1)" by force
  with no_error(2) [OF Cons.prems(1), of name m] have "e = None" by simp
  with log_message [OF Cons.prems(1) _ s1] Cons s1 show ?case by auto
qed simp

end

end
