(* ===== verification/Proxy_Model.thy ===== *)
theory Proxy_Model
  imports Session_State Log_Store
begin

text \<open>
  \<open>proxy/proxy.go\<close>: the proxy daemon, function by function. The state of \<open>Proxy\<close> and of its two
  connections is passed explicitly; the two fields at its end stand for the world.

  \<^item> A transport (\<open>irc.ReadWriteCloser\<close>) is a \<open>handle\<close>. \<open>setup\<close> sets the transport and the
    channel that \<open>ReadAll\<close> feeds together, so both are named by the handle.
  \<^item> Everything the environment decides is in \<open>env\<close>: whether a \<open>WriteMessage\<close> fails, what
    \<open>Connect\<close> returns, the clock, the order of a \<open>range\<close> over a map, and the store. The
    answers are functions of the number of interactions so far (\<open>tick\<close>), so a statement for
    every \<open>env\<close> covers every behaviour of the environment.
  \<^item> When a transport is opened the environment decides (\<open>backlog\<close>) which messages \<open>ReadAll\<close>
    will still hand over after the proxy closes it: those that had arrived and were not yet
    received. The connection keeps them in \<open>unread\<close>, a field the code does not have, which only
    \<open>shutdown\<close> reads. Being arbitrary it covers every amount that may be left at any time.
  \<^item> \<open>trace\<close> records what the proxy did to its transports, oldest first.
  \<^item> \<open>fuel\<close> bounds the loop of \<open>replayLog\<close>, which the code ends at the end of the log.
  Logging for the operator is left out: it has no effect on the state.
\<close>

section \<open>State\<close>

type_synonym handle = nat

datatype action =
    Wrote handle message bool      \<comment> \<open>\<open>WriteMessage\<close>, and whether it returned nil\<close>
  | Closed handle                  \<comment> \<open>\<open>Close\<close>\<close>
  | Drained handle "message list"  \<comment> \<open>the channel read until it is closed, what came out thrown away\<close>
  | Accepted handle                \<comment> \<open>a client's transport taken into use\<close>
  | Dialed "handle option"         \<comment> \<open>\<open>Connect\<close>, and the transport it returned\<close>

record connection =
  rwc :: "handle option"           \<comment> \<open>\<open>ReadWriteCloser\<close>, nil or not\<close>
  chan :: "handle option"          \<comment> \<open>\<open>Chan\<close>, nil or not\<close>
  Session :: session
  DropDeadline :: int
  PingDeadline :: int
  PingSent :: bool
  unread :: "message list"         \<comment> \<open>not in the code: what \<open>Chan\<close> still gives if the proxy closes it\<close>

record 's proxy =
  client :: connection
  server :: connection
  messagelogs :: 's
  preLogSession :: session
  haveMsgCache :: bool
  cache_yourhost :: string
  cache_created :: string
  cache_myinfo :: "string list"
  serverPrefix :: string
  tick :: nat
  trace :: "action list"

record ('s, 'c) env =
  store :: "('s, 'c) store_ops"
  write_err :: "nat \<Rightarrow> error option"
  dial :: "nat \<Rightarrow> error + handle"
  clock :: "nat \<Rightarrow> int"
  backlog :: "nat \<Rightarrow> message list"
  range_order :: "nat \<Rightarrow> string list \<Rightarrow> string list"
  fuel :: nat

text \<open>30 seconds in nanoseconds.\<close>

definition pingTime :: int where
  "pingTime = 30 * 1000000000"

text \<open>The zero \<open>time.Time\<close>: earlier than every time the clock shows; never compared before it is set.\<close>

definition zero_time :: int where
  "zero_time = 0"

definition emptyConnection :: connection where
  "emptyConnection =
     \<lparr>rwc = None, chan = None, Session = NewSession, DropDeadline = zero_time,
      PingDeadline = zero_time, PingSent = False, unread = []\<rparr>"

definition IsClosed :: "connection \<Rightarrow> bool" where
  "IsClosed c \<longleftrightarrow> rwc c = None \<or> chan c = None"

definition NewProxy :: "'s \<Rightarrow> 's proxy" where
  "NewProxy st =
     \<lparr>client = emptyConnection, server = emptyConnection, messagelogs = st,
      preLogSession = NewSession, haveMsgCache = False, cache_yourhost = [], cache_created = [],
      cache_myinfo = [], serverPrefix = [], tick = 0, trace = []\<rparr>"

section \<open>The world\<close>

text \<open>One reading of the clock, one \<open>WriteMessage\<close>, one \<open>Connect\<close>.\<close>

definition time_Now :: "('s, 'c) env \<Rightarrow> 's proxy \<Rightarrow> int \<times> 's proxy" where
  "time_Now env p = (clock env (tick p), p\<lparr>tick := Suc (tick p)\<rparr>)"

definition write_to :: "('s, 'c) env \<Rightarrow> handle \<Rightarrow> message \<Rightarrow> 's proxy \<Rightarrow> error option \<times> 's proxy" where
  "write_to env h msg p =
     (let err = write_err env (tick p) in
      (err, p\<lparr>tick := Suc (tick p), trace := trace p @ [Wrote h msg (err = None)]\<rparr>))"

definition Connect :: "('s, 'c) env \<Rightarrow> 's proxy \<Rightarrow> (error + handle) \<times> 's proxy" where
  "Connect env p =
     (let r = dial env (tick p) in
      (r, p\<lparr>tick := Suc (tick p),
            trace := trace p @ [Dialed (case r of Inl _ \<Rightarrow> None | Inr h \<Rightarrow> Some h)]\<rparr>))"

section \<open>Connections\<close>

definition updateDeadlines :: "int \<Rightarrow> connection \<Rightarrow> connection" where
  "updateDeadlines now c = c\<lparr>PingDeadline := now + pingTime, PingSent := False\<rparr>"

text \<open>
  \<open>shutdown\<close>: what it does to the transport, and the connection after it. Its loop receives from
  the channel until \<open>ReadAll\<close> has closed it and throws away what it receives; these messages
  are recorded with \<open>Drained\<close>.
\<close>

definition shutdown :: "connection \<Rightarrow> action list \<times> connection" where
  "shutdown c =
     (if IsClosed c then ([], c)
      else ([Closed (the (rwc c)), Drained (the (chan c)) (unread c)], emptyConnection))"

definition conn_setup :: "handle \<Rightarrow> message list \<Rightarrow> int \<Rightarrow> connection \<Rightarrow> connection" where
  "conn_setup h ms now c =
     updateDeadlines now (c\<lparr>rwc := Some h, chan := Some h, Session := NewSession, unread := ms\<rparr>)"

definition shutdown_client :: "'s proxy \<Rightarrow> 's proxy" where
  "shutdown_client p =
     (let (acts, c) = shutdown (client p) in p\<lparr>client := c, trace := trace p @ acts\<rparr>)"

definition shutdown_server :: "'s proxy \<Rightarrow> 's proxy" where
  "shutdown_server p =
     (let (acts, c) = shutdown (server p) in p\<lparr>server := c, trace := trace p @ acts\<rparr>)"

abbreviation client_session :: "'s proxy \<Rightarrow> session" where
  "client_session p \<equiv> Session (client p)"

abbreviation server_session :: "'s proxy \<Rightarrow> session" where
  "server_session p \<equiv> Session (server p)"

definition dropClient :: "'s proxy \<Rightarrow> 's proxy" where
  "dropClient p =
     (let p = shutdown_client p in
      if \<not> Done (Handshake (server_session p)) then shutdown_server p else p)"

definition reset :: "'s proxy \<Rightarrow> 's proxy" where
  "reset p = shutdown_server (shutdown_client p)"

section \<open>Sending\<close>

definition sendServer :: "('s, 'c) env \<Rightarrow> message \<Rightarrow> 's proxy \<Rightarrow> error option \<times> 's proxy" where
  "sendServer env msg p =
     (case rwc (server p) of
        None \<Rightarrow> (Some ErrConnectionClosed, p)
      | Some h \<Rightarrow>
          (case write_to env h msg p of
             (Some err, p) \<Rightarrow> (Some err, reset p)
           | (None, p) \<Rightarrow>
               (None, p\<lparr>server := (server p)\<lparr>Session := Session_UpdateFromClient (server_session p) msg\<rparr>\<rparr>)))"

definition sendClient :: "('s, 'c) env \<Rightarrow> message \<Rightarrow> 's proxy \<Rightarrow> (error option \<times> 's proxy) res" where
  "sendClient env msg p =
     (case rwc (client p) of
        None \<Rightarrow> Ret (Some ErrConnectionClosed, p)
      | Some h \<Rightarrow>
          (case write_to env h msg p of
             (Some err, p) \<Rightarrow> Ret (Some err, dropClient p)
           | (None, p) \<Rightarrow>
               andThen (Session_UpdateFromServer (client_session p) msg) (\<lambda>cs.
               andThen (Session_UpdateFromServer (preLogSession p) msg) (\<lambda>ps.
                 Ret (None, p\<lparr>client := (client p)\<lparr>Session := cs\<rparr>, preLogSession := ps\<rparr>)))))"

text \<open>\<open>p.sendClient(msg)\<close> as a statement, its error ignored.\<close>

definition do_sendClient :: "('s, 'c) env \<Rightarrow> message \<Rightarrow> 's proxy \<Rightarrow> 's proxy res" where
  "do_sendClient env msg p = andThen (sendClient env msg p) (\<lambda>(err, p). Ret p)"

definition do_sendServer :: "('s, 'c) env \<Rightarrow> message \<Rightarrow> 's proxy \<Rightarrow> 's proxy res" where
  "do_sendServer env msg p = Ret (snd (sendServer env msg p))"

text \<open>\<open>if err := r; err != nil { return }\<close>, and what follows it.\<close>

definition unless_error :: "(error option \<times> 's proxy) res \<Rightarrow> ('s proxy \<Rightarrow> 's proxy res) \<Rightarrow> 's proxy res" where
  "unless_error r rest = andThen r (\<lambda>(err, p). if err \<noteq> None then Ret p else rest p)"

lemma unless_error_simps [simp]:
  "unless_error (Ret (None, p)) rest = rest p"
  "unless_error (Ret (Some e, p)) rest = Ret p"
  "unless_error (Fail f) rest = Fail f"
  by (simp_all add: unless_error_def)

lemma ensures_unless:
  assumes "ensures r (\<lambda>(e, p). P p)" and "\<And>p. P p \<Longrightarrow> ensures (rest p) P"
  shows "ensures (unless_error r rest) P"
  unfolding unless_error_def by (rule ensures_andThen [OF assms(1)]) (auto intro: assms(2))

text \<open>The loop that sends messages until one fails.\<close>

fun send_messages :: "('s, 'c) env \<Rightarrow> message list \<Rightarrow> 's proxy \<Rightarrow> (error option \<times> 's proxy) res" where
  "send_messages env [] p = Ret (None, p)"
| "send_messages env (m # ms) p =
     andThen (sendClient env m p) (\<lambda>(err, p).
       if err \<noteq> None then Ret (err, p) else send_messages env ms p)"

section \<open>The message logs\<close>

text \<open>
  The loop of \<open>replayLog\<close>. A nil message without an error would be dereferenced by
  \<open>WriteMessage\<close>, after the check that the client is connected.
\<close>

fun replay_loop :: "('s, 'c) env \<Rightarrow> string \<Rightarrow> nat \<Rightarrow> 'c \<Rightarrow> 's proxy \<Rightarrow> 's proxy res" where
  "replay_loop env name 0 c p = Fail OutOfFuel"
| "replay_loop env name (Suc n) c p =
     (case op_Get (store env) c of
        (Some msg, None) \<Rightarrow>
          unless_error (sendClient env msg p) (replay_loop env name n (op_Next (store env) c))
      | (None, None) \<Rightarrow> (if rwc (client p) = None then Ret p else Fail Panic)
      | (_, Some err) \<Rightarrow>
          (if err = EOF then Ret (p\<lparr>messagelogs := snd (op_Clear (store env) (messagelogs p) name)\<rparr>)
           else Ret p))"

definition replayLog :: "('s, 'c) env \<Rightarrow> string \<Rightarrow> 's proxy \<Rightarrow> 's proxy res" where
  "replayLog env channelName p =
     (let (err, s) = op_GetChannel (store env) (messagelogs p) channelName;
          p = p\<lparr>messagelogs := s\<rparr> in
      if err \<noteq> None then Ret p
      else case op_Replay (store env) (messagelogs p) channelName of
             (Inl err, s) \<Rightarrow> Ret (p\<lparr>messagelogs := s\<rparr>)
           | (Inr cursor, s) \<Rightarrow>
               replay_loop env channelName (fuel env) cursor (p\<lparr>messagelogs := s\<rparr>))"

definition logged_commands :: "string list" where
  "logged_commands = [''PRIVMSG'', ''NOTICE'', ''JOIN'', ''KICK'', ''PART'', ''NICK'']"

definition logMessage :: "('s, 'c) env \<Rightarrow> message \<Rightarrow> 's proxy \<Rightarrow> 's proxy res" where
  "logMessage env msg p =
     (if Command msg = ''QUIT'' then Ret p
      else if Command msg \<in> set logged_commands then
        andThen (Param msg 0) (\<lambda>channelName.
          let (err, s) = op_GetChannel (store env) (messagelogs p) channelName;
              p = p\<lparr>messagelogs := s\<rparr> in
          if err \<noteq> None then Ret p
          else Ret (p\<lparr>messagelogs := snd (op_LogMessage (store env) (messagelogs p) channelName msg)\<rparr>))
      else Ret p)"

end
