(* ===== verification/Proxy_Handlers.thy ===== *)
theory Proxy_Handlers
  imports Proxy_Model
begin

text \<open>
  \<open>proxy/proxy.go\<close>: the handlers of client and server events, the keep-alive check, and the
  loop \<open>Run\<close>. The result of every handler is the proxy after it, or a panic. A statement whose
  error the code ignores is \<open>do_sendClient\<close> or \<open>do_sendServer\<close>.
\<close>

section \<open>Handshake messages of the client\<close>

definition set_ClientID :: "client_id \<Rightarrow> connection \<Rightarrow> connection" where
  "set_ClientID i c = c\<lparr>Session := (Session c)\<lparr>ClientID := i\<rparr>\<rparr>"

text \<open>The messages that stand in for the server's welcome sequence.\<close>

definition welcome_messages :: "'s proxy \<Rightarrow> message list" where
  "welcome_messages p =
     (let nick = Nick (ClientID (server_session p)) in
      [\<lparr>Prefix = serverPrefix p, Command = RPL_WELCOME,
        Params = [nick, ''Welcome back to IRC Idler, '' @ ClientID_String (ClientID (server_session p))]\<rparr>,
       \<lparr>Prefix = serverPrefix p, Command = RPL_YOURHOST, Params = [nick, cache_yourhost p]\<rparr>,
       \<lparr>Prefix = serverPrefix p, Command = RPL_CREATED, Params = [nick, cache_created p]\<rparr>,
       \<lparr>Prefix = serverPrefix p, Command = RPL_MYINFO, Params = nick # cache_myinfo p\<rparr>])"

definition handleHandshakeMessage :: "('s, 'c) env \<Rightarrow> message \<Rightarrow> 's proxy \<Rightarrow> 's proxy res" where
  "handleHandshakeMessage env msg p =
     (if Command msg \<in> {''PASS'', ''USER'', ''NICK''} then
        if \<not> Done (Handshake (server_session p)) then do_sendServer env msg p
        else if Done (Handshake (server_session p)) \<and> WantsWelcome (Handshake (client_session p)) then
          if \<not> haveMsgCache p then Ret (reset p)
          else
            unless_error (send_messages env (welcome_messages p) p) (\<lambda>p.
                let p = p\<lparr>client := set_ClientID (ClientID (server_session p)) (client p)\<rparr>
                in do_sendServer env (msg_of ''MOTD'' []) p)
        else Ret p
      else Ret p)"

section \<open>Rejoining a channel\<close>

text \<open>
  The channel state before the messages of the log. \<open>preLogState\<close> is a pointer into
  \<open>preLogSession\<close>, and \<open>sendClient\<close> updates what it points to, so it is looked up anew.
\<close>

definition preLogState :: "'s proxy \<Rightarrow> string \<Rightarrow> channel_state" where
  "preLogState p name = snd (GetChannel (preLogSession p) name)"

text \<open>The loop over the users: announce the nick, then add it to the client's channel.\<close>

fun send_names :: "('s, 'c) env \<Rightarrow> string \<Rightarrow> string \<Rightarrow> string list \<Rightarrow> 's proxy \<Rightarrow> (error option \<times> 's proxy) res" where
  "send_names env channelName myNick [] p = Ret (None, p)"
| "send_names env channelName myNick (nick # nicks) p =
     andThen (sendClient env
         \<lparr>Prefix = serverPrefix p, Command = RPL_NAMEREPLY, Params = [myNick, ''='', channelName, nick]\<rparr> p)
       (\<lambda>(err, p).
         if err \<noteq> None then Ret (err, p)
         else
           let c = snd (GetChannel (client_session p) channelName);
               p = p\<lparr>client := (client p)\<lparr>Session := put_channel (client_session p) channelName (AddUser c nick)\<rparr>\<rparr>
           in send_names env channelName myNick nicks p)"

definition rejoinChannel :: "('s, 'c) env \<Rightarrow> string \<Rightarrow> 's proxy \<Rightarrow> 's proxy res" where
  "rejoinChannel env channelName p =
     unless_error (sendClient env
         \<lparr>Prefix = ClientID_String (ClientID (client_session p)), Command = ''JOIN'', Params = [channelName]\<rparr> p)
       (\<lambda>p.
     unless_error (if Topic (preLogState p channelName) \<noteq> []
              then sendClient env
                \<lparr>Prefix = serverPrefix p, Command = RPL_TOPIC,
                 Params = [ClientID_String (ClientID (client_session p)), channelName,
                           Topic (preLogState p channelName)]\<rparr> p
              else Ret (None, p))
       (\<lambda>p.
       let p = p\<lparr>client := (client p)\<lparr>Session := fst (GetChannel (client_session p) channelName)\<rparr>\<rparr>;
           myNick = Nick (ClientID (server_session p));
           nicks = Users (range_order env (tick p)) (preLogState p channelName);
           p = p\<lparr>tick := Suc (tick p)\<rparr>
       in
     unless_error (send_names env channelName myNick nicks p) (\<lambda>p.
     unless_error (sendClient env
         \<lparr>Prefix = serverPrefix p, Command = RPL_ENDOFNAMES,
          Params = [myNick, channelName, ''End of NAMES list'']\<rparr> p)
       (replayLog env channelName))))"

section \<open>Events from the client\<close>

definition handleClientEvent :: "('s, 'c) env \<Rightarrow> message option \<Rightarrow> 's proxy \<Rightarrow> 's proxy res" where
  "handleClientEvent env event p =
     (case event of
        None \<Rightarrow> Ret (dropClient p)
      | Some msg \<Rightarrow>
     (case Validate msg of
        Some err \<Rightarrow> andThen (do_sendClient env err p) (\<lambda>p. Ret (dropClient p))
      | None \<Rightarrow>
     let p = p\<lparr>client := (client p)\<lparr>Session := Session_UpdateFromClient (client_session p) msg\<rparr>\<rparr> in
     if \<not> Done (Handshake (client_session p)) then handleHandshakeMessage env msg p
     else if Command msg = ''PING'' then
       do_sendClient env (msg\<lparr>Prefix := [], Command := ''PONG''\<rparr>) p
     else if Command msg = ''PONG'' then Ret p
     else if Command msg = ''QUIT'' then Ret (dropClient p)
     else if Command msg = ''JOIN'' then
       andThen (Param msg 0) (\<lambda>channelName.
         if HaveChannel (client_session p) channelName then Ret p
         else if HaveChannel (server_session p) channelName then
           rejoinChannel env channelName
             (p\<lparr>preLogSession := fst (GetChannel (preLogSession p) channelName)\<rparr>)
         else do_sendServer env msg p)
     else do_sendServer env msg p))"

section \<open>Events from the server\<close>

definition passed_through :: "string list" where
  "passed_through = [RPL_MOTDSTART, RPL_MOTD, RPL_NAMEREPLY, RPL_TOPIC] @ nick_errors"

definition sendClient_or_log :: "('s, 'c) env \<Rightarrow> message \<Rightarrow> 's proxy \<Rightarrow> 's proxy res" where
  "sendClient_or_log env msg p =
     andThen (sendClient env msg p) (\<lambda>(err, p).
       if err \<noteq> None then logMessage env msg p else Ret p)"

definition handleWelcome :: "('s, 'c) env \<Rightarrow> message \<Rightarrow> 's proxy \<Rightarrow> 's proxy res" where
  "handleWelcome env msg p =
     (let p = p\<lparr>serverPrefix := Prefix msg\<rparr> in
      andThen (Param msg 1) (\<lambda>text.
      case ParseClientID (last (split_on SP text)) of
        Inl err \<Rightarrow> Ret (reset p)
      | Inr clientID \<Rightarrow>
          let p = p\<lparr>server := set_ClientID clientID (server p)\<rparr> in
          andThen (sendClient env msg p) (\<lambda>(err, p).
            if err = None then Ret (p\<lparr>client := set_ClientID clientID (client p)\<rparr>) else Ret p)))"

text \<open>The switch of \<open>handleServerEvent\<close>, after the state of the server side is updated.\<close>

definition handle_server_command :: "('s, 'c) env \<Rightarrow> message \<Rightarrow> 's proxy \<Rightarrow> 's proxy res" where
  "handle_server_command env msg p =
     (if Command msg = ''PING'' then
        do_sendServer env (msg\<lparr>Prefix := [], Command := ''PONG''\<rparr>) p
      else if Command msg = ''PONG'' then Ret p
      else if Command msg \<in> set passed_through then do_sendClient env msg p
      else if Command msg = RPL_WELCOME then handleWelcome env msg p
      else if Command msg = RPL_YOURHOST then
        andThen (Param msg 1) (\<lambda>text. do_sendClient env msg (p\<lparr>cache_yourhost := text\<rparr>))
      else if Command msg = RPL_CREATED then
        andThen (Param msg 1) (\<lambda>text. do_sendClient env msg (p\<lparr>cache_created := text\<rparr>))
      else if Command msg = RPL_MYINFO then
        (if Params msg = [] then Fail Panic
         else andThen (do_sendClient env msg (p\<lparr>cache_myinfo := tl (Params msg)\<rparr>))
                (\<lambda>p. Ret (p\<lparr>haveMsgCache := True\<rparr>)))
      else if Command msg = RPL_ENDOFMOTD \<or> Command msg = ERR_NOMOTD then
        andThen (do_sendClient env msg p)
          (\<lambda>p. replayLog env (Nick (ClientID (client_session p))) p)
      else if Command msg = RPL_ENDOFNAMES then
        andThen (do_sendClient env msg p)
          (\<lambda>p. andThen (Param msg 1) (\<lambda>channelName. replayLog env channelName p))
      else if Command msg = ''PRIVMSG'' \<or> Command msg = ''NOTICE'' then
        andThen (Param msg 0) (\<lambda>targetName.
          if HaveChannel (client_session p) targetName \<or> IsMe (client_session p) targetName
          then sendClient_or_log env msg p
          else logMessage env msg p)
      else if Command msg \<in> {''JOIN'', ''KICK'', ''PART'', ''QUIT'', ''NICK''} then
        (if \<not> Done (Handshake (client_session p)) then logMessage env msg p
         else sendClient_or_log env msg p)
      else sendClient_or_log env msg p)"

definition handleServerEvent :: "('s, 'c) env \<Rightarrow> message option \<Rightarrow> 's proxy \<Rightarrow> 's proxy res" where
  "handleServerEvent env event p =
     (case event of
        None \<Rightarrow> Ret (reset p)
      | Some msg \<Rightarrow>
          if Validate msg \<noteq> None then Ret (reset p)
          else
            andThen (Session_UpdateFromServer (server_session p) msg) (\<lambda>ss.
              handle_server_command env msg (p\<lparr>server := (server p)\<lparr>Session := ss\<rparr>\<rparr>)))"

section \<open>Keeping the connections alive\<close>

text \<open>
  \<open>checkTimeout\<close> takes the connection as a pointer: here the field to read and the way to write
  it. \<open>drop\<close> may have replaced the connection by an empty one; \<open>send\<close> too, and then the fields
  are set on the empty connection.
\<close>

definition checkTimeout ::
  "('s, 'c) env \<Rightarrow> ('s proxy \<Rightarrow> connection) \<Rightarrow> ((connection \<Rightarrow> connection) \<Rightarrow> 's proxy \<Rightarrow> 's proxy)
    \<Rightarrow> ('s proxy \<Rightarrow> 's proxy) \<Rightarrow> (message \<Rightarrow> 's proxy \<Rightarrow> 's proxy res) \<Rightarrow> 's proxy \<Rightarrow> 's proxy res" where
  "checkTimeout env conn set_conn drop_conn send p =
     (if IsClosed (conn p) then Ret p
      else
        let (now, p) = time_Now env p in
        if PingSent (conn p) \<and> DropDeadline (conn p) < now then Ret (drop_conn p)
        else if \<not> PingSent (conn p) \<and> PingDeadline (conn p) < now then
          andThen (send (msg_of ''PING'' [''irc-idler'']) p) (\<lambda>p.
            Ret (set_conn (\<lambda>c. c\<lparr>PingSent := True, DropDeadline := now + pingTime\<rparr>) p))
        else Ret p)"

definition check_client :: "('s, 'c) env \<Rightarrow> 's proxy \<Rightarrow> 's proxy res" where
  "check_client env = checkTimeout env client client_update dropClient (do_sendClient env)"

definition check_server :: "('s, 'c) env \<Rightarrow> 's proxy \<Rightarrow> 's proxy res" where
  "check_server env = checkTimeout env server server_update reset (do_sendServer env)"

section \<open>The loop\<close>

text \<open>What the \<open>select\<close> of \<open>Run\<close> receives.\<close>

datatype event =
    StopEvent
  | ClientRecv "message option"    \<comment> \<open>\<open>msg, ok := <-p.client.Chan\<close>, \<open>None\<close> when it is closed\<close>
  | ServerRecv "message option"
  | Tick
  | ClientConn handle

definition accept_client :: "('s, 'c) env \<Rightarrow> handle \<Rightarrow> 's proxy \<Rightarrow> 's proxy" where
  "accept_client env clientConn p =
     (let p = dropClient p;
          (now, p) = time_Now env p;
          p = p\<lparr>client := conn_setup clientConn (backlog env (tick p)) now (client p),
                trace := trace p @ [Accepted clientConn]\<rparr>
      in
      if IsClosed (server p) then
        case Connect env p of
          (Inl err, p) \<Rightarrow> dropClient p
        | (Inr serverConn, p) \<Rightarrow>
            (let (now, p) = time_Now env p in
             p\<lparr>server := conn_setup serverConn (backlog env (tick p)) now (server p)\<rparr>)
      else p)"

text \<open>One round of the loop.\<close>

fun Run_step :: "('s, 'c) env \<Rightarrow> event \<Rightarrow> 's proxy \<Rightarrow> 's proxy res" where
  "Run_step env StopEvent p = Ret (reset p)"
| "Run_step env (ClientRecv m) p =
     (let (now, p) = time_Now env p in
      handleClientEvent env m (p\<lparr>client := updateDeadlines now (client p)\<rparr>))"
| "Run_step env (ServerRecv m) p =
     (let (now, p) = time_Now env p in
      handleServerEvent env m (p\<lparr>server := updateDeadlines now (server p)\<rparr>))"
| "Run_step env Tick p = andThen (check_client env p) (check_server env)"
| "Run_step env (ClientConn h) p = Ret (accept_client env h p)"

text \<open>
  The loop over the events of a run: it returns after a stop. A nil channel is never ready, so
  an event of a closed connection cannot be received (\<open>enabled\<close>).
\<close>

fun enabled :: "event \<Rightarrow> 's proxy \<Rightarrow> bool" where
  "enabled (ClientRecv m) p = (chan (client p) \<noteq> None)"
| "enabled (ServerRecv m) p = (chan (server p) \<noteq> None)"
| "enabled ev p = True"

fun Run :: "('s, 'c) env \<Rightarrow> event list \<Rightarrow> 's proxy \<Rightarrow> 's proxy res" where
  "Run env [] p = Ret p"
| "Run env (ev # evs) p =
     (if ev = StopEvent then Run_step env ev p
      else if enabled ev p then andThen (Run_step env ev p) (Run env evs)
      else Run env evs p)"

text \<open>The same as a relation, for invariants by rule induction.\<close>

inductive step :: "('s, 'c) env \<Rightarrow> 's proxy \<Rightarrow> 's proxy \<Rightarrow> bool" for env where
  event: "enabled ev p \<Longrightarrow> Run_step env ev p = Ret p' \<Longrightarrow> step env p p'"

inductive reachable :: "('s, 'c) env \<Rightarrow> 's \<Rightarrow> 's proxy \<Rightarrow> bool" for env st where
  start: "reachable env st (NewProxy st)"
| advance: "reachable env st p \<Longrightarrow> step env p p' \<Longrightarrow> reachable env st p'"

inductive_cases stepE [elim]: "step env p p'"

end
