(* ===== verification/Session_Facts.thy ===== *)
theory Session_Facts
  imports Session_State
begin

text \<open>
  Facts about \<open>proxy/state\<close>: when an update panics, what it leaves alone, the well-formedness
  of the maps, and the roster (which nick is in which channel) as the abstract view that
  every message from the server changes as \<open>roster_step\<close> says.
\<close>

section \<open>Panics\<close>

definition params_present :: "message \<Rightarrow> bool" where
  "params_present msg \<longleftrightarrow>
     (Command msg \<in> {''KICK'', ''PART'', ''JOIN'', ''NICK''} \<longrightarrow> Params msg \<noteq> [])
     \<and> (Command msg = RPL_TOPIC \<longrightarrow> 3 \<le> length (Params msg))
     \<and> (Command msg = RPL_NAMEREPLY \<longrightarrow> 4 \<le> length (Params msg))"

lemma Validate_params_present:
  assumes "Validate msg = None" and "Command msg \<notin> {''KICK'', ''PART''}"
  shows "params_present msg"
  using assms by (auto simp: Validate_None params_present_def)

lemma params_present_msg_of:
  "c \<notin> {''KICK'', ''PART'', ''JOIN'', ''NICK'', RPL_TOPIC, RPL_NAMEREPLY} \<Longrightarrow> Command m = c \<Longrightarrow> params_present m"
  by (auto simp: params_present_def)

lemma Channel_update_Ret:
  assumes "Command msg = ''NICK'' \<Longrightarrow> Params msg \<noteq> []"
    and "Command msg = RPL_NAMEREPLY \<Longrightarrow> 4 \<le> length (Params msg)"
  shows "\<exists>s'. Channel_UpdateFromServer s msg = Ret s'"
  using assms by (auto simp: Channel_UpdateFromServer_def)

lemma update_all_Ret:
  assumes "Command msg = ''NICK'' \<Longrightarrow> Params msg \<noteq> []"
    and "Command msg = RPL_NAMEREPLY \<Longrightarrow> 4 \<le> length (Params msg)"
  shows "\<exists>chans'. update_all chans msg = Ret chans'"
proof (induction chans)
  case (Cons a chans)
  obtain name s where "a = (name, s)" by (cases a)
  with Cons Channel_update_Ret [of msg s] assms show ?case by auto
qed simp

lemma update_channel_Ret:
  assumes "params_present msg"
  shows "\<exists>chans'. update_channel chans name msg = Ret chans'"
proof -
  obtain chans1 s where "Channels_GetChannel chans name = (chans1, s)" by force
  moreover obtain s' where "Channel_UpdateFromServer s msg = Ret s'"
    using Channel_update_Ret [of msg s] assms by (auto simp: params_present_def)
  ultimately show ?thesis by (simp add: update_channel_def)
qed

lemma Channels_update_Ret:
  assumes "params_present msg"
  shows "\<exists>chans'. Channels_UpdateFromServer chans msg = Ret chans'"
proof -
  have "Command msg = RPL_TOPIC \<Longrightarrow> \<exists>chans'. Channels_UpdateFromServer chans msg = Ret chans'"
    using assms by (auto simp: Channels_UpdateFromServer_def params_present_def split: prod.split)
  moreover have "Command msg \<in> {''KICK'', ''PART'', ''JOIN'', RPL_NAMEREPLY} \<Longrightarrow> ?thesis"
    using assms update_channel_Ret [OF assms, of chans]
    by (auto simp: Channels_UpdateFromServer_def params_present_def)
  moreover have "Command msg \<in> {''NICK'', ''QUIT''} \<Longrightarrow> ?thesis"
    using assms update_all_Ret [of msg chans]
    by (auto simp: Channels_UpdateFromServer_def params_present_def)
  moreover have "Command msg \<notin> {''KICK'', ''PART'', ''JOIN'', RPL_NAMEREPLY, ''NICK'', ''QUIT'', RPL_TOPIC} \<Longrightarrow> ?thesis"
    by (simp add: Channels_UpdateFromServer_def)
  ultimately show ?thesis by blast
qed

lemma Session_update_Ret:
  assumes "params_present msg"
  obtains s' where "Session_UpdateFromServer s msg = Ret s'"
proof -
  obtain chans where "Channels_UpdateFromServer (channels s) msg = Ret chans"
    using Channels_update_Ret [OF assms] by blast
  with assms have "\<exists>s'. Session_UpdateFromServer s msg = Ret s'"
    by (auto simp: Session_UpdateFromServer_def params_present_def Let_def)
  with that show ?thesis by blast
qed

lemma Session_update_panics:
  assumes "Command msg \<in> {''KICK'', ''PART'', ''JOIN''}" and "Params msg = []"
  shows "Session_UpdateFromServer s msg = Fail Panic"
  using assms by (auto simp: Session_UpdateFromServer_def Channels_UpdateFromServer_def)

section \<open>What an update keeps\<close>

lemma Session_update_Handshake:
  assumes "Session_UpdateFromServer s msg = Ret s'"
  shows "Handshake s' = Handshake_UpdateFromServer (Handshake s) msg"
  using assms
  by (auto simp: Session_UpdateFromServer_def Let_def elim!: andThen_RetE split: if_splits)

lemma Session_update_ClientID:
  assumes "Session_UpdateFromServer s msg = Ret s'"
  shows "ClientID s' = (if IsMe s (Prefix msg) \<and> Command msg = ''NICK''
    then (ClientID s)\<lparr>Nick := hd (Params msg)\<rparr> else ClientID s)"
  using assms
  by (auto simp: Session_UpdateFromServer_def Let_def IsMe_def Param_def hd_conv_nth
      elim!: andThen_RetE split: if_splits sum.splits)

lemma Session_update_other_channels:
  assumes "Command msg \<notin> {''KICK'', ''PART'', ''JOIN'', RPL_NAMEREPLY, RPL_TOPIC, ''NICK'', ''QUIT''}"
  shows "Session_UpdateFromServer s msg =
    Ret (s\<lparr>Handshake := Handshake_UpdateFromServer (Handshake s) msg\<rparr>)"
  using assms by (simp add: Session_UpdateFromServer_def Channels_UpdateFromServer_def Let_def)

section \<open>Well-formed maps\<close>

text \<open>
  An invariant of the representation, not of the code: an association list stands for a Go map only
  while its keys are distinct, and the maps of users hold nothing but true. Every reachable
  state of the daemon has it (\<open>reachable_well_formed\<close>).
\<close>

definition wf_channel :: "channel_state \<Rightarrow> bool" where
  "wf_channel c \<longleftrightarrow> distinct (map fst (users c)) \<and> list_all (\<lambda>(n, b). b) (users c)"

definition wf_channels :: "channels \<Rightarrow> bool" where
  "wf_channels chans \<longleftrightarrow> distinct (map fst chans) \<and> list_all (\<lambda>(n, c). wf_channel c) chans"

definition wf_session :: "session \<Rightarrow> bool" where
  "wf_session s \<longleftrightarrow> wf_channels (channels s)"

lemma set_update_subset: "set (AList.update k v al) \<subseteq> insert (k, v) (set al)"
  by (induction al) auto

lemma set_delete_subset: "set (AList.delete k al) \<subseteq> set al"
  by (auto simp: AList.delete_eq)

lemma wf_NewChannelState [simp]: "wf_channel (NewChannelState t)"
  by (simp add: NewChannelState_def wf_channel_def)

lemma wf_AddUser [simp]: "wf_channel c \<Longrightarrow> wf_channel (AddUser c n)"
  using set_update_subset [of n True "users c"]
  by (auto simp: wf_channel_def AddUser_def distinct_keys_update list_all_iff)

lemma wf_RemoveUser [simp]: "wf_channel c \<Longrightarrow> wf_channel (RemoveUser c n)"
  using set_delete_subset [of n "users c"]
  by (auto simp: wf_channel_def RemoveUser_def distinct_keys_delete list_all_iff)

lemma wf_fold_AddUser: "wf_channel c \<Longrightarrow> wf_channel (fold (\<lambda>u s. AddUser s (f u)) us c)"
  by (induction us arbitrary: c) simp_all

lemma wf_Channel_update:
  "wf_channel c \<Longrightarrow> Channel_UpdateFromServer c msg = Ret c' \<Longrightarrow> wf_channel c'"
  by (auto simp: Channel_UpdateFromServer_def wf_fold_AddUser elim!: andThen_RetE
      split: if_splits sum.splits)

lemma wf_channels_update:
  "wf_channels chans \<Longrightarrow> wf_channel c \<Longrightarrow> wf_channels (AList.update name c chans)"
  using set_update_subset [of name c chans]
  by (auto simp: wf_channels_def distinct_keys_update list_all_iff)

lemma wf_channels_delete: "wf_channels chans \<Longrightarrow> wf_channels (DeleteChannel chans name)"
  using set_delete_subset [of name chans]
  by (auto simp: wf_channels_def DeleteChannel_def distinct_keys_delete list_all_iff)

lemma wf_channels_lookup: "wf_channels chans \<Longrightarrow> map_of chans name = Some c \<Longrightarrow> wf_channel c"
  by (auto simp: wf_channels_def list_all_iff dest: map_of_SomeD)

lemma wf_Channels_GetChannel:
  assumes "wf_channels chans" and "Channels_GetChannel chans name = (chans', c)"
  shows "wf_channels chans' \<and> wf_channel c"
  using assms by (auto simp: Channels_GetChannel_def Let_def wf_channels_update
      split: option.splits dest: wf_channels_lookup)

lemma wf_update_all:
  "wf_channels chans \<Longrightarrow> update_all chans msg = Ret chans' \<Longrightarrow>
     map fst chans' = map fst chans \<and> wf_channels chans'"
proof (induction chans arbitrary: chans')
  case (Cons a chans)
  obtain name c where a: "a = (name, c)" by (cases a)
  with Cons.prems obtain c' chans1 where c: "Channel_UpdateFromServer c msg = Ret c'"
      "update_all chans msg = Ret chans1" "chans' = (name, c') # chans1"
    by (auto simp: andThen_Ret_iff)
  from Cons.prems(1) a have "wf_channels chans" "wf_channel c" by (auto simp: wf_channels_def)
  with Cons.IH [OF _ c(2)] wf_Channel_update [OF _ c(1)] Cons.prems(1) a c(3) show ?case
    by (auto simp: wf_channels_def)
qed simp

lemma wf_update_channel:
  assumes "wf_channels chans" and "update_channel chans name msg = Ret chans'"
  shows "wf_channels chans'"
proof -
  obtain chans1 s where g: "Channels_GetChannel chans name = (chans1, s)" by force
  with assms(2) obtain s' where "Channel_UpdateFromServer s msg = Ret s'"
      "chans' = AList.update name s' chans1"
    by (auto simp: update_channel_def)
  with wf_Channels_GetChannel [OF assms(1) g] wf_Channel_update show ?thesis
    by (auto intro: wf_channels_update)
qed

lemma wf_Channels_update:
  assumes "wf_channels chans" and "Channels_UpdateFromServer chans msg = Ret chans'"
  shows "wf_channels chans'"
proof (cases "Command msg = RPL_TOPIC")
  case True
  obtain name chans1 s topic where g: "Channels_GetChannel chans name = (chans1, s)"
      "chans' = AList.update name (s\<lparr>Topic := topic\<rparr>) chans1"
    using assms(2) True
    by (auto simp: Channels_UpdateFromServer_def elim!: andThen_RetE split: prod.splits)
  with wf_Channels_GetChannel [OF assms(1) g(1)] show ?thesis
    by (auto intro!: wf_channels_update simp: wf_channel_def)
next
  case False
  then show ?thesis
    using assms by (auto simp: Channels_UpdateFromServer_def elim!: andThen_RetE
        dest: wf_update_channel wf_update_all split: if_splits)
qed

lemma wf_Session_update:
  assumes "wf_session s" and "Session_UpdateFromServer s msg = Ret s'"
  shows "wf_session s'"
proof -
  obtain chans where c: "Channels_UpdateFromServer (channels s) msg = Ret chans"
    using assms(2) by (auto simp: Session_UpdateFromServer_def Let_def)
  then have "channels s' = chans \<or> (\<exists>name. channels s' = DeleteChannel chans name)"
    using assms(2)
    by (auto simp: Session_UpdateFromServer_def Let_def Param_def split: if_splits)
  moreover have "wf_channels chans"
    using assms(1) c by (auto simp: wf_session_def intro: wf_Channels_update)
  ultimately show ?thesis by (auto simp: wf_session_def intro: wf_channels_delete)
qed

lemma wf_NewSession [simp]: "wf_session NewSession"
  by (simp add: wf_session_def NewSession_def wf_channels_def)

section \<open>The roster: the abstract view of the channels\<close>

type_synonym roster = "string \<rightharpoonup> string set"

definition members :: "channel_state \<Rightarrow> string set" where
  "members c = {n. HaveUser c n}"

definition roster_of :: "channels \<Rightarrow> roster" where
  "roster_of chans = (\<lambda>name. map_option members (map_of chans name))"

definition in_channel :: "roster \<Rightarrow> string \<Rightarrow> string set" where
  "in_channel r name = (case r name of None \<Rightarrow> {} | Some us \<Rightarrow> us)"

text \<open>The nick that a message's prefix names, as a set of at most one element.\<close>

definition prefix_nick :: "message \<Rightarrow> string set" where
  "prefix_nick msg = (case ParseClientID (Prefix msg) of Inl _ \<Rightarrow> {} | Inr i \<Rightarrow> {Nick i})"

definition rename_in :: "string set \<Rightarrow> string \<Rightarrow> string set \<Rightarrow> string set" where
  "rename_in old new us = (if old \<inter> us = {} then us else insert new (us - old))"

definition roster_step :: "roster \<Rightarrow> message \<Rightarrow> roster" where
  "roster_step r msg =
     (let target = Params msg ! 0; by = prefix_nick msg in
      if Command msg = ''JOIN'' then r(target \<mapsto> in_channel r target \<union> by)
      else if Command msg = ''PART'' \<or> Command msg = ''KICK'' then r(target \<mapsto> in_channel r target - by)
      else if Command msg = RPL_TOPIC then r(Params msg ! 1 \<mapsto> in_channel r (Params msg ! 1))
      else if Command msg = RPL_NAMEREPLY then
        r(Params msg ! 2 \<mapsto> in_channel r (Params msg ! 2)
            \<union> name_nick ` set (split_on SP (Params msg ! 3)))
      else if Command msg = ''NICK'' then (\<lambda>name. map_option (rename_in by target) (r name))
      else if Command msg = ''QUIT'' then (\<lambda>name. map_option (\<lambda>us. us - by) (r name))
      else r)"

lemma members_simps [simp]:
  "members (NewChannelState t) = {}"
  "members (AddUser c n) = insert n (members c)"
  "members (RemoveUser c n) = members c - {n}"
  "members (c\<lparr>Topic := t\<rparr>) = members c"
  by (auto simp: members_def HaveUser_def NewChannelState_def AddUser_def RemoveUser_def map_simps
      split: option.splits if_splits)

lemma members_fold:
  "members (fold (\<lambda>u s. AddUser s (f u)) us c) = members c \<union> f ` set us"
  by (induction us arbitrary: c) auto

lemma members_Channel_update:
  assumes "Channel_UpdateFromServer c msg = Ret c'"
  shows "members c' =
    (if Command msg = ''JOIN'' then members c \<union> prefix_nick msg
     else if Command msg \<in> {''PART'', ''KICK'', ''QUIT''} then members c - prefix_nick msg
     else if Command msg = RPL_NAMEREPLY then members c \<union> name_nick ` set (split_on SP (Params msg ! 3))
     else if Command msg = ''NICK'' then rename_in (prefix_nick msg) (Params msg ! 0) (members c)
     else members c)"
proof -
  have in_members: "HaveUser c n \<longleftrightarrow> n \<in> members c" for n by (simp add: members_def)
  show ?thesis
    using assms
    by (auto simp: Channel_UpdateFromServer_def prefix_nick_def rename_in_def members_fold
        in_members Param_def elim!: andThen_RetE split: if_splits sum.splits)
qed

lemma roster_update [simp]: "roster_of (AList.update name c chans) = (roster_of chans)(name \<mapsto> members c)"
  by (auto simp: roster_of_def map_simps)

lemma roster_GetChannel:
  assumes "Channels_GetChannel chans name = (chans', c)"
  shows "members c = in_channel (roster_of chans) name
    \<and> (roster_of chans')(name \<mapsto> us) = (roster_of chans)(name \<mapsto> us)"
  using assms
  by (auto simp: Channels_GetChannel_def Let_def in_channel_def roster_of_def map_simps
      split: option.splits)

lemma roster_update_channel:
  assumes "update_channel chans name msg = Ret chans'"
  obtains c c' where "Channel_UpdateFromServer c msg = Ret c'"
    "members c = in_channel (roster_of chans) name"
    "roster_of chans' = (roster_of chans)(name \<mapsto> members c')"
proof -
  obtain chans1 c where g: "Channels_GetChannel chans name = (chans1, c)" by force
  with assms obtain c' where "Channel_UpdateFromServer c msg = Ret c'"
      "chans' = AList.update name c' chans1"
    by (auto simp: update_channel_def)
  with roster_GetChannel [OF g, of "members c'"] that show ?thesis by simp
qed

lemma roster_update_all:
  assumes "\<And>c c'. Channel_UpdateFromServer c msg = Ret c' \<Longrightarrow> members c' = f (members c)"
  shows "update_all chans msg = Ret chans' \<Longrightarrow>
    roster_of chans' = (\<lambda>name. map_option f (roster_of chans name))"
proof (induction chans arbitrary: chans')
  case (Cons a chans)
  obtain name c where a: "a = (name, c)" by (cases a)
  with Cons.prems obtain c' chans1 where c: "Channel_UpdateFromServer c msg = Ret c'"
      "update_all chans msg = Ret chans1" "chans' = (name, c') # chans1"
    by (auto simp: andThen_Ret_iff)
  with Cons.IH [OF c(2)] assms [OF c(1)] a show ?case
    by (auto simp: roster_of_def fun_eq_iff)
qed (simp add: roster_of_def)

lemma roster_refines:
  assumes "Channels_UpdateFromServer chans msg = Ret chans'"
  shows "roster_of chans' = roster_step (roster_of chans) msg"
proof -
  consider (one) "Command msg \<in> {''KICK'', ''PART'', ''JOIN''}" | (names) "Command msg = RPL_NAMEREPLY"
    | (topic) "Command msg = RPL_TOPIC" | (all) "Command msg \<in> {''NICK'', ''QUIT''}"
    | (other) "Command msg \<notin> {''KICK'', ''PART'', ''JOIN'', RPL_NAMEREPLY, RPL_TOPIC, ''NICK'', ''QUIT''}"
    by blast
  then show ?thesis
  proof cases
    case one
    with assms have "update_channel chans (Params msg ! 0) msg = Ret chans'"
      by (auto simp: Channels_UpdateFromServer_def Param_def split: if_splits)
    then obtain c c' where "Channel_UpdateFromServer c msg = Ret c'"
        "members c = in_channel (roster_of chans) (Params msg ! 0)"
        "roster_of chans' = (roster_of chans)(Params msg ! 0 \<mapsto> members c')"
      by (rule roster_update_channel)
    with one members_Channel_update [of c msg c'] show ?thesis
      by (auto simp: roster_step_def Let_def)
  next
    case names
    with assms have "update_channel chans (Params msg ! 2) msg = Ret chans'"
      by (auto simp: Channels_UpdateFromServer_def Param_def split: if_splits)
    then obtain c c' where "Channel_UpdateFromServer c msg = Ret c'"
        "members c = in_channel (roster_of chans) (Params msg ! 2)"
        "roster_of chans' = (roster_of chans)(Params msg ! 2 \<mapsto> members c')"
      by (rule roster_update_channel)
    with names members_Channel_update [of c msg c'] show ?thesis
      by (auto simp: roster_step_def Let_def)
  next
    case topic
    obtain chans1 c where g: "Channels_GetChannel chans (Params msg ! 1) = (chans1, c)" by force
    with topic assms have "chans' = AList.update (Params msg ! 1) (c\<lparr>Topic := Params msg ! 2\<rparr>) chans1"
      by (auto simp: Channels_UpdateFromServer_def Param_def split: if_splits)
    with topic roster_GetChannel [OF g] show ?thesis by (simp add: roster_step_def Let_def)
  next
    case all
    then have u: "update_all chans msg = Ret chans'"
      using assms by (auto simp: Channels_UpdateFromServer_def)
    show ?thesis
    proof (cases "Command msg = ''NICK''")
      case True
      with roster_update_all [OF _ u, of "rename_in (prefix_nick msg) (Params msg ! 0)"]
        members_Channel_update [of _ msg] show ?thesis
        by (simp add: roster_step_def Let_def)
    next
      case False
      with all have "Command msg = ''QUIT''" by simp
      with roster_update_all [OF _ u, of "\<lambda>us. us - prefix_nick msg"]
        members_Channel_update [of _ msg] show ?thesis
        by (simp add: roster_step_def Let_def)
    qed
  next
    case other
    with assms show ?thesis by (auto simp: Channels_UpdateFromServer_def roster_step_def Let_def)
  qed
qed

end
