(* ===== verification/Proxy_Invariant.thy ===== *)
theory Proxy_Invariant
  imports Proxy_Handlers Session_Facts "HOL-Library.Multiset"
begin

text \<open>
  Invariants of the proxy, as locales that say what a predicate on the proxy has to survive, each with
  the operations that then keep it.

  \<^item> \<open>sending_invariant\<close>: what is sent, and connections that are closed;
  \<^item> \<open>logging_invariant\<close>: also the two operations on the logs; kept by everything the client does and
    by what the server says, up to what is recorded of the server;
  \<^item> \<open>handler_invariant\<close>: also any change of the server's session, and a new client; kept by every round;
  \<^item> \<open>storing_invariant\<close> and \<open>proxy_invariant\<close>: the last two for predicates that survive every single
    call of the store; kept in every reachable state.

  \<open>proxy_invariant\<close> is interpreted for \<open>wired\<close> (which connections can be open together), \<open>tracked\<close>
  (the open transports) and \<open>wf_proxy\<close> (the maps of the three sessions).
\<close>

section \<open>Elementary facts\<close>

lemma shutdown_cases:
  "shutdown c = (if IsClosed c then ([], c)
     else ([Closed (the (rwc c)), Drained (the (chan c)) (unread c)], emptyConnection))"
  by (simp add: shutdown_def)

lemma emptyConnection_simps [simp]:
  "rwc emptyConnection = None" "chan emptyConnection = None"
  "Session emptyConnection = NewSession" "IsClosed emptyConnection"
  by (simp_all add: emptyConnection_def IsClosed_def)

lemma shutdown_closed [simp]: "IsClosed (snd (shutdown c))"
  by (simp add: shutdown_def)

lemma shutdown_client_simps [simp]:
  "client (shutdown_client p) = snd (shutdown (client p))"
  "server (shutdown_client p) = server p"
  "messagelogs (shutdown_client p) = messagelogs p"
  "preLogSession (shutdown_client p) = preLogSession p"
  "tick (shutdown_client p) = tick p"
  "trace (shutdown_client p) = trace p @ fst (shutdown (client p))"
  by (simp_all add: shutdown_client_def split: prod.splits)

lemma shutdown_server_simps [simp]:
  "client (shutdown_server p) = client p"
  "server (shutdown_server p) = snd (shutdown (server p))"
  "messagelogs (shutdown_server p) = messagelogs p"
  "preLogSession (shutdown_server p) = preLogSession p"
  "tick (shutdown_server p) = tick p"
  "trace (shutdown_server p) = trace p @ fst (shutdown (server p))"
  by (simp_all add: shutdown_server_def split: prod.splits)

lemma dropClient_simps [simp]:
  "client (dropClient p) = snd (shutdown (client p))"
  "server (dropClient p) =
     (if Done (Handshake (server_session p)) then server p else snd (shutdown (server p)))"
  "messagelogs (dropClient p) = messagelogs p"
  "preLogSession (dropClient p) = preLogSession p"
  "tick (dropClient p) = tick p"
  by (simp_all add: dropClient_def Let_def)

lemma reset_simps [simp]:
  "client (reset p) = snd (shutdown (client p))"
  "server (reset p) = snd (shutdown (server p))"
  "messagelogs (reset p) = messagelogs p"
  "preLogSession (reset p) = preLogSession p"
  "tick (reset p) = tick p"
  by (simp_all add: reset_def)

lemma not_Done_NewSession [simp]: "\<not> Done (Handshake NewSession)"
  by (simp add: NewSession_def no_handshake_def Done_def)

section \<open>Sessions\<close>

text \<open>What every update of a session keeps.\<close>

definition tame :: "session \<Rightarrow> session \<Rightarrow> bool" where
  "tame s s' \<longleftrightarrow> (wf_session s \<longrightarrow> wf_session s') \<and> (Done (Handshake s) \<longrightarrow> Done (Handshake s'))"

lemma tame_refl [simp]: "tame s s"
  by (simp add: tame_def)

lemma tame_from_client [simp]: "tame s (Session_UpdateFromClient s m)"
  by (auto simp: tame_def Session_UpdateFromClient_def wf_session_def)

lemma tame_from_server: "Session_UpdateFromServer s m = Ret s' \<Longrightarrow> tame s s'"
  by (auto simp: tame_def Session_update_Handshake dest: wf_Session_update)

lemma tame_ClientID [simp]: "tame s (s\<lparr>ClientID := i\<rparr>)"
  by (simp add: tame_def wf_session_def)

lemma tame_GetChannel [simp]: "tame s (fst (GetChannel s name))"
  using wf_Channels_GetChannel [of "channels s" name]
  by (auto simp: tame_def GetChannel_def wf_session_def split: prod.splits)

lemma tame_AddUser [simp]: "tame s (put_channel s name (AddUser (snd (GetChannel s name)) nick))"
  using wf_Channels_GetChannel [of "channels s" name]
  by (auto simp: tame_def GetChannel_def put_channel_def wf_session_def wf_channels_update split: prod.splits)

section \<open>What an invariant has to survive\<close>

text \<open>One call of a method of the store that the proxy makes.\<close>

definition store_call :: "('s, 'c) env \<Rightarrow> 's \<Rightarrow> 's \<Rightarrow> bool" where
  "store_call env s s' \<longleftrightarrow>
     (\<exists>name e. op_GetChannel (store env) s name = (e, s'))
     \<or> (\<exists>name m e. Command m \<in> set logged_commands \<and> Params m \<noteq> [] \<and> op_LogMessage (store env) s name m = (e, s'))
     \<or> (\<exists>name r. op_Replay (store env) s name = (r, s'))
     \<or> (\<exists>name e. op_Clear (store env) s name = (e, s'))"

text \<open>What survives the sending of messages, whatever is sent.\<close>

locale sending_invariant =
  fixes I :: "('s, 'c) env \<Rightarrow> 's proxy \<Rightarrow> bool"
  assumes frame: "I env p \<Longrightarrow> client p' = client p \<Longrightarrow> server p' = server p \<Longrightarrow>
      messagelogs p' = messagelogs p \<Longrightarrow> trace p' = trace p \<Longrightarrow>
      tame (preLogSession p) (preLogSession p') \<Longrightarrow> I env p'"
    and client_conn: "I env p \<Longrightarrow> rwc c = rwc (client p) \<Longrightarrow> chan c = chan (client p) \<Longrightarrow>
      tame (client_session p) (Session c) \<Longrightarrow> I env (p\<lparr>client := c\<rparr>)"
    and server_said: "I env p \<Longrightarrow> rwc c = rwc (server p) \<Longrightarrow> chan c = chan (server p) \<Longrightarrow>
      tame (server_session p) (Session c) \<Longrightarrow> ClientID (Session c) = ClientID (server_session p) \<Longrightarrow>
      channels (Session c) = channels (server_session p) \<Longrightarrow> I env (p\<lparr>server := c\<rparr>)"
    and written: "I env p \<Longrightarrow> rwc (client p) = Some h \<or> rwc (server p) = Some h \<Longrightarrow>
      I env (p\<lparr>trace := trace p @ [Wrote h m b]\<rparr>)"
    and dropped: "I env p \<Longrightarrow> I env (dropClient p)"
    and reset: "I env p \<Longrightarrow> I env (reset p)"
begin

lemma keep_tick: "I env p \<Longrightarrow> I env (p\<lparr>tick := n\<rparr>)"
  by (erule frame) simp_all

lemma keep_caches:
  "I env p \<Longrightarrow> I env (p\<lparr>serverPrefix := a\<rparr>)"
  "I env p \<Longrightarrow> I env (p\<lparr>cache_yourhost := a\<rparr>)"
  "I env p \<Longrightarrow> I env (p\<lparr>cache_created := a\<rparr>)"
  "I env p \<Longrightarrow> I env (p\<lparr>cache_myinfo := b\<rparr>)"
  "I env p \<Longrightarrow> I env (p\<lparr>haveMsgCache := d\<rparr>)"
  by (erule frame; simp)+

lemma keep_preLog: "I env p \<Longrightarrow> tame (preLogSession p) s \<Longrightarrow> I env (p\<lparr>preLogSession := s\<rparr>)"
  by (erule frame) simp_all

lemma keep_client_session:
  "I env p \<Longrightarrow> tame (client_session p) s \<Longrightarrow> I env (p\<lparr>client := (client p)\<lparr>Session := s\<rparr>\<rparr>)"
  by (rule client_conn) simp_all

lemma keep_server_said:
  "I env p \<Longrightarrow> I env (p\<lparr>server := (server p)\<lparr>Session := Session_UpdateFromClient (server_session p) m\<rparr>\<rparr>)"
  by (rule server_said) (simp_all, simp_all add: Session_UpdateFromClient_def)

lemma keep_write_to:
  assumes "I env p" and "rwc (client p) = Some h \<or> rwc (server p) = Some h"
    and "write_to env h m p = (e, p')"
  shows "I env p' \<and> client p' = client p \<and> server p' = server p \<and> preLogSession p' = preLogSession p"
proof -
  have "I env (p\<lparr>tick := Suc (tick p)\<rparr>)" by (rule keep_tick [OF assms(1)])
  from written [OF this, of h m "write_err env (tick p) = None"] assms(2,3)
  show ?thesis by (auto simp: write_to_def Let_def)
qed

lemma keep_sendServer:
  assumes "I env p" shows "I env (snd (sendServer env m p))"
proof (cases "rwc (server p)")
  case (Some h)
  obtain e p1 where w: "write_to env h m p = (e, p1)" by force
  from keep_write_to [OF assms _ w] Some have p1: "I env p1" "server p1 = server p" by auto
  with keep_server_said [OF p1(1), of m]
  show ?thesis using Some w by (auto simp: sendServer_def reset split: option.splits)
qed (use assms in \<open>simp add: sendServer_def\<close>)

lemma keep_sendClient:
  assumes "I env p" shows "ensures (sendClient env m p) (\<lambda>(e, p'). I env p')"
proof (cases "rwc (client p)")
  case (Some h)
  obtain e p1 where w: "write_to env h m p = (e, p1)" by force
  from keep_write_to [OF assms _ w] Some
  have p1: "I env p1" "client p1 = client p" "preLogSession p1 = preLogSession p" by auto
  show ?thesis
  proof (cases e)
    case None
    have "I env (p1\<lparr>client := (client p1)\<lparr>Session := cs\<rparr>, preLogSession := ps\<rparr>)"
      if "Session_UpdateFromServer (client_session p1) m = Ret cs"
        and "Session_UpdateFromServer (preLogSession p1) m = Ret ps" for cs ps
      using that by (intro keep_preLog keep_client_session p1(1)) (simp_all add: tame_from_server)
    with Some w None show ?thesis by (auto simp: sendClient_def intro!: ensures_bind)
  qed (use Some w p1 dropped in \<open>auto simp: sendClient_def\<close>)
qed (use assms in \<open>simp add: sendClient_def\<close>)

lemma keep_do_sendServer: "I env p \<Longrightarrow> ensures (do_sendServer env m p) (I env)"
  by (simp add: do_sendServer_def keep_sendServer)

lemma keep_do_sendClient: "I env p \<Longrightarrow> ensures (do_sendClient env m p) (I env)"
  unfolding do_sendClient_def by (rule ensures_andThen [OF keep_sendClient]) auto

lemma keep_send_messages: "I env p \<Longrightarrow> ensures (send_messages env ms p) (\<lambda>(e, p'). I env p')"
proof (induction ms arbitrary: p)
  case (Cons m ms)
  then show ?case by (auto intro!: ensures_andThen [OF keep_sendClient])
qed simp

end

section \<open>The handlers\<close>

text \<open>The messages of the server among the events satisfy \<open>ok\<close>.\<close>

fun kept :: "(message \<Rightarrow> bool) \<Rightarrow> event \<Rightarrow> bool" where
  "kept ok (ServerRecv (Some m)) \<longleftrightarrow> ok m"
| "kept ok ev \<longleftrightarrow> True"

lemma kept_True [simp]: "kept (\<lambda>m. True) ev"
proof (cases ev)
  case (ServerRecv m)
  then show ?thesis by (cases m) simp_all
qed simp_all

lemma handle_welcome_command: "Command m = RPL_WELCOME \<Longrightarrow> handle_server_command env m p = handleWelcome env m p"
  by (simp add: handle_server_command_def passed_through_def nick_errors_def)

text \<open>
  With the two operations on the logs the handlers keep it too; \<open>ok\<close> says which messages may be
  logged.
\<close>

locale logging_invariant = sending_invariant I for I :: "('s, 'c) env \<Rightarrow> 's proxy \<Rightarrow> bool" +
  fixes ok :: "message \<Rightarrow> bool"
  assumes keep_replayLog: "I env p \<Longrightarrow> ensures (replayLog env name p) (I env)"
    and keep_logMessage: "I env p \<Longrightarrow> ok m \<Longrightarrow> ensures (logMessage env m p) (I env)"
begin

lemma keep_handshake: "I env p \<Longrightarrow> ensures (handleHandshakeMessage env m p) (I env)"
  by (auto simp: handleHandshakeMessage_def Let_def set_ClientID_def
      intro!: keep_do_sendServer reset keep_client_session ensures_unless [OF keep_send_messages])

lemma keep_send_names: "I env p \<Longrightarrow> ensures (send_names env name nick us p) (\<lambda>(e, p'). I env p')"
proof (induction us arbitrary: p)
  case (Cons u us)
  then show ?case
    by (auto simp: Let_def intro!: ensures_andThen [OF keep_sendClient] Cons.IH keep_client_session)
qed simp

lemma keep_rejoin: "I env p \<Longrightarrow> ensures (rejoinChannel env name p) (I env)"
  unfolding rejoinChannel_def Let_def
  by (intro ensures_unless keep_sendClient keep_send_names keep_replayLog keep_tick keep_client_session)
    (simp_all add: keep_sendClient)

lemma keep_client_event: "I env p \<Longrightarrow> ensures (handleClientEvent env ev p) (I env)"
proof (cases ev)
  case (Some m)
  assume p: "I env p"
  let ?p = "p\<lparr>client := (client p)\<lparr>Session := Session_UpdateFromClient (client_session p) m\<rparr>\<rparr>"
  have p1: "I env ?p" by (intro keep_client_session p) simp
  have "ensures (rejoinChannel env name (?p\<lparr>preLogSession := fst (GetChannel (preLogSession p) name)\<rparr>)) (I env)"
    for name by (intro keep_rejoin keep_preLog p1) simp
  then have "ensures (andThen (Param m 0) (\<lambda>name.
      if HaveChannel (client_session ?p) name then Ret ?p
      else if HaveChannel (server_session ?p) name then
        rejoinChannel env name (?p\<lparr>preLogSession := fst (GetChannel (preLogSession ?p) name)\<rparr>)
      else do_sendServer env m ?p)) (I env)"
    using p1 by (intro ensures_bind ensures_if keep_do_sendServer) simp_all
  with Some show ?thesis unfolding handleClientEvent_def Let_def
    by (auto split: option.split simp: dropped p1 intro!: ensures_andThen [OF keep_do_sendClient [OF p]]
        keep_do_sendClient keep_handshake keep_do_sendServer simp del: ensures_simps(1)) (simp_all add: dropped p1)
qed (simp add: handleClientEvent_def dropped)

lemma keep_sendClient_or_log: "I env p \<Longrightarrow> ok m \<Longrightarrow> ensures (sendClient_or_log env m p) (I env)"
  unfolding sendClient_or_log_def
  by (rule ensures_andThen [OF keep_sendClient]) (auto intro: keep_logMessage)

text \<open>What the server says does not change what is known of it but for the welcome.\<close>

lemma keep_other_command:
  assumes "I env p" and "ok m" and "Command m \<noteq> RPL_WELCOME"
  shows "ensures (handle_server_command env m p) (I env)"
  using assms unfolding handle_server_command_def
  by (auto intro!: keep_do_sendServer keep_do_sendClient ensures_bind [where r = "Param m x" for x]
      ensures_andThen [OF keep_do_sendClient] keep_caches keep_replayLog keep_sendClient_or_log keep_logMessage)

lemma keep_ping_sent:
  "I env p \<Longrightarrow> I env (client_update (\<lambda>c. c\<lparr>PingSent := b, DropDeadline := t\<rparr>) p)"
  "I env p \<Longrightarrow> I env (server_update (\<lambda>c. c\<lparr>PingSent := b, DropDeadline := t\<rparr>) p)"
  using client_conn [of env p "(client p)\<lparr>PingSent := b, DropDeadline := t\<rparr>"]
    server_said [of env p "(server p)\<lparr>PingSent := b, DropDeadline := t\<rparr>"]
  by (cases p; simp)+

lemma keep_check_client: "I env p \<Longrightarrow> ensures (check_client env p) (I env)"
  by (auto simp: check_client_def checkTimeout_def time_Now_def Let_def
      intro!: keep_tick dropped keep_ping_sent ensures_andThen [OF keep_do_sendClient])

lemma keep_check_server: "I env p \<Longrightarrow> ensures (check_server env p) (I env)"
  by (auto simp: check_server_def checkTimeout_def time_Now_def Let_def
      intro!: keep_tick reset keep_ping_sent ensures_andThen [OF keep_do_sendServer])

lemma keep_client_round: "I env p \<Longrightarrow> ensures (Run_step env (ClientRecv m) p) (I env)"
proof -
  assume "I env p"
  then have "I env (p\<lparr>tick := Suc (tick p), client := updateDeadlines now (client p)\<rparr>)" for now
    by (intro client_conn keep_tick) (simp_all add: updateDeadlines_def)
  then show ?thesis by (simp add: time_Now_def keep_client_event)
qed

lemma keep_server_received:
  "I env p \<Longrightarrow> I env (p\<lparr>tick := Suc (tick p), server := updateDeadlines now (server p)\<rparr>)"
  by (intro server_said keep_tick) (simp_all add: updateDeadlines_def)

lemma keep_tick_round: "I env p \<Longrightarrow> ensures (Run_step env Tick p) (I env)"
  by (auto intro: ensures_andThen [OF keep_check_client] keep_check_server)

end

text \<open>What also survives every change of what is known of the server, and a new client.\<close>

locale handler_invariant = logging_invariant I ok for I :: "('s, 'c) env \<Rightarrow> 's proxy \<Rightarrow> bool" and ok +
  assumes server_conn: "I env p \<Longrightarrow> rwc c = rwc (server p) \<Longrightarrow> chan c = chan (server p) \<Longrightarrow>
      tame (server_session p) (Session c) \<Longrightarrow> I env (p\<lparr>server := c\<rparr>)"
    and accepted: "I env p \<Longrightarrow> I env (accept_client env h p)"
begin

lemma keep_server_session:
  "I env p \<Longrightarrow> tame (server_session p) s \<Longrightarrow> I env (p\<lparr>server := (server p)\<lparr>Session := s\<rparr>\<rparr>)"
  by (rule server_conn) simp_all

lemma keep_welcome:
  assumes "I env p" shows "ensures (handleWelcome env m p) (I env)"
proof -
  have p1: "I env (p\<lparr>serverPrefix := Prefix m\<rparr>)" using assms by (rule keep_caches)
  have "ensures (andThen (sendClient env m q) (\<lambda>(err, p).
      if err = None then Ret (p\<lparr>client := set_ClientID i (client p)\<rparr>) else Ret p)) (I env)"
    if "I env q" for q i
    by (rule ensures_andThen [OF keep_sendClient [OF that]])
      (auto simp: set_ClientID_def intro!: keep_client_session)
  moreover have "I env (p\<lparr>serverPrefix := Prefix m, server := set_ClientID i (server p)\<rparr>)" for i
    using keep_server_session [OF p1, of "(server_session p)\<lparr>ClientID := i\<rparr>"]
    by (simp add: set_ClientID_def)
  ultimately show ?thesis using reset [OF p1]
    unfolding handleWelcome_def Let_def
    by (intro ensures_bind [where r = "Param m 1"]) (auto split: sum.split)
qed

lemma keep_server_command: "I env p \<Longrightarrow> ok m \<Longrightarrow> ensures (handle_server_command env m p) (I env)"
  using keep_other_command [of env p m] keep_welcome [of env p m]
  by (cases "Command m = RPL_WELCOME") (simp_all add: handle_welcome_command)

lemma keep_server_event:
  assumes "I env p" and "\<And>m. ev = Some m \<Longrightarrow> ok m" shows "ensures (handleServerEvent env ev p) (I env)"
proof (cases ev)
  case (Some m)
  have "I env (p\<lparr>server := (server p)\<lparr>Session := ss\<rparr>\<rparr>)"
    if "Session_UpdateFromServer (server_session p) m = Ret ss" for ss
    using that by (intro keep_server_session assms tame_from_server)
  with Some assms reset keep_server_command show ?thesis
    by (auto simp: handleServerEvent_def intro!: ensures_bind)
qed (use assms reset in \<open>simp add: handleServerEvent_def\<close>)

lemma keep_round: "I env p \<Longrightarrow> kept ok ev \<Longrightarrow> ensures (Run_step env ev p) (I env)"
proof (cases ev)
  case (ServerRecv m)
  assume "I env p" and ok: "kept ok ev"
  have "\<And>x. m = Some x \<Longrightarrow> ok x" using ok ServerRecv by simp
  with keep_server_received [OF \<open>I env p\<close>] ServerRecv show ?thesis
    by (simp add: time_Now_def keep_server_event)
qed (simp_all add: reset accepted keep_client_round keep_tick_round del: Run_step.simps(2,4))

lemma keep_Run: "I env p \<Longrightarrow> list_all (kept ok) evs \<Longrightarrow> ensures (Run env evs p) (I env)"
  by (induction evs arbitrary: p) (auto intro: reset ensures_andThen [OF keep_round])

end

section \<open>Invariants that survive every call of the store\<close>

locale storing_invariant = sending_invariant I for I :: "('s, 'c) env \<Rightarrow> 's proxy \<Rightarrow> bool" +
  assumes stored: "I env p \<Longrightarrow> store_call env (messagelogs p) s \<Longrightarrow> I env (p\<lparr>messagelogs := s\<rparr>)"
begin

lemma keep_replay_loop: "I env p \<Longrightarrow> ensures (replay_loop env name n c p) (I env)"
proof (induction n arbitrary: c p)
  case (Suc n)
  obtain mo eo where g: "op_Get (store env) c = (mo, eo)" by force
  have "I env (p\<lparr>messagelogs := snd (op_Clear (store env) (messagelogs p) name)\<rparr>)"
    by (rule stored [OF Suc.prems]) (metis store_call_def prod.collapse)
  then show ?case using g Suc
    by (auto split: option.splits intro!: ensures_unless [OF keep_sendClient])
qed simp

lemma keep_replayLog:
  assumes "I env p" shows "ensures (replayLog env name p) (I env)"
proof -
  obtain e s where g: "op_GetChannel (store env) (messagelogs p) name = (e, s)" by force
  then have p1: "I env (p\<lparr>messagelogs := s\<rparr>)" by (intro stored [OF assms]) (auto simp: store_call_def)
  obtain r s2 where r: "op_Replay (store env) s name = (r, s2)" by force
  then have "I env ((p\<lparr>messagelogs := s\<rparr>)\<lparr>messagelogs := s2\<rparr>)"
    by (intro stored [OF p1]) (auto simp: store_call_def)
  with p1 g r keep_replay_loop show ?thesis
    by (auto simp: replayLog_def Let_def split: sum.splits)
qed

lemma keep_logMessage:
  assumes "I env p" shows "ensures (logMessage env m p) (I env)"
proof -
  have got: "I env (p\<lparr>messagelogs := s\<rparr>)"
    if "op_GetChannel (store env) (messagelogs p) name = (e, s)" for name e s
    using that by (intro stored [OF assms]) (auto simp: store_call_def)
  have "I env (p\<lparr>messagelogs := snd (op_LogMessage (store env) s name m)\<rparr>)"
    if "Command m \<in> set logged_commands" and "Params m \<noteq> []"
      and g: "op_GetChannel (store env) (messagelogs p) name = (e, s)" for name e s
  proof -
    have "store_call env s (snd (op_LogMessage (store env) s name m))"
      using that(1,2) unfolding store_call_def by (metis prod.collapse)
    with stored [OF got [OF g], of "snd (op_LogMessage (store env) s name m)"] show ?thesis by simp
  qed
  with got assms show ?thesis
    by (auto simp: logMessage_def Param_def Let_def split: prod.splits)
qed

end

sublocale storing_invariant \<subseteq> logging: logging_invariant I "\<lambda>m. True"
  by unfold_locales (simp_all add: keep_replayLog keep_logMessage)

locale proxy_invariant = storing_invariant I for I :: "('s, 'c) env \<Rightarrow> 's proxy \<Rightarrow> bool" +
  assumes server_conn: "I env p \<Longrightarrow> rwc c = rwc (server p) \<Longrightarrow> chan c = chan (server p) \<Longrightarrow>
      tame (server_session p) (Session c) \<Longrightarrow> I env (p\<lparr>server := c\<rparr>)"
    and accepted: "I env p \<Longrightarrow> I env (accept_client env h p)"

sublocale proxy_invariant \<subseteq> handlers: handler_invariant I "\<lambda>m. True"
  by unfold_locales (fact server_conn accepted)+

context proxy_invariant begin

lemma keep_round: "I env p \<Longrightarrow> ensures (Run_step env ev p) (I env)"
  by (rule handlers.keep_round) simp_all

lemma keep_step: "I env p \<Longrightarrow> step env p p' \<Longrightarrow> I env p'"
  by (erule stepE) (rule ensuresD [OF keep_round])

theorem reachable_keeps: "reachable env st p \<Longrightarrow> I env (NewProxy st) \<Longrightarrow> I env p"
  by (induction rule: reachable.induct) (auto intro: keep_step)

end

section \<open>Which connections are open together\<close>

text \<open>
  Of the four combinations two are possible at the top of the loop: both sides closed, or the
  server side open; a client is only connected while the server is, and a server without a
  client has finished its handshake. \<open>rwc\<close> and \<open>chan\<close> of a connection are set together.
\<close>

definition wired :: "'s proxy \<Rightarrow> bool" where
  "wired p \<longleftrightarrow>
     rwc (client p) = chan (client p) \<and> rwc (server p) = chan (server p)
     \<and> (IsClosed (server p) \<longrightarrow> IsClosed (client p))
     \<and> (IsClosed (client p) \<longrightarrow> IsClosed (server p) \<or> Done (Handshake (server_session p)))"

lemma IsClosed_simps [simp]:
  "IsClosed (c\<lparr>Session := s\<rparr>) = IsClosed c"
  "IsClosed (c\<lparr>PingSent := b\<rparr>) = IsClosed c"
  "IsClosed (c\<lparr>DropDeadline := t\<rparr>) = IsClosed c"
  "IsClosed (c\<lparr>PingDeadline := t\<rparr>) = IsClosed c"
  "\<not> IsClosed (conn_setup h ms now c)"
  by (simp_all add: IsClosed_def conn_setup_def updateDeadlines_def)

lemma conn_setup_simps [simp]:
  "rwc (conn_setup h ms now c) = Some h" "chan (conn_setup h ms now c) = Some h"
  "Session (conn_setup h ms now c) = NewSession"
  by (simp_all add: conn_setup_def updateDeadlines_def)

lemma IsClosed_cong: "rwc c = rwc d \<Longrightarrow> chan c = chan d \<Longrightarrow> IsClosed c = IsClosed d"
  by (simp add: IsClosed_def)

lemma shutdown_wired: "rwc c = chan c \<Longrightarrow> rwc (snd (shutdown c)) = chan (snd (shutdown c))"
  by (simp add: shutdown_def)

lemma wired_dropClient: "wired p \<Longrightarrow> wired (dropClient p)"
  by (auto simp: wired_def shutdown_wired)

lemma wired_reset: "wired p \<Longrightarrow> wired (reset p)"
  by (auto simp: wired_def shutdown_wired)

text \<open>\<open>Run\<close> accepting a client, with the result of \<open>Connect\<close> when it is called.\<close>

lemma accept_client_cases:
  fixes env p h
  defines "q \<equiv> (dropClient p)\<lparr>tick := Suc (tick p),
    client := conn_setup h (backlog env (Suc (tick p))) (clock env (tick p)) (snd (shutdown (client p))),
    trace := trace (dropClient p) @ [Accepted h]\<rparr>"
  obtains (kept) "\<not> IsClosed (server q)" "accept_client env h p = q"
    | (failed) e where "IsClosed (server q)" "dial env (tick q) = Inl e"
        "accept_client env h p = dropClient (q\<lparr>tick := Suc (tick q), trace := trace q @ [Dialed None]\<rparr>)"
    | (dialed) s where "IsClosed (server q)" "dial env (tick q) = Inr s"
        "accept_client env h p =
           q\<lparr>tick := Suc (Suc (tick q)), trace := trace q @ [Dialed (Some s)],
             server := conn_setup s (backlog env (Suc (Suc (tick q)))) (clock env (Suc (tick q))) (server q)\<rparr>"
proof -
  have q: "accept_client env h p =
      (if IsClosed (server q) then
         case Connect env q of
           (Inl err, p) \<Rightarrow> dropClient p
         | (Inr serverConn, p) \<Rightarrow>
             (let (now, p) = time_Now env p in p\<lparr>server := conn_setup serverConn (backlog env (tick p)) now (server p)\<rparr>)
       else q)"
    by (simp add: accept_client_def q_def time_Now_def Let_def)
  show thesis
  proof (cases "IsClosed (server q)")
    case True
    then show thesis using q failed dialed
      by (cases "dial env (tick q)") (simp_all add: Connect_def time_Now_def)
  qed (use q kept in simp)
qed

lemma wired_accept_client:
  assumes "wired p" shows "wired (accept_client env h p)"
proof -
  from wired_dropClient [OF assms] have d: "wired (dropClient p)" .
  show ?thesis
    by (rule accept_client_cases [where p = p and env = env and h = h]; use d in \<open>auto simp: wired_def shutdown_def\<close>)
qed

lemma wired_NewProxy: "wired (NewProxy st)"
  by (simp add: wired_def NewProxy_def)

lemma wired_server:
  "wired p \<Longrightarrow> rwc c = rwc (server p) \<Longrightarrow> chan c = chan (server p) \<Longrightarrow> tame (server_session p) (Session c) \<Longrightarrow>
     wired (p\<lparr>server := c\<rparr>)"
  using IsClosed_cong [of c "server p"] by (auto simp: wired_def tame_def)

interpretation wiring: proxy_invariant "\<lambda>env. wired"
proof unfold_locales
  fix p :: "'s proxy" and c :: connection
  assume "wired p" "rwc c = rwc (client p)" "chan c = chan (client p)"
  then show "wired (p\<lparr>client := c\<rparr>)" using IsClosed_cong [of c "client p"] by (simp add: wired_def)
qed (simp_all add: wired_server wired_dropClient wired_reset wired_accept_client, simp_all add: wired_def)

section \<open>Every transport is used between its opening and its closing\<close>

text \<open>
  \<open>track\<close> reads a trace and keeps the transports that are open. It fails on a write to, or a
  closing of, a transport that is not open. The handles are not assumed to be fresh.
\<close>

fun track :: "action list \<Rightarrow> handle multiset \<Rightarrow> handle multiset option" where
  "track [] M = Some M"
| "track (Accepted h # as) M = track as (add_mset h M)"
| "track (Dialed (Some h) # as) M = track as (add_mset h M)"
| "track (Dialed None # as) M = track as M"
| "track (Wrote h m b # as) M = (if h \<in># M then track as M else None)"
| "track (Closed h # as) M = (if h \<in># M then track as (M - {#h#}) else None)"
| "track (Drained h ms # as) M = track as M"

definition open_handles :: "'s proxy \<Rightarrow> handle multiset" where
  "open_handles p =
     (case rwc (client p) of None \<Rightarrow> {#} | Some h \<Rightarrow> {#h#})
     + (case rwc (server p) of None \<Rightarrow> {#} | Some h \<Rightarrow> {#h#})"

definition tracked :: "'s proxy \<Rightarrow> bool" where
  "tracked p \<longleftrightarrow> rwc (client p) = chan (client p) \<and> rwc (server p) = chan (server p)
     \<and> track (trace p) {#} = Some (open_handles p)"

lemma track_append:
  "track (as @ bs) M = (case track as M of None \<Rightarrow> None | Some M' \<Rightarrow> track bs M')"
  by (induction as M rule: track.induct) auto

lemma track_shutdown:
  "rwc c = chan c \<Longrightarrow> track (fst (shutdown c)) (M + (case rwc c of None \<Rightarrow> {#} | Some h \<Rightarrow> {#h#})) = Some M"
  by (cases "chan c") (simp_all add: shutdown_def IsClosed_def)

lemma rwc_shutdown: "rwc c = chan c \<Longrightarrow> rwc (snd (shutdown c)) = None \<and> chan (snd (shutdown c)) = None"
  by (auto simp: shutdown_def IsClosed_def)

lemma tracked_shutdown_client: "tracked p \<Longrightarrow> tracked (shutdown_client p)"
  using track_shutdown [of "client p" "case rwc (server p) of None \<Rightarrow> {#} | Some h \<Rightarrow> {#h#}"]
  by (auto simp: tracked_def open_handles_def track_append rwc_shutdown add.commute)

lemma tracked_shutdown_server: "tracked p \<Longrightarrow> tracked (shutdown_server p)"
  using track_shutdown [of "server p" "case rwc (client p) of None \<Rightarrow> {#} | Some h \<Rightarrow> {#h#}"]
  by (auto simp: tracked_def open_handles_def track_append rwc_shutdown)

lemma tracked_dropClient: "tracked p \<Longrightarrow> tracked (dropClient p)"
  by (simp add: dropClient_def Let_def tracked_shutdown_client tracked_shutdown_server)

lemma tracked_reset: "tracked p \<Longrightarrow> tracked (reset p)"
  by (simp add: reset_def tracked_shutdown_client tracked_shutdown_server)

lemma tracked_cong:
  "rwc (client p') = rwc (client p) \<Longrightarrow> chan (client p') = chan (client p) \<Longrightarrow>
   rwc (server p') = rwc (server p) \<Longrightarrow> chan (server p') = chan (server p) \<Longrightarrow>
   trace p' = trace p \<Longrightarrow> tracked p' = tracked p"
  by (simp add: tracked_def open_handles_def)

lemma tracked_accept_client:
  assumes "tracked p" shows "tracked (accept_client env h p)"
proof -
  have d: "tracked (dropClient p)" "rwc (client (dropClient p)) = None"
    using tracked_dropClient [OF assms] rwc_shutdown assms by (auto simp: tracked_def)
  define q where "q = (dropClient p)\<lparr>tick := Suc (tick p),
    client := conn_setup h (backlog env (Suc (tick p))) (clock env (tick p)) (snd (shutdown (client p))),
    trace := trace (dropClient p) @ [Accepted h]\<rparr>"
  have q: "tracked q"
    using d by (simp add: q_def tracked_def open_handles_def track_append split: option.splits)
  have dialed: "track (trace q @ [Dialed s]) {#} =
      Some (open_handles q + (case s of None \<Rightarrow> {#} | Some h \<Rightarrow> {#h#}))" for s
    using q by (cases s) (simp_all add: tracked_def track_append)
  show ?thesis
  proof (rule accept_client_cases [where p = p and env = env and h = h, folded q_def])
    fix e assume a: "accept_client env h p = dropClient (q\<lparr>tick := Suc (tick q), trace := trace q @ [Dialed None]\<rparr>)"
    have "tracked (q\<lparr>tick := Suc (tick q), trace := trace q @ [Dialed None]\<rparr>)"
      using q dialed [of None] by (simp add: tracked_def open_handles_def)
    with a tracked_dropClient show ?thesis by metis
  next
    fix s assume "IsClosed (server q)"
      and a: "accept_client env h p = q\<lparr>tick := Suc (Suc (tick q)), trace := trace q @ [Dialed (Some s)],
        server := conn_setup s (backlog env (Suc (Suc (tick q)))) (clock env (Suc (tick q))) (server q)\<rparr>"
    with q have "rwc (server q) = None" by (auto simp: tracked_def IsClosed_def)
    with a q dialed [of "Some s"] show ?thesis by (auto simp: tracked_def open_handles_def)
  qed (use q in simp)
qed

interpretation transports: proxy_invariant "\<lambda>env. tracked"
proof unfold_locales
  fix p :: "'s proxy" and h m b
  assume "tracked p" "rwc (client p) = Some h \<or> rwc (server p) = Some h"
  then show "tracked (p\<lparr>trace := trace p @ [Wrote h m b]\<rparr>)"
    by (auto simp: tracked_def track_append open_handles_def)
qed (simp_all add: tracked_dropClient tracked_reset tracked_accept_client,
  simp_all add: tracked_def open_handles_def)

section \<open>The maps of the sessions\<close>

definition wf_proxy :: "'s proxy \<Rightarrow> bool" where
  "wf_proxy p \<longleftrightarrow>
     wf_session (client_session p) \<and> wf_session (server_session p) \<and> wf_session (preLogSession p)"

lemma wf_shutdown: "wf_session (Session c) \<Longrightarrow> wf_session (Session (snd (shutdown c)))"
  by (simp add: shutdown_def)

lemma wf_accept_client:
  assumes "wf_proxy p" shows "wf_proxy (accept_client env h p)"
  by (rule accept_client_cases [where p = p and env = env and h = h];
      use assms in \<open>simp add: wf_proxy_def wf_shutdown\<close>)

interpretation sessions: proxy_invariant "\<lambda>env. wf_proxy"
  by unfold_locales (simp_all add: wf_accept_client, simp_all add: wf_proxy_def tame_def wf_shutdown)

lemma reachable_well_formed:
  assumes "reachable env st p"
  shows "wf_session (client_session p) \<and> wf_session (server_session p) \<and> wf_session (preLogSession p)"
proof -
  have "wf_proxy (NewProxy st :: 'a proxy)" by (simp add: wf_proxy_def NewProxy_def)
  with sessions.reachable_keeps [OF assms] show ?thesis by (simp add: wf_proxy_def)
qed

end
