(* ===== verification/Ephemeral_Store.thy ===== *)
theory Ephemeral_Store
  imports Log_Store
begin

text \<open>
  \<open>storage/ephemeral/ephemeral.go\<close>: the store in memory, and the empty cursor of
  \<open>storage/storage.go\<close>. The Go map from names to slices is an association list; a missing key
  reads as the nil slice. A cursor holds the slice as it was when the replay began: appending
  to the log later makes a longer slice and leaves the cursor's length alone.
\<close>

section \<open>Operations\<close>

record eph_store =
  log_channels :: "(string \<times> message list) list"

datatype eph_cursor =
    EmptyCursor
  | Cursor "message list" nat

definition eph_NewStore :: eph_store where
  "eph_NewStore = \<lparr>log_channels = []\<rparr>"

definition eph_GetChannel :: "eph_store \<Rightarrow> string \<Rightarrow> error option \<times> eph_store" where
  "eph_GetChannel s name = (None, s)"

definition eph_LogMessage :: "eph_store \<Rightarrow> string \<Rightarrow> message \<Rightarrow> error option \<times> eph_store" where
  "eph_LogMessage s name msg =
     (None,
      (case map_of (log_channels s) name of
         None \<Rightarrow> s\<lparr>log_channels := AList.update name [msg] (log_channels s)\<rparr>
       | Some msgs \<Rightarrow> s\<lparr>log_channels := AList.update name (msgs @ [msg]) (log_channels s)\<rparr>))"

definition eph_Clear :: "eph_store \<Rightarrow> string \<Rightarrow> error option \<times> eph_store" where
  "eph_Clear s name = (None, s\<lparr>log_channels := AList.delete name (log_channels s)\<rparr>)"

definition eph_Replay :: "eph_store \<Rightarrow> string \<Rightarrow> (error + eph_cursor) \<times> eph_store" where
  "eph_Replay s name =
     (case map_of (log_channels s) name of
        None \<Rightarrow> (Inr EmptyCursor, s)
      | Some msgs \<Rightarrow> (Inr (Cursor msgs 0), s))"

fun eph_Next :: "eph_cursor \<Rightarrow> eph_cursor" where
  "eph_Next EmptyCursor = emptyCursor_Next EmptyCursor"
| "eph_Next (Cursor msgs i) = Cursor msgs (i + 1)"

fun eph_Get :: "eph_cursor \<Rightarrow> message option \<times> error option" where
  "eph_Get EmptyCursor = emptyCursor_Get EmptyCursor"
| "eph_Get (Cursor msgs i) =
     (if i \<ge> length msgs then (None, Some EOF) else (Some (msgs ! i), None))"

fun eph_Close :: "eph_cursor \<Rightarrow> error option \<times> eph_cursor" where
  "eph_Close EmptyCursor = emptyCursor_Close EmptyCursor"
| "eph_Close (Cursor msgs i) = (None, Cursor msgs i)"

definition eph_ops :: "(eph_store, eph_cursor) store_ops" where
  "eph_ops =
     \<lparr>op_GetChannel = eph_GetChannel, op_LogMessage = eph_LogMessage, op_Replay = eph_Replay,
      op_Clear = eph_Clear, op_Get = eph_Get, op_Next = eph_Next\<rparr>"

section \<open>The contract\<close>

definition eph_contents :: "eph_store \<Rightarrow> string \<Rightarrow> message list" where
  "eph_contents s name = (case map_of (log_channels s) name of None \<Rightarrow> [] | Some msgs \<Rightarrow> msgs)"

fun eph_pending :: "eph_cursor \<Rightarrow> message list" where
  "eph_pending EmptyCursor = []"
| "eph_pending (Cursor msgs i) = drop i msgs"

lemma eph_Get_pending:
  "eph_Get c = (case eph_pending c of [] \<Rightarrow> (None, Some EOF) | m # ms \<Rightarrow> (Some m, None))"
  by (cases c) (auto simp: Cons_nth_drop_Suc [symmetric])

lemma eph_Next_pending: "eph_pending (eph_Next c) = tl (eph_pending c)"
  by (cases c) (auto simp: drop_Suc tl_drop)

interpretation eph: reliable_store eph_ops "\<lambda>_. True" eph_contents "\<lambda>_. True" eph_pending "\<lambda>_. None" "\<lambda>_. True"
  by unfold_locales
    (auto simp: eph_ops_def eph_GetChannel_def eph_LogMessage_def eph_Clear_def eph_Replay_def
      eph_contents_def eph_Get_pending eph_Next_pending map_simps fun_eq_iff split: option.splits)

lemma eph_NewStore_empty [simp]: "eph_contents eph_NewStore name = []"
  by (simp add: eph_contents_def eph_NewStore_def)

end
