(* ===== verification/Irc_Reader.thy ===== *)
theory Irc_Reader
  imports Irc_Message
begin

text \<open>
  \<open>irc/message.go\<close>, the second half, and \<open>irc/helpers.go\<close>: reading messages.

  \<^item> \<open>parseWord\<close> and \<open>parseMessage\<close> work on a \<open>bytes.Buffer\<close>, here the bytes not yet read.
  \<^item> \<open>scanner\<close> is the \<open>bufio.Scanner\<close> that \<open>NewReader\<close> makes: it splits into lines and has a
    buffer of \<open>MaxMessageLen\<close> bytes that cannot grow. Its input is given whole, with the error
    that the underlying \<open>io.Reader\<close> returns after the last byte. \<open>Scan\<close> gives the same tokens
    however the bytes arrive: a line is a token once its newline is in the buffer, and a full
    buffer without a newline is \<open>ErrTooLong\<close>.
  \<^item> \<open>ReadMessage\<close>, \<open>ParseMessage\<close> and \<open>ReadAll\<close> are the operations on top.
\<close>

section \<open>Parsing one line\<close>

text \<open>The two loops of \<open>parseWord\<close>: copy everything, or copy up to the next space.\<close>

fun copy_all :: "string \<Rightarrow> string \<Rightarrow> string \<times> string" where
  "copy_all out [] = (out, [])"
| "copy_all out (c # inp) = copy_all (out @ [c]) inp"

fun copy_word :: "string \<Rightarrow> char \<Rightarrow> string \<Rightarrow> string \<times> string" where
  "copy_word out c inp =
     (if c = SP then (out, inp)
      else case inp of [] \<Rightarrow> (out @ [c], []) | d # ds \<Rightarrow> copy_word (out @ [c]) d ds)"

text \<open>\<open>parseWord(output, input)\<close>: the error, the output buffer, the rest of the input.\<close>

definition parseWord :: "string \<Rightarrow> string \<Rightarrow> error option \<times> string \<times> string" where
  "parseWord out inp =
     (case inp of
        [] \<Rightarrow> (Some EOF, out, [])
      | c # inp' \<Rightarrow> (None, if c = COLON then copy_all out inp' else copy_word out c inp'))"

lemma copy_all_eq: "copy_all out inp = (out @ inp, [])"
  by (induction out inp rule: copy_all.induct) simp_all

lemma copy_word_eq:
  "copy_word out c inp =
     (out @ takeWhile (\<lambda>x. x \<noteq> SP) (c # inp), tl (dropWhile (\<lambda>x. x \<noteq> SP) (c # inp)))"
proof (induction out c inp rule: copy_word.induct)
  case (1 out c inp)
  then show ?case by (cases inp) auto
qed

declare copy_word.simps [simp del]

lemma parseWord_simps [simp]:
  "parseWord out [] = (Some EOF, out, [])"
  "parseWord out (COLON # inp) = (None, out @ inp, [])"
  "c \<noteq> COLON \<Longrightarrow> parseWord out (c # inp) =
     (None, out @ takeWhile (\<lambda>x. x \<noteq> SP) (c # inp), tl (dropWhile (\<lambda>x. x \<noteq> SP) (c # inp)))"
  by (simp_all add: parseWord_def copy_all_eq copy_word_eq)

lemma parseWord_shorter: "parseWord out inp = (None, w, rest) \<Longrightarrow> length rest < length inp"
proof (cases inp)
  case (Cons c cs)
  moreover assume "parseWord out inp = (None, w, rest)"
  moreover have "length (tl (dropWhile (\<lambda>x. x \<noteq> SP) (c # cs))) < length (c # cs)"
    using length_dropWhile_le [of "\<lambda>x. x \<noteq> SP" cs] by (auto intro: le_imp_less_Suc)
  ultimately show ?thesis by (cases "c = COLON") auto
qed simp

text \<open>The loop that collects the parameters.\<close>

function parse_params :: "string \<Rightarrow> string list" where
  "parse_params inp =
     (case parseWord [] inp of
        (Some e, out, rest) \<Rightarrow> []
      | (None, out, rest) \<Rightarrow> out # parse_params rest)"
  by pat_completeness auto
termination
  by (relation "measure length") (auto dest: parseWord_shorter [OF sym])

declare parse_params.simps [simp del]

lemma parse_params_simps [simp]:
  "parse_params [] = []"
  "parse_params (COLON # inp) = [inp]"
  "c \<noteq> COLON \<Longrightarrow> parse_params (c # inp) =
     takeWhile (\<lambda>x. x \<noteq> SP) (c # inp) # parse_params (tl (dropWhile (\<lambda>x. x \<noteq> SP) (c # inp)))"
  by (simp_all add: parse_params.simps [of "[]"] parse_params.simps [of "_ # _"])

text \<open>
  \<open>parseMessage(input)\<close>. Reading a byte that is not a colon and putting it back
  (\<open>UnreadByte\<close>) leaves the input as it was.
\<close>

definition parseMessage :: "string \<Rightarrow> error + message" where
  "parseMessage inp =
     (case inp of
        [] \<Rightarrow> Inl EOF
      | c # inp' \<Rightarrow>
          (case (if c = COLON then parseWord [] inp' else (None, [], inp)) of
             (Some err, _, _) \<Rightarrow> Inl err
           | (None, prefix, inp1) \<Rightarrow>
               (case parseWord [] inp1 of
                  (Some err, _, _) \<Rightarrow> Inl err
                | (None, command, inp2) \<Rightarrow>
                    Inr \<lparr>Prefix = prefix, Command = command, Params = parse_params inp2\<rparr>)))"

section \<open>The line scanner\<close>

definition MaxMessageLen :: nat where
  "MaxMessageLen = 512"

record scanner =
  scan_input :: string               \<comment> \<open>bytes not yet returned, buffered or not\<close>
  reader_err :: error                \<comment> \<open>what the underlying reader returns at its end\<close>
  scan_err :: "error option"         \<comment> \<open>\<open>s.err\<close>\<close>

definition NewReader :: "string \<Rightarrow> error \<Rightarrow> scanner" where
  "NewReader inp e = \<lparr>scan_input = inp, reader_err = e, scan_err = None\<rparr>"

definition dropCR :: "string \<Rightarrow> string" where
  "dropCR s = (if s \<noteq> [] \<and> last s = CR then butlast s else s)"

text \<open>
  \<open>Scan\<close>: the token, if there is one, and the scanner after the call. Without a stored error
  the first \<open>MaxMessageLen\<close> bytes are what the buffer can hold. With a stored error (set by
  an earlier call or in this one) everything left is one last token.
\<close>

definition scan_at_end :: "scanner \<Rightarrow> string option \<times> scanner" where
  "scan_at_end sc =
     (if scan_input sc = [] then (None, sc)
      else (Some (dropCR (scan_input sc)), sc\<lparr>scan_input := []\<rparr>))"

definition Scan :: "scanner \<Rightarrow> string option \<times> scanner" where
  "Scan sc =
     (if scan_err sc \<noteq> None then scan_at_end sc
      else let window = take MaxMessageLen (scan_input sc) in
        if LF \<in> set window
        then let line = takeWhile (\<lambda>c. c \<noteq> LF) window
             in (Some (dropCR line), sc\<lparr>scan_input := drop (Suc (length line)) (scan_input sc)\<rparr>)
        else if MaxMessageLen \<le> length (scan_input sc)
        then (None, sc\<lparr>scan_input := window, scan_err := Some ErrTooLong\<rparr>)
        else scan_at_end (sc\<lparr>scan_err := Some (reader_err sc)\<rparr>))"

definition scanner_Err :: "scanner \<Rightarrow> error option" where
  "scanner_Err sc = (if scan_err sc = Some EOF then None else scan_err sc)"

section \<open>Reading messages\<close>

definition ReadMessage :: "scanner \<Rightarrow> (error + message) \<times> scanner" where
  "ReadMessage r =
     (case Scan r of
        (None, r') \<Rightarrow>
          (Inl (case scanner_Err r' of None \<Rightarrow> EOF | Some err \<Rightarrow> err), r')
      | (Some line, r') \<Rightarrow> (parseMessage line, r'))"

definition ParseMessage :: "string \<Rightarrow> error + message" where
  "ParseMessage input =
     (let r = NewReader input EOF in
      case ReadMessage r of
        (Inl err, _) \<Rightarrow> Inl err
      | (Inr msg, r') \<Rightarrow>
          (case ReadMessage r' of
             (Inl EOF, _) \<Rightarrow> Inr msg
           | _ \<Rightarrow> Inl (ErrManyMessages input)))"

lemma ReadMessage_shorter:
  assumes "ReadMessage r = (Inr m, r')"
  shows "length (scan_input r') < length (scan_input r)"
proof -
  have "LF \<in> set (take n s) \<Longrightarrow> s \<noteq> []" for n s by (cases s) auto
  with assms show ?thesis
    by (auto simp: ReadMessage_def Scan_def scan_at_end_def Let_def
        split: option.splits if_splits prod.splits)
qed

text \<open>
  \<open>ReadAll\<close>: the messages its goroutine sends on the channel before it closes it, that is,
  up to the first error of any kind.
\<close>

function ReadAll :: "scanner \<Rightarrow> message list" where
  "ReadAll r =
     (case ReadMessage r of
        (Inl err, r') \<Rightarrow> []
      | (Inr msg, r') \<Rightarrow> msg # ReadAll r')"
  by pat_completeness auto
termination
  by (relation "measure (length \<circ> scan_input)") (auto dest: ReadMessage_shorter [OF sym])

declare ReadAll.simps [simp del]

end
