(* ===== verification/Wire_Format.thy ===== *)
theory Wire_Format
  imports Irc_Reader
begin

text \<open>
  When a message survives being written and read back. \<open>wire_ok\<close> is the exact condition on
  the text of the line, \<open>storable\<close> adds the two limits of the reader: no line feed inside, and
  at most \<open>MaxMessageLen\<close> bytes. The SQL store and every peer depend on this round trip.
\<close>

section \<open>The conditions\<close>

fun params_ok :: "string list \<Rightarrow> bool" where
  "params_ok [] = True"
| "params_ok [p] = (p \<noteq> [] \<and> (hd p = COLON \<longrightarrow> SP \<in> set p))"
| "params_ok (p # ps) = (SP \<notin> set p \<and> (p \<noteq> [] \<longrightarrow> hd p \<noteq> COLON) \<and> params_ok ps)"

definition command_ok :: "string \<Rightarrow> string list \<Rightarrow> bool" where
  "command_ok c ps \<longleftrightarrow>
     SP \<notin> set c \<and> (c \<noteq> [] \<longrightarrow> hd c \<noteq> COLON) \<and> (c \<noteq> [] \<or> ps \<noteq> []) \<and> params_ok ps"

definition wire_ok :: "message \<Rightarrow> bool" where
  "wire_ok m \<longleftrightarrow>
     (Prefix m \<noteq> [] \<longrightarrow> hd (Prefix m) \<noteq> COLON \<and> SP \<notin> set (Prefix m))
     \<and> command_ok (Command m) (Params m)"

definition storable :: "message \<Rightarrow> bool" where
  "storable m \<longleftrightarrow> wire_ok m \<and> LF \<notin> set (line_text m) \<and> Len m \<le> MaxMessageLen"

section \<open>Parameters and command\<close>

lemma takeWhile_neq: "SP \<in> set w \<Longrightarrow> takeWhile (\<lambda>x. x \<noteq> SP) (w @ s) \<noteq> w"
  by (metis set_takeWhileD)

lemma parseWord_space:
  "SP \<notin> set w \<Longrightarrow> (w \<noteq> [] \<Longrightarrow> hd w \<noteq> COLON) \<Longrightarrow> parseWord [] (w @ SP # s) = (None, w, s)"
  by (cases w) (auto simp: takeWhile_sep dropWhile_sep)

lemma parseWord_all:
  assumes "SP \<notin> set w" and "w \<noteq> []" and "hd w \<noteq> COLON"
  shows "parseWord [] w = (None, w, [])"
proof -
  have "x \<in> set w \<Longrightarrow> x \<noteq> SP" for x using assms(1) by auto
  then have "dropWhile (\<lambda>x. x \<noteq> SP) w = []" "takeWhile (\<lambda>x. x \<noteq> SP) w = w"
    by (simp_all add: takeWhile_eq_all_conv)
  moreover have "parseWord [] w =
      (None, takeWhile (\<lambda>x. x \<noteq> SP) w, tl (dropWhile (\<lambda>x. x \<noteq> SP) w))"
    using assms(2,3) by (cases w) (simp_all del: takeWhile.simps dropWhile.simps)
  ultimately show ?thesis by simp
qed

text \<open>The text of the parameters after the space in front of the first one.\<close>

fun params_body :: "string list \<Rightarrow> string" where
  "params_body [] = []"
| "params_body [p] = (if SP \<in> set p then COLON # p else p)"
| "params_body (p # ps) = p @ SP # params_body ps"

lemma params_text_body: "params_text ps = (if ps = [] then [] else SP # params_body ps)"
  by (induction ps rule: params_body.induct) (simp_all add: last_param_text_def)

lemma parse_params_body: "params_ok ps \<Longrightarrow> parse_params (params_body ps) = ps"
proof (induction ps rule: params_ok.induct)
  case (2 p)
  then have "SP \<notin> set p \<Longrightarrow> parseWord [] p = (None, p, [])" by (intro parseWord_all) auto
  then show ?case by (cases "SP \<in> set p") (simp, subst parse_params.simps, simp)
next
  case (3 p q qs)
  then show ?case by (subst parse_params.simps) (simp add: parseWord_space)
qed simp

lemma parse_params_body_only: "parse_params (params_body ps) = ps \<Longrightarrow> params_ok ps"
proof (induction ps rule: params_ok.induct)
  case (2 p)
  then show ?case by (cases p) (auto split: if_splits)
next
  case (3 p q qs)
  let ?s = "params_body (q # qs)"
  have eq: "parse_params (p @ SP # ?s) = p # q # qs" using "3.prems" by simp
  have hd: "p \<noteq> [] \<longrightarrow> hd p \<noteq> COLON"
    using eq by (cases p) auto
  have "takeWhile (\<lambda>x. x \<noteq> SP) (p @ SP # ?s) = p"
    using eq hd by (cases p) simp_all
  then have sp: "SP \<notin> set p" using takeWhile_neq by blast
  with hd have "parseWord [] (p @ SP # ?s) = (None, p, ?s)" by (intro parseWord_space) auto
  with eq have "parse_params ?s = q # qs" by (subst (asm) parse_params.simps) simp
  with 3 hd sp show ?case by simp
qed simp

lemma parseWord_command:
  "command_ok c ps \<Longrightarrow> parseWord [] (c @ params_text ps) = (None, c, params_body ps)"
  by (auto simp: command_ok_def params_text_body intro: parseWord_all parseWord_space)

lemma parseWord_command_only:
  assumes w: "parseWord [] (c @ params_text ps) = (None, c, rest)" and ps: "parse_params rest = ps"
  shows "command_ok c ps"
proof -
  have c: "c \<noteq> [] \<or> ps \<noteq> []" using w by (auto simp: params_text_body)
  have hd: "c \<noteq> [] \<longrightarrow> hd c \<noteq> COLON"
  proof (intro impI notI)
    assume "c \<noteq> []" and "hd c = COLON"
    then obtain c' where c': "c = COLON # c'" by (cases c) auto
    with w ps have "c' @ params_text ps = c" "ps = []" by auto
    with c' show False by (simp add: params_text_body)
  qed
  have tw: "takeWhile (\<lambda>x. x \<noteq> SP) (c @ params_text ps) = c"
    using w hd c by (cases c) (simp_all add: params_text_body)
  then have sp: "SP \<notin> set c" using takeWhile_neq by blast
  have "parseWord [] (c @ params_text ps) = (None, c, params_body ps)"
    using c hd sp by (auto simp: params_text_body intro: parseWord_all parseWord_space)
  with w ps have "params_ok ps" by (intro parse_params_body_only) simp
  with c hd sp show ?thesis by (simp add: command_ok_def)
qed

section \<open>Sizes of what a line parses to\<close>

lemma size_split:
  fixes s :: string
  shows "length (takeWhile P s) + length (tl (dropWhile P s))
     + (if dropWhile P s = [] then 0 else 1) = length s"
proof -
  have "length (takeWhile P s) + length (dropWhile P s) = length s"
    by (metis length_append takeWhile_dropWhile_id)
  then show ?thesis by (cases "dropWhile P s") (simp_all del: dropWhile_eq_Nil_conv)
qed

lemma parse_params_size:
  "length (params_text (parse_params s)) \<le> length s + (if s = [] then 0 else 1)"
proof (induction "length s" arbitrary: s rule: less_induct)
  case less
  show ?case
  proof (cases "s = [] \<or> hd s = COLON")
    case True
    then show ?thesis by (cases s) (simp_all add: last_param_text_def)
  next
    case False
    let ?w = "takeWhile (\<lambda>x. x \<noteq> SP) s" and ?r = "tl (dropWhile (\<lambda>x. x \<noteq> SP) s)"
    from False have p: "parseWord [] s = (None, ?w, ?r)" by (cases s) simp_all
    then have "parse_params s = ?w # parse_params ?r" by (subst parse_params.simps) simp
    then have "length (params_text (parse_params s)) \<le>
        Suc (length ?w) + length (params_text (parse_params ?r))"
      using set_takeWhileD [of SP "\<lambda>x. x \<noteq> SP" s] by (auto simp: length_params_text)
    moreover have "length (params_text (parse_params ?r)) \<le> length ?r + (if ?r = [] then 0 else 1)"
      by (rule less) (rule parseWord_shorter [OF p])
    moreover have "(if ?r = [] then 0 else 1) \<le> (if dropWhile (\<lambda>x. x \<noteq> SP) s = [] then 0 else (1::nat))"
      by (simp del: dropWhile_eq_Nil_conv)
    ultimately show ?thesis using size_split [of "\<lambda>x. x \<noteq> SP" s] False by simp
  qed
qed

lemma parseWord_size:
  assumes "parseWord [] s = (None, w, rest)"
  shows "length w + length (params_text (parse_params rest)) \<le> length s"
proof (cases "s = [] \<or> hd s = COLON")
  case True
  with assms show ?thesis by (cases s) auto
next
  case False
  then have "w = takeWhile (\<lambda>x. x \<noteq> SP) s" "rest = tl (dropWhile (\<lambda>x. x \<noteq> SP) s)"
    using assms by (cases s; simp)+
  moreover have "(if rest = [] then 0 else 1) \<le> (if dropWhile (\<lambda>x. x \<noteq> SP) s = [] then 0 else (1::nat))"
    using calculation(2) by (simp del: dropWhile_eq_Nil_conv)
  ultimately show ?thesis
    using size_split [of "\<lambda>x. x \<noteq> SP" s] parse_params_size [of rest] by simp
qed

lemma parseWord_consumes:
  "parseWord [] s = (None, w, rest) \<Longrightarrow> rest \<noteq> [] \<Longrightarrow> length w + length rest < length s"
  using size_split [of "\<lambda>x. x \<noteq> SP" s]
  by (cases s; cases "hd s = COLON") (auto split: if_splits)

section \<open>The line round trip\<close>

lemma parse_line_text: "wire_ok m \<Longrightarrow> parseMessage (line_text m) = Inr m"
proof -
  assume ok: "wire_ok m"
  then have cmd: "parseWord [] (Command m @ params_text (Params m)) =
      (None, Command m, params_body (Params m))" "parse_params (params_body (Params m)) = Params m"
    by (simp_all add: wire_ok_def parseWord_command, simp add: command_ok_def parse_params_body)
  show ?thesis
  proof (cases "Prefix m = []")
    case True
    let ?t = "Command m @ params_text (Params m)"
    from ok have "?t \<noteq> [] \<and> hd ?t \<noteq> COLON"
      by (auto simp: wire_ok_def command_ok_def params_text_body hd_append)
    then obtain c cs where "?t = c # cs" "c \<noteq> COLON" by (cases ?t) auto
    with True cmd show ?thesis
      by (simp add: parseMessage_def line_text_def prefix_text_def)
  next
    case False
    with ok have "parseWord [] (Prefix m @ SP # Command m @ params_text (Params m)) =
        (None, Prefix m, Command m @ params_text (Params m))"
      by (intro parseWord_space) (auto simp: wire_ok_def)
    with False cmd show ?thesis
      by (simp add: parseMessage_def line_text_def prefix_text_def)
  qed
qed

lemma parseMessage_InrE:
  assumes "parseMessage s = Inr m"
  obtains (no_prefix) rest where "s \<noteq> []" "hd s \<noteq> COLON" "Prefix m = []"
      "parseWord [] s = (None, Command m, rest)" "Params m = parse_params rest"
    | (prefix) t u rest where "s = COLON # t" "parseWord [] t = (None, Prefix m, u)"
      "parseWord [] u = (None, Command m, rest)" "Params m = parse_params rest"
  using assms unfolding parseMessage_def
  by (auto split: list.splits option.splits if_splits prod.splits)

lemma parse_line_text_only:
  assumes "parseMessage (line_text m) = Inr m"
  shows "wire_ok m"
  using assms
proof (cases rule: parseMessage_InrE)
  case (no_prefix rest)
  have "line_text m = Command m @ params_text (Params m)"
    using no_prefix(3) by (simp add: line_text_def prefix_text_def)
  with no_prefix(4) have "parseWord [] (Command m @ params_text (Params m)) = (None, Command m, rest)"
    by simp
  then have "command_ok (Command m) (Params m)"
    by (rule parseWord_command_only) (rule no_prefix(5) [symmetric])
  with no_prefix(3) show ?thesis by (simp add: wire_ok_def)
next
  case (prefix t u rest)
  show ?thesis
  proof (cases "Prefix m = []")
    case True
    with prefix(2) have "length u < length t" by (auto dest: parseWord_shorter)
    moreover have "length (Command m) + length (params_text (Params m)) \<le> length u"
      using parseWord_size [OF prefix(3)] prefix(4) by simp
    moreover have "length (line_text m) = Suc (length t)" using prefix(1) by simp
    moreover have "length (line_text m) = length (Command m) + length (params_text (Params m))"
      using True by (simp add: line_text_def prefix_text_def)
    ultimately show ?thesis by linarith
  next
    case False
    let ?c = "Command m @ params_text (Params m)"
    from False prefix(1) have t: "t = Prefix m @ SP # ?c"
      by (simp add: line_text_def prefix_text_def)
    have hd: "hd (Prefix m) \<noteq> COLON"
    proof
      assume "hd (Prefix m) = COLON"
      with False t prefix(2,3) show False by (cases "Prefix m") auto
    qed
    with False t prefix(2) have "takeWhile (\<lambda>x. x \<noteq> SP) (Prefix m @ SP # ?c) = Prefix m"
      by (cases "Prefix m") simp_all
    then have sp: "SP \<notin> set (Prefix m)" using takeWhile_neq by blast
    with False hd t prefix(2) have "u = ?c"
      using parseWord_space [of "Prefix m" ?c] by simp
    with prefix(3,4) have "command_ok (Command m) (Params m)"
      by (intro parseWord_command_only) auto
    with hd sp show ?thesis by (simp add: wire_ok_def)
  qed
qed

lemma parse_line_text_iff: "parseMessage (line_text m) = Inr m \<longleftrightarrow> wire_ok m"
  using parse_line_text parse_line_text_only by blast

section \<open>Through the scanner\<close>

lemma Scan_line:
  assumes "LF \<notin> set line" and "length line < MaxMessageLen"
  shows "Scan (NewReader (line @ LF # rest) e) = (Some (dropCR line), NewReader rest e)"
proof -
  have "take MaxMessageLen (line @ LF # rest) =
      line @ LF # take (MaxMessageLen - Suc (length line)) rest"
    using assms(2) by (simp add: take_Cons')
  then show ?thesis
    using assms(1) by (simp add: Scan_def NewReader_def takeWhile_sep)
qed

lemma Scan_too_long:
  assumes "LF \<notin> set (take MaxMessageLen s)" and "MaxMessageLen \<le> length s"
  shows "Scan (NewReader s e) =
    (None, \<lparr>scan_input = take MaxMessageLen s, reader_err = e, scan_err = Some ErrTooLong\<rparr>)"
  using assms by (simp add: Scan_def NewReader_def)

lemma Scan_last:
  assumes "LF \<notin> set s" and "length s < MaxMessageLen"
  shows "Scan (NewReader s e) = scan_at_end \<lparr>scan_input = s, reader_err = e, scan_err = Some e\<rparr>"
proof -
  have "take MaxMessageLen s = s" using assms(2) by simp
  with assms show ?thesis by (simp add: Scan_def NewReader_def)
qed

lemma Scan_Nil: "Scan (NewReader [] e) = (None, \<lparr>scan_input = [], reader_err = e, scan_err = Some e\<rparr>)"
  by (simp add: Scan_last MaxMessageLen_def scan_at_end_def)

lemma ReadMessage_Nil: "fst (ReadMessage (NewReader [] e)) = Inl e"
  by (simp add: ReadMessage_def Scan_Nil scanner_Err_def)

lemma dropCR_CR [simp]: "dropCR (s @ [CR]) = s"
  by (simp add: dropCR_def)

lemma Len_line_text: "Len m = length (line_text m) + 2"
  by (simp add: Len_eq String_eq)

lemma Scan_String:
  assumes "LF \<notin> set (line_text m)" and "Len m \<le> MaxMessageLen"
  shows "Scan (NewReader (String m @ rest) e) = (Some (line_text m), NewReader rest e)"
proof -
  have "String m @ rest = (line_text m @ [CR]) @ LF # rest" by (simp add: String_eq)
  moreover have "Scan (NewReader ((line_text m @ [CR]) @ LF # rest) e) =
      (Some (dropCR (line_text m @ [CR])), NewReader rest e)"
    by (rule Scan_line) (use assms in \<open>simp_all add: Len_line_text\<close>)
  ultimately show ?thesis by simp
qed

lemma ReadMessage_String:
  "storable m \<Longrightarrow> ReadMessage (NewReader (String m @ rest) e) = (Inr m, NewReader rest e)"
  by (simp add: storable_def ReadMessage_def Scan_String parse_line_text)

text \<open>A parsed message is made of bytes of its line.\<close>

lemma parseWord_bytes: "parseWord [] s = (None, w, rest) \<Longrightarrow> set w \<union> set rest \<subseteq> set s"
proof (cases s)
  case (Cons c cs)
  assume "parseWord [] s = (None, w, rest)"
  then show ?thesis
    using Cons set_tl_dropWhile [of "\<lambda>x. x \<noteq> SP" s]
    by (cases "c = COLON") (auto simp del: takeWhile.simps dropWhile.simps dest: set_takeWhileD)
qed simp

lemma parse_params_bytes: "p \<in> set (parse_params s) \<Longrightarrow> set p \<subseteq> set s"
proof (induction s rule: parse_params.induct)
  case (1 s)
  obtain e w r where p: "parseWord [] s = (e, w, r)" by (cases "parseWord [] s")
  show ?case
  proof (cases e)
    case None
    with p "1.prems" have "p = w \<or> p \<in> set (parse_params r)"
      by (subst (asm) parse_params.simps) simp
    then show ?thesis
      using "1.IH" [OF p [symmetric]] p None parseWord_bytes [of s w r] by blast
  next
    case (Some a)
    with p "1.prems" show ?thesis by (subst (asm) parse_params.simps) simp
  qed
qed

lemma parseMessage_bytes:
  assumes "parseMessage s = Inr m"
  shows "set (Prefix m) \<union> set (Command m) \<union> \<Union> (set ` set (Params m)) \<subseteq> set s"
  using assms
proof (cases rule: parseMessage_InrE)
  case (no_prefix rest)
  then show ?thesis
    using parseWord_bytes [OF no_prefix(4)] parse_params_bytes [of _ rest] by fastforce
next
  case (prefix t u rest)
  then show ?thesis
    using parseWord_bytes [OF prefix(2)] parseWord_bytes [OF prefix(3)]
      parse_params_bytes [of _ rest] by fastforce
qed

lemma set_params_text: "set (params_text ps) \<subseteq> {SP, COLON} \<union> \<Union> (set ` set ps)"
  by (induction ps rule: params_text.induct) (auto simp: last_param_text_def)

lemma set_line_text:
  "set (line_text m) \<subseteq>
     {SP, COLON} \<union> set (Prefix m) \<union> set (Command m) \<union> \<Union> (set ` set (Params m))"
  using set_params_text [of "Params m"] by (auto simp: line_text_def prefix_text_def)

lemma dropCR_subset: "set (dropCR s) \<subseteq> set s"
  by (auto simp: dropCR_def dest: in_set_butlastD)

lemma ReadMessage_InrE:
  assumes "ReadMessage r = (Inr m, r')"
  obtains line where "Scan r = (Some line, r')" "parseMessage line = Inr m"
  using assms by (auto simp: ReadMessage_def split: option.splits prod.splits)

lemma Scan_SomeE:
  assumes "Scan (NewReader s e) = (Some line, r')"
  obtains (line) l rest where "s = l @ LF # rest" "LF \<notin> set l" "length l < MaxMessageLen"
      "line = dropCR l" "r' = NewReader rest e"
    | (last) "s \<noteq> []" "LF \<notin> set s" "length s < MaxMessageLen" "line = dropCR s"
      "r' = \<lparr>scan_input = [], reader_err = e, scan_err = Some e\<rparr>"
proof (cases "LF \<in> set (take MaxMessageLen s)")
  case True
  then obtain l w where lw: "take MaxMessageLen s = l @ LF # w" "LF \<notin> set l"
    by (meson split_list_first)
  then obtain rest where s: "s = l @ LF # rest"
    by (metis append_Cons append_assoc append_take_drop_id)
  have len: "length l < MaxMessageLen"
    using arg_cong [OF lw(1), of length] by simp
  show ?thesis
    using assms Scan_line [OF lw(2) len, of rest e] s by (intro line [OF s lw(2) len]) auto
next
  case False
  show ?thesis
  proof (cases "MaxMessageLen \<le> length s")
    case True
    with False assms show ?thesis by (simp add: Scan_too_long)
  next
    case len: False
    with False have "LF \<notin> set s" by simp
    with len assms show ?thesis
      using Scan_last [of s e] last by (auto simp: scan_at_end_def split: if_splits)
  qed
qed

lemma ParseMessage_String: "storable m \<Longrightarrow> ParseMessage (String m) = Inr m"
  using ReadMessage_String [of m "[]" EOF] ReadMessage_Nil [of EOF]
  by (auto simp: ParseMessage_def split: prod.splits sum.splits error.splits)

lemma ParseMessage_String_only:
  assumes "ParseMessage (String m) = Inr m"
  shows "storable m"
proof -
  obtain r' where "ReadMessage (NewReader (String m) EOF) = (Inr m, r')"
    using assms by (auto simp: ParseMessage_def Let_def
        split: prod.splits sum.splits error.splits)
  then obtain line where line: "Scan (NewReader (String m) EOF) = (Some line, r')"
      "parseMessage line = Inr m"
    by (rule ReadMessage_InrE)
  from line(1) obtain l rest where l: "String m = l @ LF # rest" "LF \<notin> set l"
      "length l < MaxMessageLen" "line = dropCR l"
    by (rule Scan_SomeE) (auto simp: String_eq)
  have "LF \<notin> set line" using l(2,4) dropCR_subset by auto
  with parseMessage_bytes [OF line(2)] set_line_text [of m] have lf: "LF \<notin> set (line_text m)"
    by (auto simp: subset_iff)
  from l(1) have "(line_text m @ [CR]) @ LF # [] = l @ LF # rest" by (simp add: String_eq)
  with lf l(2) sep_unique [of "line_text m @ [CR]" LF "[]" l rest] have "l = line_text m @ [CR]"
    by simp
  with l(3,4) line(2) lf show ?thesis
    by (simp add: storable_def parse_line_text_iff Len_line_text)
qed

lemma storable_iff: "ParseMessage (String m) = Inr m \<longleftrightarrow> storable m"
  using ParseMessage_String ParseMessage_String_only by blast

section \<open>Streams of messages\<close>

lemma ReadAll_message:
  "ReadMessage r = (Inr m, r') \<Longrightarrow> ReadAll r = m # ReadAll r'"
  by (subst ReadAll.simps) simp

lemma ReadAll_error: "fst (ReadMessage r) = Inl e \<Longrightarrow> ReadAll r = []"
  by (subst ReadAll.simps) (auto split: prod.splits sum.splits)

lemma ReadAll_append:
  "(\<And>m. m \<in> set ms \<Longrightarrow> storable m) \<Longrightarrow>
     ReadAll (NewReader (concat (map String ms) @ rest) e) = ms @ ReadAll (NewReader rest e)"
proof (induction ms)
  case (Cons m ms)
  then have "ReadMessage (NewReader (String m @ concat (map String ms) @ rest) e)
      = (Inr m, NewReader (concat (map String ms) @ rest) e)"
    by (intro ReadMessage_String) simp
  with Cons show ?case by (simp add: ReadAll_message)
qed simp

lemma ReadMessage_blank: "fst (ReadMessage (NewReader ([CR, LF] @ rest) e)) = Inl EOF"
  using Scan_line [of "[CR]" rest e]
  by (simp add: ReadMessage_def MaxMessageLen_def dropCR_def parseMessage_def)

lemma parseMessage_size:
  assumes "parseMessage s = Inr m"
  shows "length (line_text m) \<le> length s"
  using assms
proof (cases rule: parseMessage_InrE)
  case (no_prefix rest)
  then show ?thesis
    using parseWord_size [OF no_prefix(4)] by (simp add: line_text_def prefix_text_def)
next
  case (prefix t u rest)
  have "u \<noteq> []" using prefix(3) by auto
  with parseWord_consumes [OF prefix(2)] parseWord_size [OF prefix(3)] prefix(1,4) show ?thesis
    by (simp add: line_text_def prefix_text_def)
qed

lemma length_dropCR: "length (dropCR s) \<le> length s"
  by (simp add: dropCR_def)

lemma read_message_bounds:
  assumes "ReadMessage (NewReader s e) = (Inr m, r')"
  shows "Len m \<le> MaxMessageLen + 1" and "LF \<notin> set (line_text m)"
proof -
  obtain line where line: "Scan (NewReader s e) = (Some line, r')" "parseMessage line = Inr m"
    using assms by (rule ReadMessage_InrE)
  from line(1) have l: "length line < MaxMessageLen \<and> LF \<notin> set line"
  proof (cases rule: Scan_SomeE)
    case (line l rest)
    then show ?thesis using length_dropCR [of l] dropCR_subset [of l] by auto
  next
    case last
    then show ?thesis using length_dropCR [of s] dropCR_subset [of s] by auto
  qed
  with parseMessage_size [OF line(2)] show "Len m \<le> MaxMessageLen + 1"
    by (simp add: Len_line_text)
  from l parseMessage_bytes [OF line(2)] set_line_text [of m] show "LF \<notin> set (line_text m)"
    by (auto simp: subset_iff)
qed

section \<open>The codec as an interface\<close>

text \<open>
  What a store that keeps messages as text relies on: a serialiser, a parser, and the set of
  messages that come back unchanged.
\<close>

locale message_codec =
  fixes encode :: "message \<Rightarrow> string"
    and decode :: "string \<Rightarrow> error + message"
    and fits :: "message \<Rightarrow> bool"
  assumes decode_encode: "fits m \<Longrightarrow> decode (encode m) = Inr m"
begin

lemma decode_all: "(\<And>m. m \<in> set ms \<Longrightarrow> fits m) \<Longrightarrow> map decode (map encode ms) = map Inr ms"
  by (induction ms) (simp_all add: decode_encode)

lemma encode_inj: "fits m \<Longrightarrow> fits m' \<Longrightarrow> encode m = encode m' \<Longrightarrow> m = m'"
  by (metis decode_encode sum.inject(2))

end

interpretation wire: message_codec String ParseMessage storable
  by unfold_locales (rule ParseMessage_String)

end
