(* ===== verification/Sql_Store.thy ===== *)
theory Sql_Store
  imports Log_Store Wire_Format
begin

text \<open>
  \<open>storage/sql/sql.go\<close>: the store on top of \<open>database/sql\<close>. The database itself is not code of
  the repository: it is the parameter \<open>db_ops\<close>, one function per SQL statement of the file, and
  \<open>sql_db\<close> states what the documentation of SQL promises for them. \<open>sql.Rows\<close> is the record
  \<open>rows\<close>: the outcome of \<open>Scan\<close> for each row still to come, and the error that \<open>Err\<close> reports
  after the last. A message is stored as its text, so the store keeps exactly the \<open>storable\<close>
  messages, and \<open>sql_db\<close> is a \<open>log_store\<close> for them.
\<close>

section \<open>Rows and database\<close>

record rows =
  row_results :: "(error + string) list"
  row_current :: "(error + string) option"
  row_err :: "error option"
  row_closed :: bool

definition rows_Next :: "rows \<Rightarrow> bool \<times> rows" where
  "rows_Next r =
     (if row_closed r then (False, r)
      else case row_results r of
             [] \<Rightarrow> (False, r\<lparr>row_closed := True\<rparr>)
           | x # xs \<Rightarrow> (True, r\<lparr>row_results := xs, row_current := Some x\<rparr>))"

text \<open>\<open>rows.Scan(&str)\<close> without a preceding successful \<open>Next\<close> is an error.\<close>

definition rows_Scan :: "rows \<Rightarrow> error + string" where
  "rows_Scan r = (case row_current r of None \<Rightarrow> Inl (ErrIO 0) | Some x \<Rightarrow> x)"

definition rows_Close :: "rows \<Rightarrow> rows" where
  "rows_Close r = r\<lparr>row_closed := True\<rparr>"

record 'd db_ops =
  db_CreateTable :: "'d \<Rightarrow> error option \<times> 'd"
  db_Insert :: "'d \<Rightarrow> string \<Rightarrow> string \<Rightarrow> error option \<times> 'd"
  db_Select :: "'d \<Rightarrow> string \<Rightarrow> (error + rows) \<times> 'd"
  db_Delete :: "'d \<Rightarrow> string \<Rightarrow> error option \<times> 'd"

section \<open>Operations\<close>

record 'd sql_store =
  db :: 'd
  haveSchema :: bool

record sql_cursor =
  c_rows :: rows
  c_err :: "error option"
  c_msg :: "message option"

definition sql_NewStore :: "'d \<Rightarrow> 'd sql_store" where
  "sql_NewStore d = \<lparr>db = d, haveSchema = False\<rparr>"

definition sql_GetChannel :: "'d db_ops \<Rightarrow> 'd sql_store \<Rightarrow> string \<Rightarrow> error option \<times> 'd sql_store" where
  "sql_GetChannel D s name =
     (if \<not> haveSchema s then
        (case db_CreateTable D (db s) of
           (Some err, d) \<Rightarrow> (Some err, s\<lparr>db := d\<rparr>)
         | (None, d) \<Rightarrow> (None, s\<lparr>db := d, haveSchema := True\<rparr>))
      else (None, s))"

definition sql_LogMessage ::
  "'d db_ops \<Rightarrow> 'd sql_store \<Rightarrow> string \<Rightarrow> message \<Rightarrow> error option \<times> 'd sql_store" where
  "sql_LogMessage D s name msg =
     (let (err, d) = db_Insert D (db s) name (String msg) in (err, s\<lparr>db := d\<rparr>))"

definition sql_Clear :: "'d db_ops \<Rightarrow> 'd sql_store \<Rightarrow> string \<Rightarrow> error option \<times> 'd sql_store" where
  "sql_Clear D s name = (let (err, d) = db_Delete D (db s) name in (err, s\<lparr>db := d\<rparr>))"

definition sql_Next :: "sql_cursor \<Rightarrow> sql_cursor" where
  "sql_Next c =
     (case rows_Next (c_rows c) of
        (False, r) \<Rightarrow>
          c\<lparr>c_rows := rows_Close r,
            c_err := Some (case row_err r of None \<Rightarrow> EOF | Some e \<Rightarrow> e)\<rparr>
      | (True, r) \<Rightarrow>
          (case rows_Scan r of
             Inl e \<Rightarrow> c\<lparr>c_rows := rows_Close r, c_err := Some e\<rparr>
           | Inr str \<Rightarrow>
               (case ParseMessage str of
                  Inl e \<Rightarrow> c\<lparr>c_rows := r, c_msg := None, c_err := Some e\<rparr>
                | Inr m \<Rightarrow> c\<lparr>c_rows := r, c_msg := Some m, c_err := None\<rparr>)))"

definition sql_Get :: "sql_cursor \<Rightarrow> message option \<times> error option" where
  "sql_Get c = (c_msg c, c_err c)"

definition sql_Replay :: "'d db_ops \<Rightarrow> 'd sql_store \<Rightarrow> string \<Rightarrow> (error + sql_cursor) \<times> 'd sql_store" where
  "sql_Replay D s name =
     (case db_Select D (db s) name of
        (Inl err, d) \<Rightarrow> (Inl err, s\<lparr>db := d\<rparr>)
      | (Inr r, d) \<Rightarrow> (Inr (sql_Next \<lparr>c_rows = r, c_err = None, c_msg = None\<rparr>), s\<lparr>db := d\<rparr>))"

text \<open>\<open>close_err\<close> is what \<open>Close\<close> of the rows returns; closing them again does nothing.\<close>

definition sql_Close :: "error option \<Rightarrow> sql_cursor \<Rightarrow> error option \<times> sql_cursor" where
  "sql_Close close_err c = (close_err, c\<lparr>c_rows := rows_Close (c_rows c)\<rparr>)"

definition sql_ops :: "'d db_ops \<Rightarrow> ('d sql_store, sql_cursor) store_ops" where
  "sql_ops D =
     \<lparr>op_GetChannel = sql_GetChannel D, op_LogMessage = sql_LogMessage D,
      op_Replay = sql_Replay D, op_Clear = sql_Clear D, op_Get = sql_Get, op_Next = sql_Next\<rparr>"

section \<open>What the database promises\<close>

definition select_texts :: "(string \<times> string) list \<Rightarrow> string \<Rightarrow> string list" where
  "select_texts t name = map snd (filter (\<lambda>r. fst r = name) t)"

text \<open>
  A fresh result set: open, no row read yet, its rows either all arrive or stop with an error
  that is not \<open>io.EOF\<close>.
\<close>

definition fresh_rows :: "rows \<Rightarrow> string list \<Rightarrow> bool" where
  "fresh_rows r texts \<longleftrightarrow>
     \<not> row_closed r \<and> row_results r = map Inr texts \<and> row_err r \<noteq> Some EOF"

locale sql_db =
  fixes D :: "'d db_ops"
    and table :: "'d \<Rightarrow> (string \<times> string) list"
  assumes create: "db_CreateTable D d = (e, d') \<Longrightarrow> table d' = table d"
    and insert: "db_Insert D d c m = (e, d') \<Longrightarrow>
      table d' = (if e = None then table d @ [(c, m)] else table d)"
    and select: "db_Select D d c = (q, d') \<Longrightarrow> table d' = table d"
    and select_rows: "db_Select D d c = (Inr r, d') \<Longrightarrow>
      \<exists>texts rest. fresh_rows r texts \<and> select_texts (table d) c = texts @ rest
        \<and> (row_err r = None \<longrightarrow> rest = [])"
    and delete: "db_Delete D d c = (e, d') \<Longrightarrow>
      table d' = (if e = None then filter (\<lambda>row. fst row \<noteq> c) (table d) else table d)"

section \<open>The contract\<close>

text \<open>
  Every stored text is the text of a storable message. The messages a cursor will deliver are
  the one it points at and those of the rows to come.
\<close>

definition texts_ok :: "string list \<Rightarrow> bool" where
  "texts_ok texts \<longleftrightarrow> list_all (\<lambda>s. \<exists>m. storable m \<and> s = String m) texts"

definition decoded :: "string list \<Rightarrow> message list" where
  "decoded texts = map (\<lambda>s. projr (ParseMessage s)) texts"

definition sql_cinv :: "sql_cursor \<Rightarrow> bool" where
  "sql_cinv c \<longleftrightarrow>
     (c_err c = None \<longrightarrow> c_msg c \<noteq> None
       \<and> (\<exists>texts. texts_ok texts \<and> fresh_rows (c_rows c) texts))"

definition sql_pending :: "sql_cursor \<Rightarrow> message list" where
  "sql_pending c =
     (if c_err c = None then the (c_msg c) # decoded (map projr (row_results (c_rows c))) else [])"

definition sql_fails :: "sql_cursor \<Rightarrow> error option" where
  "sql_fails c =
     (if c_err c = None then row_err (c_rows c) else if c_err c = Some EOF then None else c_err c)"

definition sql_inv :: "('d \<Rightarrow> (string \<times> string) list) \<Rightarrow> 'd sql_store \<Rightarrow> bool" where
  "sql_inv tab s \<longleftrightarrow> texts_ok (map snd (tab (db s)))"

definition sql_contents :: "('d \<Rightarrow> (string \<times> string) list) \<Rightarrow> 'd sql_store \<Rightarrow> string \<Rightarrow> message list" where
  "sql_contents tab s name = decoded (select_texts (tab (db s)) name)"

lemma texts_ok_simps [simp]:
  "texts_ok []"
  "texts_ok (s # texts) \<longleftrightarrow> (\<exists>m. storable m \<and> s = String m) \<and> texts_ok texts"
  "texts_ok (xs @ ys) \<longleftrightarrow> texts_ok xs \<and> texts_ok ys"
  by (auto simp: texts_ok_def)

lemma decoded_simps [simp]:
  "decoded [] = []"
  "decoded (xs @ ys) = decoded xs @ decoded ys"
  "storable m \<Longrightarrow> decoded (String m # texts) = m # decoded texts"
  by (simp_all add: decoded_def wire.decode_encode)

lemma texts_ok_filter: "texts_ok (map snd t) \<Longrightarrow> texts_ok (map snd (filter P t))"
  by (auto simp: texts_ok_def list_all_iff)

lemma select_texts_simps [simp]:
  "select_texts (t @ t') name = select_texts t name @ select_texts t' name"
  "select_texts [(c, m)] name = (if c = name then [m] else [])"
  "select_texts (filter (\<lambda>row. fst row \<noteq> c) t) name = (if name = c then [] else select_texts t name)"
  by (auto simp: select_texts_def) (auto intro!: arg_cong [of _ _ "map snd"] filter_cong)

text \<open>Advancing over fresh rows: the next storable text becomes the current message.\<close>

lemma sql_Next_fresh:
  assumes "fresh_rows (c_rows c) texts" and "texts_ok texts"
  shows "sql_cinv (sql_Next c) \<and> sql_pending (sql_Next c) = decoded texts
    \<and> sql_fails (sql_Next c) = row_err (c_rows c)"
proof (cases texts)
  case Nil
  with assms show ?thesis
    by (auto simp: sql_Next_def rows_Next_def fresh_rows_def rows_Close_def sql_cinv_def
        sql_pending_def sql_fails_def split: option.splits)
next
  case (Cons s ss)
  with assms(2) obtain m where m: "storable m" "s = String m" and ss: "texts_ok ss" by auto
  define r where "r = (c_rows c)\<lparr>row_results := map Inr ss, row_current := Some (Inr s)\<rparr>"
  have n: "rows_Next (c_rows c) = (True, r)" and r: "fresh_rows r ss"
    using assms(1) Cons by (simp_all add: rows_Next_def fresh_rows_def r_def)
  have "sql_Next c = c\<lparr>c_rows := r, c_msg := Some m, c_err := None\<rparr>"
    using m by (simp add: sql_Next_def n) (simp add: rows_Scan_def r_def wire.decode_encode)
  moreover have "row_results r = map Inr ss" "row_err r = row_err (c_rows c)" by (simp_all add: r_def)
  ultimately show ?thesis
    using m ss r Cons by (auto simp: sql_cinv_def sql_pending_def sql_fails_def comp_def)
qed

sublocale sql_db \<subseteq> sql: log_store "sql_ops D" "sql_inv table" "sql_contents table"
  sql_cinv sql_pending sql_fails storable
proof (unfold_locales, goal_cases)
  case (1 s name e s')
  then show ?case
    using create [of "db s"]
    by (auto simp: sql_ops_def sql_GetChannel_def sql_inv_def sql_contents_def fun_eq_iff
        split: if_splits prod.splits option.splits)
next
  case (2 s m name e s')
  then show ?case
    using insert [of "db s" name "String m"]
    by (auto simp: sql_ops_def sql_LogMessage_def sql_inv_def sql_contents_def fun_eq_iff
        split: prod.splits)
next
  case (3 s name r s')
  then show ?case
    using select [of "db s" name]
    by (auto simp: sql_ops_def sql_Replay_def sql_inv_def sql_contents_def fun_eq_iff
        split: prod.splits sum.splits)
next
  case (4 s name c s')
  then obtain r d where r: "db_Select D (db s) name = (Inr r, d)"
      "c = sql_Next \<lparr>c_rows = r, c_err = None, c_msg = None\<rparr>"
    by (auto simp: sql_ops_def sql_Replay_def split: prod.splits sum.splits)
  obtain texts rest where t: "fresh_rows r texts" "select_texts (table (db s)) name = texts @ rest"
      "row_err r = None \<longrightarrow> rest = []"
    using select_rows [OF r(1)] by (elim exE conjE) (rule that)
  have "texts_ok texts"
    using 4(1) t(2) texts_ok_filter by (metis sql_inv_def select_texts_def texts_ok_simps(3))
  with sql_Next_fresh [of "\<lparr>c_rows = r, c_err = None, c_msg = None\<rparr>" texts] t r(2) show ?case
    by (auto simp: sql_contents_def)
next
  case (5 s name e s')
  then show ?case
    using delete [of "db s" name]
    by (auto simp: sql_ops_def sql_Clear_def sql_inv_def sql_contents_def fun_eq_iff
        texts_ok_filter split: prod.splits)
next
  case (6 c)
  then show ?case by (auto simp: sql_ops_def sql_Get_def sql_pending_def sql_fails_def split: if_splits)
next
  case (7 c m ms)
  then show ?case by (auto simp: sql_ops_def sql_Get_def sql_pending_def sql_cinv_def split: if_splits)
next
  case (8 c m ms)
  then obtain texts where c: "c_err c = None" "texts_ok texts" "fresh_rows (c_rows c) texts"
      "ms = decoded (map projr (row_results (c_rows c)))"
    by (auto simp: sql_cinv_def sql_pending_def split: if_splits)
  then have "ms = decoded texts" by (simp add: fresh_rows_def comp_def)
  with sql_Next_fresh [OF c(3,2)] c(1) show ?case by (simp add: sql_ops_def sql_fails_def)
next
  case (9 c)
  then show ?case by (auto simp: sql_fails_def sql_cinv_def fresh_rows_def)
qed

context sql_db begin

text \<open>What a replay reads is a prefix of the log, and ends in an error when it is not all of it.\<close>

lemma replay_reads_prefix:
  assumes "sql_inv table s" and "list_all storable ms"
    and "log_all (sql_ops D) s name ms = Some s1" and "sql_Replay D s1 name = (Inr c, s2)"
    and "length (sql_contents table s name @ ms) < n"
  shows "\<exists>read rest e. read_cursor (sql_ops D) n c = (read, Some e)
    \<and> sql_contents table s name @ ms = read @ rest \<and> (e = EOF \<longrightarrow> rest = [])"
proof -
  have r: "op_Replay (sql_ops D) s1 name = (Inr c, s2)" using assms(4) by (simp add: sql_ops_def)
  from sql.log_all_contents [OF assms(1-3)]
  have s1: "sql_inv table s1" "sql_contents table s1 name = sql_contents table s name @ ms" by auto
  from sql.replay_cursor [OF s1(1) r] s1(2) obtain rest where
    c: "sql_cinv c" "sql_contents table s name @ ms = sql_pending c @ rest" "sql_fails c = None \<longrightarrow> rest = []"
    by auto
  then have "length (sql_pending c) < n" using assms(5) by simp
  from sql.read_cursor_pending [OF c(1) this] sql.fails_not_EOF [OF c(1)] c(2,3) show ?thesis
    by (cases "sql_fails c") auto
qed

end

section \<open>A database without failures\<close>

locale reliable_db = sql_db +
  assumes create_ok: "fst (db_CreateTable D d) = None"
    and insert_ok: "fst (db_Insert D d c m) = None"
    and delete_ok: "fst (db_Delete D d c) = None"
    and select_ok: "\<exists>r d'. db_Select D d c = (Inr r, d') \<and> row_err r = None"

sublocale reliable_db \<subseteq> reliable_sql: reliable_store "sql_ops D" "sql_inv table" "sql_contents table"
  sql_cinv sql_pending sql_fails storable
proof (unfold_locales, goal_cases)
  case (1 s name)
  then show ?case using create_ok [of "db s"]
    by (auto simp: sql_ops_def sql_GetChannel_def split: prod.splits option.splits)
next
  case (2 s name m)
  then show ?case using insert_ok [of "db s" name "String m"]
    by (auto simp: sql_ops_def sql_LogMessage_def split: prod.splits)
next
  case (3 s name)
  then show ?case using delete_ok [of "db s" name]
    by (auto simp: sql_ops_def sql_Clear_def split: prod.splits)
next
  case (4 s name)
  obtain r d where r: "db_Select D (db s) name = (Inr r, d)" "row_err r = None"
    using select_ok by blast
  obtain texts rest where t: "fresh_rows r texts" "select_texts (table (db s)) name = texts @ rest"
    using select_rows [OF r(1)] by blast
  have "texts_ok texts"
    using 4 t(2) texts_ok_filter by (metis sql_inv_def select_texts_def texts_ok_simps(3))
  with sql_Next_fresh [of "\<lparr>c_rows = r, c_err = None, c_msg = None\<rparr>" texts] t r show ?case
    by (simp add: sql_ops_def sql_Replay_def)
qed

section \<open>A concrete database\<close>

text \<open>A table as the list of its rows in the order of their ids: statements never fail.\<close>

definition table_db :: "(string \<times> string) list db_ops" where
  "table_db =
     \<lparr>db_CreateTable = (\<lambda>t. (None, t)),
      db_Insert = (\<lambda>t c m. (None, t @ [(c, m)])),
      db_Select = (\<lambda>t c. (Inr \<lparr>row_results = map Inr (select_texts t c), row_current = None,
                              row_err = None, row_closed = False\<rparr>, t)),
      db_Delete = (\<lambda>t c. (None, filter (\<lambda>row. fst row \<noteq> c) t))\<rparr>"

interpretation mem: reliable_db table_db "\<lambda>t. t"
  by unfold_locales (auto simp: table_db_def fresh_rows_def)

end
