(* ===== verification/Proxy_Log.thy ===== *)
theory Proxy_Log
  imports Proxy_Invariant Ephemeral_Store Sql_Store
begin

text \<open>
  The proxy against the contract of the store: what \<open>logMessage\<close> adds, what \<open>replayLog\<close>
  delivers and when it empties a log, and where a message for the user ends up. Everything is
  proved inside \<open>log_store\<close>, so it holds for each of the backends.
\<close>

section \<open>One message to the client\<close>

text \<open>Everything but the connections, the session behind the log, the clock and the trace.\<close>

definition same_rest :: "'s proxy \<Rightarrow> 's proxy \<Rightarrow> bool" where
  "same_rest p p' \<longleftrightarrow>
     messagelogs p' = messagelogs p \<and> haveMsgCache p' = haveMsgCache p
     \<and> cache_yourhost p' = cache_yourhost p \<and> cache_created p' = cache_created p
     \<and> cache_myinfo p' = cache_myinfo p \<and> serverPrefix p' = serverPrefix p"

lemma same_rest_refl [simp]: "same_rest p p"
  by (simp add: same_rest_def)

lemma same_rest_trans: "same_rest p q \<Longrightarrow> same_rest q r \<Longrightarrow> same_rest p r"
  by (simp add: same_rest_def)

lemma same_rest_dropClient [simp]: "same_rest p (dropClient q) = same_rest p q"
  by (simp add: same_rest_def dropClient_def shutdown_client_def shutdown_server_def Let_def
      split: prod.splits)

lemma same_rest_reset [simp]: "same_rest p (reset q) = same_rest p q"
  by (simp add: same_rest_def reset_def shutdown_client_def shutdown_server_def split: prod.splits)

text \<open>\<open>sendClient\<close>, branch by branch.\<close>

lemma sendClient_closed:
  "rwc (client p) = None \<Longrightarrow> sendClient env m p = Ret (Some ErrConnectionClosed, p)"
  by (simp add: sendClient_def)

lemma sendClient_failed:
  assumes "rwc (client p) = Some h" and "write_err env (tick p) = Some e"
  shows "sendClient env m p =
    Ret (Some e, dropClient (p\<lparr>tick := Suc (tick p), trace := trace p @ [Wrote h m False]\<rparr>))"
  using assms by (simp add: sendClient_def write_to_def)

lemma sendClient_written:
  assumes "rwc (client p) = Some h" and "write_err env (tick p) = None" and "params_present m"
  obtains cs ps where
    "Session_UpdateFromServer (client_session p) m = Ret cs"
    "Session_UpdateFromServer (preLogSession p) m = Ret ps"
    "sendClient env m p =
      Ret (None, p\<lparr>tick := Suc (tick p), trace := trace p @ [Wrote h m True],
        client := (client p)\<lparr>Session := cs\<rparr>, preLogSession := ps\<rparr>)"
proof -
  obtain cs where cs: "Session_UpdateFromServer (client_session p) m = Ret cs"
    using Session_update_Ret [OF assms(3)] .
  obtain ps where ps: "Session_UpdateFromServer (preLogSession p) m = Ret ps"
    using Session_update_Ret [OF assms(3)] .
  have "sendClient env m p =
      Ret (None, p\<lparr>tick := Suc (tick p), trace := trace p @ [Wrote h m True],
        client := (client p)\<lparr>Session := cs\<rparr>, preLogSession := ps\<rparr>)"
    using assms cs ps by (simp add: sendClient_def write_to_def)
  with cs ps that show thesis by blast
qed

text \<open>What every run of it keeps.\<close>

lemma sendClient_ensures:
  "ensures (sendClient env m p) (\<lambda>(e, p'). same_rest p p' \<and>
     (e = None \<longrightarrow> (\<exists>h. rwc (client p) = Some h \<and> rwc (client p') = Some h
        \<and> chan (client p') = chan (client p) \<and> server p' = server p
        \<and> trace p' = trace p @ [Wrote h m True])))"
proof (cases "rwc (client p)")
  case (Some h)
  then show ?thesis
    by (cases "write_err env (tick p)")
      (auto simp: sendClient_failed, auto simp: sendClient_def write_to_def same_rest_def intro!: ensures_bind)
qed (simp add: sendClient_closed)

lemma sendClient_returns:
  assumes "params_present m" shows "\<exists>e p'. sendClient env m p = Ret (e, p')"
proof (cases "rwc (client p)")
  case (Some h)
  show ?thesis
  proof (cases "write_err env (tick p)")
    case None
    then show ?thesis using sendClient_written [OF Some None assms] by metis
  qed (use Some sendClient_failed in fastforce)
qed (simp add: sendClient_closed)

lemma do_sendClient_returns:
  assumes "params_present m" shows "\<exists>p'. do_sendClient env m p = Ret p'"
proof -
  obtain e p' where "sendClient env m p = Ret (e, p')" using sendClient_returns [OF assms] by blast
  then show ?thesis by (simp add: do_sendClient_def)
qed

lemma do_sendServer_returns: "\<exists>p'. do_sendServer env m p = Ret p'"
  by (simp add: do_sendServer_def)

section \<open>Logging\<close>

context log_store begin

lemma logMessage_contents:
  assumes "store env = ops" and "inv (messagelogs p)" and "keeps m"
  shows "ensures (logMessage env m p) (\<lambda>p'.
    \<exists>s. p' = p\<lparr>messagelogs := s\<rparr> \<and> inv s
      \<and> (contents s = contents (messagelogs p)
          \<or> Command m \<in> set logged_commands
            \<and> contents s = (contents (messagelogs p))(Params m ! 0 := contents (messagelogs p) (Params m ! 0) @ [m])))"
proof -
  obtain e s where g: "op_GetChannel ops (messagelogs p) (Params m ! 0) = (e, s)" by force
  from get_channel [OF assms(2) g] have s: "inv s" "contents s = contents (messagelogs p)" by auto
  obtain e2 s2 where l: "op_LogMessage ops s (Params m ! 0) m = (e2, s2)" by force
  from log_message [OF s(1) assms(3) l] s(2)
  have s2: "inv s2" "contents s2 = contents (messagelogs p) \<or>
      contents s2 = (contents (messagelogs p))(Params m ! 0 := contents (messagelogs p) (Params m ! 0) @ [m])"
    by (auto split: if_splits)
  have same: "\<exists>s. p = p\<lparr>messagelogs := s\<rparr> \<and> inv s \<and> contents s = contents (messagelogs p)"
    using assms(2) by (intro exI [of _ "messagelogs p"]) simp
  show ?thesis unfolding logMessage_def Param_def
    using assms(1) g l s s2 same by (auto simp: Let_def)
qed

end

section \<open>Replaying a log\<close>

text \<open>The writes of a replay that reached its end, to the transport of the client.\<close>

definition delivered :: "'s proxy \<Rightarrow> 's proxy \<Rightarrow> message list \<Rightarrow> bool" where
  "delivered p p' ms \<longleftrightarrow>
     (ms = [] \<or> rwc (client p) \<noteq> None)
     \<and> trace p' = trace p @ map (\<lambda>m. Wrote (the (rwc (client p))) m True) ms"

lemma delivered_Nil [simp]: "delivered p p' [] \<longleftrightarrow> trace p' = trace p"
  by (simp add: delivered_def)

lemma delivered_Cons:
  "rwc (client p) = Some h \<Longrightarrow> rwc (client q) = Some h \<Longrightarrow> trace q = trace p @ [Wrote h m True] \<Longrightarrow>
     delivered q p' ms \<Longrightarrow> delivered p p' (m # ms)"
  by (simp add: delivered_def)

context log_store begin

lemma replay_loop_contents:
  assumes "store env = ops" and "inv (messagelogs p)" and "cinv c"
  shows "ensures (replay_loop env name n c p) (\<lambda>p'. inv (messagelogs p')
    \<and> (contents (messagelogs p') = contents (messagelogs p)
       \<or> fails c = None \<and> contents (messagelogs p') = (contents (messagelogs p))(name := [])
         \<and> delivered p p' (pending c)))"
  using assms(2,3)
proof (induction n arbitrary: c p)
  case (Suc n)
  show ?case
  proof (cases "pending c")
    case Nil
    obtain e s where cl: "op_Clear ops (messagelogs p) name = (e, s)" by force
    from clear [OF Suc.prems(1) cl] get_end [OF Suc.prems(2) Nil] Nil cl assms(1) Suc.prems(1)
      fails_not_EOF [OF Suc.prems(2)]
    show ?thesis by (cases "op_Get ops c") (auto split: option.splits)
  next
    case (Cons m ms)
    note nx = next_message [OF Suc.prems(2) Cons]
    have "ensures (unless_error (sendClient env m p) (replay_loop env name n (op_Next ops c)))
      (\<lambda>p'. inv (messagelogs p')
        \<and> (contents (messagelogs p') = contents (messagelogs p)
           \<or> fails c = None \<and> contents (messagelogs p') = (contents (messagelogs p))(name := [])
             \<and> delivered p p' (pending c)))" (is "ensures _ ?Q")
      unfolding unless_error_def
    proof (rule ensures_andThen [OF sendClient_ensures], split prod.split, intro allI impI)
      fix x e q
      assume "case x of (e, q) \<Rightarrow> same_rest p q \<and> (e = None \<longrightarrow> (\<exists>h. rwc (client p) = Some h
          \<and> rwc (client q) = Some h \<and> chan (client q) = chan (client p) \<and> server q = server p
          \<and> trace q = trace p @ [Wrote h m True]))" and "x = (e, q)"
      then have q: "messagelogs q = messagelogs p" "e = None \<Longrightarrow> \<exists>h. rwc (client p) = Some h
          \<and> rwc (client q) = Some h \<and> trace q = trace p @ [Wrote h m True]"
        by (auto simp: same_rest_def)
      show "ensures (if e \<noteq> None then Ret q else replay_loop env name n (op_Next ops c) q) ?Q"
      proof (cases e)
        case None
        with Suc.IH [of q "op_Next ops c"] nx q Cons Suc.prems(1) show ?thesis
          by (auto simp: ensures_def intro: delivered_Cons)
      qed (use q Suc.prems(1) in simp)
    qed
    then show ?thesis using get_message [OF Suc.prems(2) Cons] assms(1) by (simp del: fun_upd_apply)
  qed
qed simp

lemma replay_loop_returns:
  assumes "store env = ops" and "cinv c" and "length (pending c) < n"
    and "list_all params_present (pending c)"
  shows "\<exists>p'. replay_loop env name n c p = Ret p'"
  using assms(2-4)
proof (induction n arbitrary: c p)
  case (Suc n)
  show ?case
  proof (cases "pending c")
    case Nil
    from get_end [OF Suc.prems(1) Nil] assms(1) show ?thesis
      by (cases "op_Get ops c") (auto split: option.splits)
  next
    case (Cons m ms)
    obtain e q where q: "sendClient env m p = Ret (e, q)"
      using sendClient_returns [of m env p] Suc.prems(3) Cons by auto
    show ?thesis
      using get_message [OF Suc.prems(1) Cons] next_message [OF Suc.prems(1) Cons] assms(1) q
        Suc.IH [of "op_Next ops c" q] Suc.prems Cons
      by (cases e) auto
  qed
qed simp

text \<open>A replay delivers the whole log and empties it, or leaves it as it was.\<close>

lemma replayLog_all_or_nothing:
  assumes "store env = ops" and "inv (messagelogs p)"
  shows "ensures (replayLog env name p) (\<lambda>p'. inv (messagelogs p')
    \<and> (contents (messagelogs p') = contents (messagelogs p)
       \<or> contents (messagelogs p') = (contents (messagelogs p))(name := [])
         \<and> delivered p p' (contents (messagelogs p) name)))"
proof -
  obtain e s where g: "op_GetChannel ops (messagelogs p) name = (e, s)" by force
  from get_channel [OF assms(2) g] have s: "inv s" "contents s = contents (messagelogs p)" by auto
  obtain r s2 where r: "op_Replay ops s name = (r, s2)" by force
  from replay [OF s(1) r] s(2) have s2: "inv s2" "contents s2 = contents (messagelogs p)" by auto
  show ?thesis
  proof (cases r)
    case (Inr c)
    from replay_cursor [OF s(1) r [unfolded Inr]] s(2) have c: "cinv c"
      "fails c = None \<Longrightarrow> pending c = contents (messagelogs p) name" by auto
    from replay_loop_contents [OF assms(1) _ c(1), of "p\<lparr>messagelogs := s2\<rparr>" name "fuel env"] s2 c(2)
    show ?thesis using assms(1) g r Inr s
      by (auto simp: replayLog_def Let_def ensures_def delivered_def)
  qed (use assms(1) g r s s2 in \<open>auto simp: replayLog_def Let_def\<close>)
qed

lemma replayLog_returns:
  assumes "store env = ops" and "inv (messagelogs p)"
    and "list_all params_present (contents (messagelogs p) name)"
    and "length (contents (messagelogs p) name) < fuel env"
  shows "\<exists>p'. replayLog env name p = Ret p'"
proof -
  obtain e s where g: "op_GetChannel ops (messagelogs p) name = (e, s)" by force
  from get_channel [OF assms(2) g] have s: "inv s" "contents s = contents (messagelogs p)" by auto
  obtain r s2 where r: "op_Replay ops s name = (r, s2)" by force
  show ?thesis
  proof (cases r)
    case (Inr c)
    from replay_cursor [OF s(1) r [unfolded Inr]] s(2) have c: "cinv c"
      "\<exists>rest. contents (messagelogs p) name = pending c @ rest" by auto
    then have "length (pending c) < fuel env" "list_all params_present (pending c)"
      using assms(3,4) by auto
    from replay_loop_returns [OF assms(1) c(1) this] g r Inr assms(1)
    show ?thesis by (auto simp: replayLog_def Let_def)
  qed (use assms(1) g r in \<open>auto simp: replayLog_def Let_def\<close>)
qed

lemma replay_loop_delivers:
  assumes "store env = ops" and "inv (messagelogs p)" and "cinv c" and "fails c = None"
    and "rwc (client p) = Some h" and "\<forall>k<length (pending c). write_err env (tick p + k) = None"
    and "list_all params_present (pending c)" and "length (pending c) < n"
  shows "\<exists>p'. replay_loop env name n c p = Ret p'
    \<and> trace p' = trace p @ map (\<lambda>m. Wrote h m True) (pending c)
    \<and> messagelogs p' = snd (op_Clear ops (messagelogs p) name)"
  using assms(2-)
proof (induction n arbitrary: c p)
  case (Suc n)
  show ?case
  proof (cases "pending c")
    case Nil
    from get_end [OF Suc.prems(2) Nil] assms(1) Suc.prems(3) Nil show ?thesis
      by (cases "op_Get ops c") (auto split: option.splits)
  next
    case (Cons m ms)
    from Suc.prems(5) [rule_format, of 0] Suc.prems(6) Cons have w: "write_err env (tick p) = None" "params_present m"
      by auto
    obtain cs ps where q: "sendClient env m p = Ret (None, p\<lparr>tick := Suc (tick p),
        trace := trace p @ [Wrote h m True], client := (client p)\<lparr>Session := cs\<rparr>, preLogSession := ps\<rparr>)"
      using sendClient_written [OF Suc.prems(4) w] .
    have ticks: "\<forall>k<length ms. write_err env (Suc (tick p) + k) = None"
      using Suc.prems(5) Cons by (auto dest: spec [of _ "Suc k" for k])
    show ?thesis
      using get_message [OF Suc.prems(2) Cons] next_message [OF Suc.prems(2) Cons] assms(1) q ticks
        Suc.IH [of "p\<lparr>tick := Suc (tick p), trace := trace p @ [Wrote h m True],
          client := (client p)\<lparr>Session := cs\<rparr>, preLogSession := ps\<rparr>" "op_Next ops c"] Suc.prems Cons
      by auto
  qed
qed simp

end

section \<open>Where a message goes\<close>

text \<open>A message for the user: the switch sends it to the client or logs it.\<close>

lemma user_message_params:
  assumes "Validate m = None" and "Command m \<in> {''PRIVMSG'', ''NOTICE''}"
  shows "Params m \<noteq> []" and "params_present m" and "Command m \<in> set logged_commands"
  using assms by (auto simp: Validate_None params_present_def logged_commands_def)

lemma handle_user_message:
  assumes "Validate m = None" and "Command m \<in> {''PRIVMSG'', ''NOTICE''}"
  obtains q where "client q = client p" "messagelogs q = messagelogs p" "trace q = trace p" "tick q = tick p"
    and "handleServerEvent env (Some m) p =
      (if HaveChannel (client_session p) (Params m ! 0) \<or> IsMe (client_session p) (Params m ! 0)
       then sendClient_or_log env m q else logMessage env m q)"
proof -
  define q where "q = p\<lparr>server := (server p)\<lparr>Session := (server_session p)
    \<lparr>Handshake := Handshake_UpdateFromServer (Handshake (server_session p)) m\<rparr>\<rparr>\<rparr>"
  have "Session_UpdateFromServer (server_session p) m =
      Ret ((server_session p)\<lparr>Handshake := Handshake_UpdateFromServer (Handshake (server_session p)) m\<rparr>)"
    using assms(2) by (intro Session_update_other_channels) auto
  then have "handleServerEvent env (Some m) p = handle_server_command env m q"
    using assms(1) by (simp add: handleServerEvent_def q_def)
  also have "\<dots> = (if HaveChannel (client_session p) (Params m ! 0) \<or> IsMe (client_session p) (Params m ! 0)
      then sendClient_or_log env m q else logMessage env m q)"
    using assms(2) user_message_params(1) [OF assms]
    by (auto simp: handle_server_command_def passed_through_def nick_errors_def q_def)
  finally show thesis by (intro that [of q]) (simp_all add: q_def)
qed

context reliable_store begin

text \<open>With a store that reports no error, \<open>logMessage\<close> appends.\<close>

lemma logMessage_appends:
  assumes "store env = ops" and "inv (messagelogs p)" and "keeps m"
    and "Command m \<in> set logged_commands" and "Params m \<noteq> []"
  obtains s where "logMessage env m p = Ret (p\<lparr>messagelogs := s\<rparr>)" and "inv s"
    and "contents s = (contents (messagelogs p))(Params m ! 0 := contents (messagelogs p) (Params m ! 0) @ [m])"
proof -
  let ?name = "Params m ! 0"
  obtain e s1 where g: "op_GetChannel ops (messagelogs p) ?name = (e, s1)" by force
  from no_error(1) [OF assms(2)] g have e: "e = None" by (metis fst_conv)
  from get_channel [OF assms(2) g] have s1: "inv s1" "contents s1 = contents (messagelogs p)" by auto
  obtain e2 s2 where l: "op_LogMessage ops s1 ?name m = (e2, s2)" by force
  from no_error(2) [OF s1(1)] l have e2: "e2 = None" by (metis fst_conv)
  from log_message [OF s1(1) assms(3) l] e2 s1(2)
  have s2: "inv s2" "contents s2 = (contents (messagelogs p))(?name := contents (messagelogs p) ?name @ [m])"
    by auto
  have "Command m \<noteq> ''QUIT''" using assms(4) by (auto simp: logged_commands_def)
  then have "logMessage env m p = Ret (p\<lparr>messagelogs := s2\<rparr>)"
    using assms(1,4,5) g e l by (simp add: logMessage_def)
  with s2 that show thesis by blast
qed

lemma sendClient_or_log_keeps:
  assumes "store env = ops" and "inv (messagelogs p)" and "keeps m"
    and "Command m \<in> set logged_commands" and "params_present m" and "Params m \<noteq> []"
  obtains p' where "sendClient_or_log env m p = Ret p'" and "inv (messagelogs p')"
    and "(\<exists>h. rwc (client p) = Some h \<and> trace p' = trace p @ [Wrote h m True]
           \<and> contents (messagelogs p') = contents (messagelogs p))
      \<or> contents (messagelogs p') =
          (contents (messagelogs p))(Params m ! 0 := contents (messagelogs p) (Params m ! 0) @ [m])"
proof -
  obtain e q where q: "sendClient env m p = Ret (e, q)" using sendClient_returns [OF assms(5)] by blast
  from ensuresD [OF sendClient_ensures q]
  have q2: "messagelogs q = messagelogs p"
    "e = None \<Longrightarrow> \<exists>h. rwc (client p) = Some h \<and> trace q = trace p @ [Wrote h m True]"
    by (auto simp: same_rest_def)
  show thesis
  proof (cases e)
    case None
    then show thesis using q q2 assms(2) by (intro that [of q]) (auto simp: sendClient_or_log_def)
  next
    case (Some err)
    from assms(2) q2(1) have "inv (messagelogs q)" by simp
    from logMessage_appends [OF assms(1) this assms(3,4,6)] obtain s where
      "logMessage env m q = Ret (q\<lparr>messagelogs := s\<rparr>)" "inv s"
      "contents s = (contents (messagelogs p))(Params m ! 0 := contents (messagelogs p) (Params m ! 0) @ [m])"
      using q2(1) by auto
    with Some q show thesis by (intro that [of "q\<lparr>messagelogs := s\<rparr>"]) (auto simp: sendClient_or_log_def)
  qed
qed

text \<open>A private message or a notice is written to the client or is in the log of its target.\<close>

lemma server_message_not_lost:
  assumes "store env = ops" and "inv (messagelogs p)" and "keeps m" and "Validate m = None"
    and "Command m \<in> {''PRIVMSG'', ''NOTICE''}"
  shows "\<exists>p'. handleServerEvent env (Some m) p = Ret p' \<and> inv (messagelogs p')
    \<and> ((\<exists>h. rwc (client p) = Some h \<and> trace p' = trace p @ [Wrote h m True]
           \<and> contents (messagelogs p') = contents (messagelogs p))
      \<or> contents (messagelogs p') =
          (contents (messagelogs p))(Params m ! 0 := contents (messagelogs p) (Params m ! 0) @ [m]))"
proof -
  note ps = user_message_params [OF assms(4,5)]
  obtain q where q: "client q = client p" "messagelogs q = messagelogs p" "trace q = trace p" "tick q = tick p"
    and h: "handleServerEvent env (Some m) p =
      (if HaveChannel (client_session p) (Params m ! 0) \<or> IsMe (client_session p) (Params m ! 0)
       then sendClient_or_log env m q else logMessage env m q)"
    using handle_user_message [OF assms(4,5)] .
  have iq: "inv (messagelogs q)" using assms(2) q(2) by simp
  obtain p1 where "sendClient_or_log env m q = Ret p1" "inv (messagelogs p1)"
    "(\<exists>h. rwc (client p) = Some h \<and> trace p1 = trace p @ [Wrote h m True]
         \<and> contents (messagelogs p1) = contents (messagelogs p))
      \<or> contents (messagelogs p1) =
          (contents (messagelogs p))(Params m ! 0 := contents (messagelogs p) (Params m ! 0) @ [m])"
    using sendClient_or_log_keeps [OF assms(1) iq assms(3) ps(3,2,1)] q by auto
  moreover obtain s where "logMessage env m q = Ret (q\<lparr>messagelogs := s\<rparr>)" "inv s"
    "contents s = (contents (messagelogs p))(Params m ! 0 := contents (messagelogs p) (Params m ! 0) @ [m])"
    using logMessage_appends [OF assms(1) iq assms(3) ps(3,1)] q by auto
  ultimately show ?thesis unfolding h by auto
qed

text \<open>A client that takes every message gets the whole log, in order, and the log is emptied.\<close>

lemma replayLog_delivers:
  assumes "store env = ops" and "inv (messagelogs p)" and "rwc (client p) = Some h"
    and "\<forall>k<length (contents (messagelogs p) name). write_err env (tick p + k) = None"
    and "list_all params_present (contents (messagelogs p) name)"
    and "length (contents (messagelogs p) name) < fuel env"
  shows "\<exists>p'. replayLog env name p = Ret p'
    \<and> trace p' = trace p @ map (\<lambda>m. Wrote h m True) (contents (messagelogs p) name)
    \<and> contents (messagelogs p') = (contents (messagelogs p))(name := [])"
proof -
  obtain e s where g: "op_GetChannel ops (messagelogs p) name = (e, s)" by force
  from no_error(1) [OF assms(2)] g have e: "e = None" by (metis fst_conv)
  from get_channel [OF assms(2) g] have s: "inv s" "contents s = contents (messagelogs p)" by auto
  from replay_ok [OF s(1)] obtain c s2 where r: "op_Replay ops s name = (Inr c, s2)" "fails c = None" by blast
  from replay_cursor [OF s(1) r(1)] r(2) s(2) have c: "cinv c" "pending c = contents (messagelogs p) name" by auto
  from replay [OF s(1) r(1)] s(2) have s2: "inv s2" "contents s2 = contents (messagelogs p)" by auto
  obtain e3 s3 where cl: "op_Clear ops s2 name = (e3, s3)" by force
  from no_error(3) [OF s2(1)] cl have "e3 = None" by (metis fst_conv)
  with clear [OF s2(1) cl] s2(2) have s3: "contents s3 = (contents (messagelogs p))(name := [])" by auto
  from replay_loop_delivers [OF assms(1) _ c(1) r(2), of "p\<lparr>messagelogs := s2\<rparr>" h "fuel env" name] assms(3-6) c(2) s2(1) cl
  obtain p' where "replay_loop env name (fuel env) c (p\<lparr>messagelogs := s2\<rparr>) = Ret p'"
    "trace p' = trace p @ map (\<lambda>m. Wrote h m True) (contents (messagelogs p) name)" "messagelogs p' = s3"
    by auto
  then show ?thesis using assms(1) g e r(1) s3 by (auto simp: replayLog_def Let_def)
qed

end

end
