(* ===== verification/Proxy_Handshake.thy ===== *)
theory Proxy_Handshake
  imports Proxy_Log
begin

text \<open>
  The claim in the comments of \<open>handleHandshakeMessage\<close> that client and server agree on the
  state of the handshake as long as the server has not finished it. The messages of the log
  are replayed to the client too, so the claim needs that no log holds a message that moves
  a handshake: \<open>logMessage\<close> only stores the commands of \<open>logged_commands\<close>.
\<close>

section \<open>What the logs hold\<close>

definition quiet :: "message \<Rightarrow> bool" where
  "quiet m \<longleftrightarrow> Command m \<notin> {RPL_ENDOFMOTD, ERR_NOMOTD} \<union> set nick_errors"

definition quiet_logs :: "(string \<Rightarrow> message list) \<Rightarrow> bool" where
  "quiet_logs f \<longleftrightarrow> (\<forall>name. \<forall>m\<in>set (f name). Command m \<in> set logged_commands \<and> Params m \<noteq> [])"

lemma quiet_logged: "Command m \<in> set logged_commands \<Longrightarrow> quiet m"
  by (auto simp: quiet_def logged_commands_def nick_errors_def)

lemma accept_client_logs [simp]: "messagelogs (accept_client env h p) = messagelogs p"
  by (rule accept_client_cases [where p = p and env = env and h = h]) simp_all

text \<open>Nothing the handlers send changes a log.\<close>

lemma sendClient_logs: "ensures (sendClient env m p) (\<lambda>(e, q). messagelogs q = messagelogs p)"
  using sendClient_ensures [of env m p] by (auto simp: ensures_def same_rest_def)

lemma send_names_logs:
  "ensures (send_names env name nick us p) (\<lambda>(e, q). messagelogs q = messagelogs p)"
proof (induction us arbitrary: p)
  case (Cons u us)
  show ?case unfolding send_names.simps Let_def
    by (rule ensures_andThen [OF sendClient_logs]) (use Cons in \<open>auto simp: ensures_def split: if_splits\<close>)
qed simp

lemma do_sendClient_logs: "ensures (do_sendClient env m p) (\<lambda>q. messagelogs q = messagelogs p)"
  unfolding do_sendClient_def by (rule ensures_andThen [OF sendClient_logs]) auto

lemma do_sendServer_logs: "ensures (do_sendServer env m p) (\<lambda>q. messagelogs q = messagelogs p)"
  by (auto simp: do_sendServer_def sendServer_def write_to_def Let_def split: option.splits)

section \<open>Agreement\<close>

definition agree :: "'s proxy \<Rightarrow> bool" where
  "agree p \<longleftrightarrow> IsClosed (server p) \<or> Done (Handshake (server_session p))
     \<or> Handshake (client_session p) = Handshake (server_session p)"

lemma agree_dropClient [simp]: "agree (dropClient p)"
  by (simp add: agree_def)

lemma agree_reset [simp]: "agree (reset p)"
  by (simp add: agree_def)

lemma agree_cong:
  "server p' = server p \<Longrightarrow> Handshake (client_session p') = Handshake (client_session p) \<Longrightarrow> agree p' = agree p"
  by (simp add: agree_def)

text \<open>
  A message to the client. \<open>behind\<close> is the state of the proxy between the two updates for a
  message of the server: the server's session is ahead by one message.
\<close>

definition behind :: "message \<Rightarrow> 's proxy \<Rightarrow> bool" where
  "behind m p \<longleftrightarrow> IsClosed (server p) \<or> Done (Handshake (server_session p))
     \<or> Handshake_UpdateFromServer (Handshake (client_session p)) m = Handshake (server_session p)
       \<and> rwc (client p) \<noteq> None"

lemma quiet_frame: "quiet m \<Longrightarrow> Handshake_UpdateFromServer h m = h"
  by (rule handshake_frame) (simp add: quiet_def)

lemma agree_sendClient_behind:
  assumes "behind m p" shows "ensures (sendClient env m p) (\<lambda>(e, p'). agree p')"
proof (cases "rwc (client p)")
  case (Some h)
  show ?thesis
  proof (cases "write_err env (tick p)")
    case None
    with Some assms show ?thesis
      by (auto simp: sendClient_def write_to_def behind_def agree_def Session_update_Handshake intro!: ensures_bind)
  qed (use Some sendClient_failed in fastforce)
qed (use assms in \<open>auto simp: sendClient_closed behind_def agree_def\<close>)

lemma agree_sendClient:
  assumes "agree p" and "quiet m" shows "ensures (sendClient env m p) (\<lambda>(e, p'). agree p')"
proof (cases "rwc (client p)")
  case (Some h)
  with assms have "behind m p" by (simp add: behind_def agree_def quiet_frame)
  then show ?thesis by (rule agree_sendClient_behind)
qed (use assms in \<open>simp add: sendClient_closed\<close>)

lemma agree_sendServer:
  assumes "IsClosed (server p) \<or> Done (Handshake (server_session p))
    \<or> Handshake (client_session p) = Handshake_UpdateFromClient (Handshake (server_session p)) m"
  shows "ensures (do_sendServer env m p) agree"
proof (cases "rwc (server p)")
  case (Some h)
  with assms show ?thesis
    by (cases "write_err env (tick p)")
      (auto simp: do_sendServer_def sendServer_def write_to_def agree_def Session_UpdateFromClient_def)
next
  case None
  then show ?thesis by (simp add: do_sendServer_def sendServer_def agree_def IsClosed_def)
qed

lemma agree_send_messages:
  "agree p \<Longrightarrow> list_all quiet ms \<Longrightarrow> ensures (send_messages env ms p) (\<lambda>(e, p'). agree p')"
proof (induction ms arbitrary: p)
  case (Cons m ms)
  then show ?case by (auto intro!: ensures_andThen [OF agree_sendClient])
qed simp

lemma agree_client_session:
  "Handshake s = Handshake (client_session p) \<Longrightarrow> agree (p\<lparr>client := (client p)\<lparr>Session := s\<rparr>\<rparr>) = agree p"
  by (simp add: agree_def)

lemma Handshake_channels [simp]:
  "Handshake (put_channel s name c) = Handshake s" "Handshake (fst (GetChannel s name)) = Handshake s"
  by (simp_all add: put_channel_def GetChannel_def Let_def split: prod.splits)

lemma agree_send_names: "agree p \<Longrightarrow> ensures (send_names env name nick us p) (\<lambda>(e, p'). agree p')"
proof (induction us arbitrary: p)
  case (Cons u us)
  have "quiet \<lparr>Prefix = serverPrefix p, Command = RPL_NAMEREPLY, Params = [nick, ''='', name, u]\<rparr>"
    by (simp add: quiet_def nick_errors_def)
  then show ?case using Cons
    by (auto simp: Let_def agree_client_session intro!: ensures_andThen [OF agree_sendClient])
qed simp

lemma agree_logMessage: "agree p \<Longrightarrow> ensures (logMessage env m p) agree"
  by (auto simp: logMessage_def Let_def agree_def split: prod.splits intro!: ensures_bind)

lemma agree_sendClient_or_log:
  assumes "agree p" and "quiet m" shows "ensures (sendClient_or_log env m p) agree"
  unfolding sendClient_or_log_def
  by (rule ensures_andThen [OF agree_sendClient [OF assms]]) (auto intro: agree_logMessage)

lemma agree_do_sendClient:
  assumes "agree p" and "quiet m" shows "ensures (do_sendClient env m p) agree"
  unfolding do_sendClient_def by (rule ensures_andThen [OF agree_sendClient [OF assms]]) auto

lemma agree_welcome:
  assumes "agree p" and "quiet m" shows "ensures (handleWelcome env m p) agree"
proof -
  have "agree (p\<lparr>serverPrefix := Prefix m, server := set_ClientID i (server p)\<rparr>)" for i
    using assms(1) by (simp add: agree_def set_ClientID_def)
  then have "ensures (andThen (sendClient env m (p\<lparr>serverPrefix := Prefix m, server := set_ClientID i (server p)\<rparr>))
      (\<lambda>(err, p). if err = None then Ret (p\<lparr>client := set_ClientID i (client p)\<rparr>) else Ret p)) agree" for i
    by (rule ensures_andThen [OF agree_sendClient [OF _ assms(2)]])
      (auto simp: set_ClientID_def agree_client_session)
  then show ?thesis unfolding handleWelcome_def Let_def
    by (intro ensures_bind [where r = "Param m 1"]) (auto split: sum.split)
qed

section \<open>The handlers keep the agreement\<close>

context log_store begin

text \<open>The store is in a good state, and the two sides agree.\<close>

abbreviation settled where
  "settled p \<equiv> inv (messagelogs p) \<and> quiet_logs (contents (messagelogs p)) \<and> agree p"

lemma settled_sendClient:
  assumes "store env = ops" and "settled p" and "quiet m \<or> behind m p"
  shows "ensures (sendClient env m p) (\<lambda>(e, p'). settled p')"
  using sendClient_logs [of env m p] agree_sendClient [of p m env] agree_sendClient_behind [of m p env] assms
  by (auto simp: ensures_def)

lemma agree_replay_loop:
  assumes "store env = ops"
  shows "agree p \<Longrightarrow> cinv c \<Longrightarrow> list_all quiet (pending c) \<Longrightarrow> ensures (replay_loop env name n c p) agree"
proof (induction n arbitrary: c p)
  case (Suc n)
  show ?case
  proof (cases "pending c")
    case Nil
    from get_end [OF Suc.prems(2) Nil] Suc.prems(1) assms show ?thesis
      by (cases "op_Get ops c") (auto simp: agree_def split: option.splits)
  next
    case (Cons m ms)
    with get_message [OF Suc.prems(2) Cons] next_message [OF Suc.prems(2) Cons] Suc assms
    show ?thesis by (auto intro!: ensures_unless [OF agree_sendClient])
  qed
qed simp

lemma agree_replayLog:
  assumes "store env = ops" and "settled p"
  shows "ensures (replayLog env name p) agree"
proof -
  obtain e s where g: "op_GetChannel ops (messagelogs p) name = (e, s)" by force
  from get_channel [OF _ g] assms(2) have s: "inv s" "contents s = contents (messagelogs p)" by auto
  obtain r s2 where r: "op_Replay ops s name = (r, s2)" by force
  have a: "agree (p\<lparr>messagelogs := s'\<rparr>)" for s' using assms(2) by (simp add: agree_def)
  show ?thesis
  proof (cases r)
    case (Inr c)
    from replay_cursor [OF s(1) r [unfolded Inr]] s(2) obtain rest where
      c: "cinv c" "contents (messagelogs p) name = pending c @ rest" by auto
    with assms(2) have "list_all quiet (pending c)"
      by (auto simp: quiet_logs_def list_all_iff intro!: quiet_logged dest!: spec [of _ name])
    from agree_replay_loop [OF assms(1) a c(1) this] g r Inr assms(1) a
    show ?thesis by (auto simp: replayLog_def Let_def)
  qed (use assms(1) g r a in \<open>auto simp: replayLog_def Let_def\<close>)
qed

lemma settled_replayLog:
  assumes "store env = ops" and "settled p" shows "ensures (replayLog env name p) settled"
  using agree_replayLog [OF assms, of name] replayLog_all_or_nothing [OF assms(1), of p name] assms(2)
  by (auto simp: ensures_def quiet_logs_def split: if_splits)

lemma settled_send_names:
  assumes "store env = ops" and "settled p"
  shows "ensures (send_names env name nick us p) (\<lambda>(e, p'). settled p')"
  using send_names_logs [of env name nick us p] agree_send_names [of p env name nick us] assms
  by (auto simp: ensures_def)

lemma settled_cong:
  "messagelogs p' = messagelogs p \<Longrightarrow> server p' = server p \<Longrightarrow>
     Handshake (client_session p') = Handshake (client_session p) \<Longrightarrow> settled p \<Longrightarrow> settled p'"
  by (simp add: agree_def)

lemma settled_rejoin:
  assumes "store env = ops" and "settled p"
  shows "ensures (rejoinChannel env name p) settled"
  unfolding rejoinChannel_def Let_def
proof (intro ensures_unless settled_sendClient settled_send_names settled_replayLog assms(1))
  fix q assume "settled q"
  then show "ensures (if Topic (preLogState q name) \<noteq> []
      then sendClient env \<lparr>Prefix = serverPrefix q, Command = RPL_TOPIC,
        Params = [ClientID_String (ClientID (client_session q)), name, Topic (preLogState q name)]\<rparr> q
      else Ret (None, q)) (\<lambda>(e, p). settled p)"
    by (auto simp: quiet_def nick_errors_def intro!: settled_sendClient assms(1))
next
  fix q assume "settled q"
  then show "settled (q\<lparr>client := (client q)\<lparr>Session := fst (GetChannel (client_session q) name)\<rparr>,
      tick := Suc (tick (q\<lparr>client := (client q)\<lparr>Session := fst (GetChannel (client_session q) name)\<rparr>\<rparr>))\<rparr>)"
    by (rule settled_cong [rotated 3]) simp_all
qed (simp_all add: quiet_def nick_errors_def assms)

end

section \<open>Events\<close>

text \<open>The client's session is ahead by one message when its handler is called.\<close>

definition ahead :: "message \<Rightarrow> 's proxy \<Rightarrow> bool" where
  "ahead m p \<longleftrightarrow> IsClosed (server p) \<or> Done (Handshake (server_session p))
     \<or> Handshake (client_session p) = Handshake_UpdateFromClient (Handshake (server_session p)) m"

lemma ahead_other: "ahead m p \<Longrightarrow> Command m \<notin> {''USER'', ''NICK''} \<Longrightarrow> agree p"
  by (simp add: ahead_def agree_def handshake_frame(1))

lemma agree_sendServer_same:
  "agree p \<Longrightarrow> Command m \<notin> {''USER'', ''NICK''} \<Longrightarrow> ensures (do_sendServer env m p) agree"
  by (rule agree_sendServer) (simp add: agree_def handshake_frame(1))

lemma quiet_welcome: "list_all quiet (welcome_messages p)"
  by (simp add: welcome_messages_def Let_def quiet_def nick_errors_def)

lemma agree_handshake:
  assumes "ahead m p" shows "ensures (handleHandshakeMessage env m p) agree"
proof -
  have s: "ensures (do_sendServer env m p) agree"
    by (rule agree_sendServer) (use assms in \<open>simp add: ahead_def\<close>)
  show ?thesis
  proof (cases "Done (Handshake (server_session p))")
    case True
    then have p: "agree p" by (simp add: agree_def)
    have "ensures (do_sendServer env (msg_of ''MOTD'' [])
        (q\<lparr>client := set_ClientID (ClientID (server_session q)) (client q)\<rparr>)) agree" if "agree q" for q
      by (rule agree_sendServer_same) (use that in \<open>simp_all add: set_ClientID_def agree_client_session\<close>)
    then have w: "ensures (unless_error (send_messages env (welcome_messages p) p) (\<lambda>q.
        do_sendServer env (msg_of ''MOTD'' [])
          (q\<lparr>client := set_ClientID (ClientID (server_session q)) (client q)\<rparr>))) agree"
      by (intro ensures_unless [OF agree_send_messages [OF p quiet_welcome]])
    show ?thesis unfolding handleHandshakeMessage_def Let_def
      by (intro ensures_if s w) (simp_all add: p)
  next
    case False
    with ahead_other [OF assms] show ?thesis by (auto simp: handleHandshakeMessage_def s)
  qed
qed

lemma agree_check:
  fixes p :: "'s proxy"
  assumes "agree p"
  shows "ensures (check_client env p) agree" and "ensures (check_server env p) agree"
proof -
  have quiet: "quiet (msg_of ''PING'' [''irc-idler''])" by (simp add: quiet_def nick_errors_def)
  have t: "agree (p\<lparr>tick := n\<rparr>)" for n using assms by (simp add: agree_def)
  have u: "agree (client_update (\<lambda>c. c\<lparr>PingSent := b, DropDeadline := d\<rparr>) q) = agree q"
    "agree (server_update (\<lambda>c. c\<lparr>PingSent := b, DropDeadline := d\<rparr>) q) = agree q" for b d and q :: "'s proxy"
    by (cases q; simp add: agree_def)+
  show "ensures (check_client env p) agree" using assms
    by (auto simp: check_client_def checkTimeout_def time_Now_def Let_def t u
        intro!: ensures_andThen [OF agree_do_sendClient [OF t quiet]])
  show "ensures (check_server env p) agree" using assms
    by (auto simp: check_server_def checkTimeout_def time_Now_def Let_def t u
        intro!: ensures_andThen [OF agree_sendServer_same [OF t]])
qed

lemma agree_accept_client: "wired p \<Longrightarrow> agree (accept_client env h p)"
  by (rule accept_client_cases [where p = p and env = env and h = h])
    (auto simp: agree_def wired_def split: if_splits)

lemma handleClientEvent_valid:
  assumes "Validate m = None"
    and "q = p\<lparr>client := (client p)\<lparr>Session := Session_UpdateFromClient (client_session p) m\<rparr>\<rparr>"
  shows "handleClientEvent env (Some m) p =
    (if \<not> Done (Handshake (client_session q)) then handleHandshakeMessage env m q
     else if Command m = ''PING'' then do_sendClient env (m\<lparr>Prefix := [], Command := ''PONG''\<rparr>) q
     else if Command m = ''PONG'' then Ret q
     else if Command m = ''QUIT'' then Ret (dropClient q)
     else if Command m = ''JOIN'' then
       andThen (Param m 0) (\<lambda>name.
         if HaveChannel (client_session q) name then Ret q
         else if HaveChannel (server_session q) name then
           rejoinChannel env name (q\<lparr>preLogSession := fst (GetChannel (preLogSession q) name)\<rparr>)
         else do_sendServer env m q)
     else do_sendServer env m q)"
  unfolding assms(2) by (simp only: handleClientEvent_def Let_def option.case assms(1))

context log_store begin

lemma agree_client_event:
  assumes "store env = ops" and "settled p"
  shows "ensures (handleClientEvent env ev p) agree"
proof (cases ev)
  case (Some m)
  define q where "q = p\<lparr>client := (client p)\<lparr>Session := Session_UpdateFromClient (client_session p) m\<rparr>\<rparr>"
  have q: "ahead m q" "inv (messagelogs q)" "quiet_logs (contents (messagelogs q))"
    using assms(2) by (auto simp: q_def ahead_def agree_def Session_UpdateFromClient_def)
  have s: "ensures (do_sendServer env m q) agree"
    by (rule agree_sendServer) (use q(1) in \<open>simp add: ahead_def\<close>)
  have r: "ensures (rejoinChannel env name (q\<lparr>preLogSession := fst (GetChannel (preLogSession q) name)\<rparr>)) agree"
    if "agree q" for name
  proof -
    have "settled (q\<lparr>preLogSession := fst (GetChannel (preLogSession q) name)\<rparr>)"
      using that q by (simp add: agree_def)
    from settled_rejoin [OF assms(1) this] show ?thesis by (simp add: ensures_def)
  qed
  have j: "ensures (andThen (Param m 0) (\<lambda>name.
      if HaveChannel (client_session q) name then Ret q
      else if HaveChannel (server_session q) name then
        rejoinChannel env name (q\<lparr>preLogSession := fst (GetChannel (preLogSession q) name)\<rparr>)
      else do_sendServer env m q)) agree" if "agree q"
    by (intro ensures_bind ensures_if r s) (simp_all add: that)
  have pong: "ensures (do_sendClient env (m\<lparr>Prefix := [], Command := ''PONG''\<rparr>) q) agree" if "agree q"
    by (rule agree_do_sendClient [OF that]) (simp add: quiet_def nick_errors_def)
  note other = ahead_other [OF q(1)]
  have "ensures (if \<not> Done (Handshake (client_session q)) then handleHandshakeMessage env m q
     else if Command m = ''PING'' then do_sendClient env (m\<lparr>Prefix := [], Command := ''PONG''\<rparr>) q
     else if Command m = ''PONG'' then Ret q
     else if Command m = ''QUIT'' then Ret (dropClient q)
     else if Command m = ''JOIN'' then
       andThen (Param m 0) (\<lambda>name.
         if HaveChannel (client_session q) name then Ret q
         else if HaveChannel (server_session q) name then
           rejoinChannel env name (q\<lparr>preLogSession := fst (GetChannel (preLogSession q) name)\<rparr>)
         else do_sendServer env m q)
     else do_sendServer env m q) agree"
    by (intro ensures_if agree_handshake q(1) s j pong) (simp_all add: other)
  then have "ensures (handleClientEvent env (Some m) p) agree" if "Validate m = None"
    unfolding handleClientEvent_valid [OF that q_def] .
  moreover have "ensures (andThen (do_sendClient env err p) (\<lambda>p. Ret (dropClient p))) agree" for err
    by (rule ensures_bind) simp
  ultimately show ?thesis using Some by (cases "Validate m") (simp_all add: handleClientEvent_def)
qed (simp add: handleClientEvent_def)

lemma settled_do_sendClient:
  assumes "store env = ops" and "inv (messagelogs p)" and "quiet_logs (contents (messagelogs p))"
    and "if quiet m then agree p else behind m p"
  shows "ensures (do_sendClient env m p) settled"
proof -
  have "ensures (sendClient env m p) (\<lambda>(e, p). agree p)"
    using assms(4) agree_sendClient [of p m env] agree_sendClient_behind [of m p env]
    by (auto split: if_splits)
  then have "ensures (do_sendClient env m p) agree"
    unfolding do_sendClient_def by (rule ensures_andThen) auto
  then show ?thesis using do_sendClient_logs [of env m p] assms(1-3) by (auto simp: ensures_def)
qed

lemma agree_server_command:
  assumes "store env = ops" and "inv (messagelogs p)" and "quiet_logs (contents (messagelogs p))"
    and "if quiet m then agree p else behind m p"
  shows "ensures (handle_server_command env m p) agree"
proof -
  note sends = settled_do_sendClient [OF assms]
  have motd: "ensures (andThen (do_sendClient env m p)
      (\<lambda>p. replayLog env (Nick (ClientID (client_session p))) p)) agree"
    by (rule ensures_andThen [OF sends]) (intro agree_replayLog assms(1))
  show ?thesis
  proof (cases "quiet m")
    case True
    with assms have p: "settled p" by simp
    have cached: "ensures (do_sendClient env m (p\<lparr>cache_yourhost := a\<rparr>)) agree"
      "ensures (do_sendClient env m (p\<lparr>cache_created := a\<rparr>)) agree"
      "ensures (do_sendClient env m (p\<lparr>cache_myinfo := b\<rparr>)) agree" for a b
      using p by (intro agree_do_sendClient [OF _ True]; simp add: agree_def)+
    have pong: "ensures (do_sendServer env (m\<lparr>Prefix := [], Command := ''PONG''\<rparr>) p) agree"
      by (rule agree_sendServer_same) (use p in simp_all)
    have myinfo: "ensures (andThen (do_sendClient env m (p\<lparr>cache_myinfo := b\<rparr>))
        (\<lambda>p. Ret (p\<lparr>haveMsgCache := True\<rparr>))) agree" for b
      by (rule ensures_andThen [OF cached(3)]) (simp add: agree_def)
    have names: "ensures (andThen (do_sendClient env m p)
        (\<lambda>p. andThen (Param m 1) (\<lambda>name. replayLog env name p))) agree"
      by (rule ensures_andThen [OF sends]) (intro ensures_bind agree_replayLog assms(1))
    have log: "ensures (logMessage env m p) agree" "ensures (sendClient_or_log env m p) agree"
      using p True by (simp_all add: agree_logMessage agree_sendClient_or_log)
    show ?thesis unfolding handle_server_command_def using p
      by (intro ensures_if ensures_bind [where r = "Param m 0"] ensures_bind [where r = "Param m 1"]
          agree_do_sendClient agree_welcome pong cached myinfo names motd log True) simp_all
  next
    case False
    then consider "Command m \<in> set nick_errors" | "Command m = RPL_ENDOFMOTD" | "Command m = ERR_NOMOTD"
      by (auto simp: quiet_def)
    then have "handle_server_command env m p = do_sendClient env m p \<or>
      handle_server_command env m p =
        andThen (do_sendClient env m p) (\<lambda>p. replayLog env (Nick (ClientID (client_session p))) p)"
    proof cases
      case 1
      then have "Command m \<noteq> ''PING'' \<and> Command m \<noteq> ''PONG'' \<and> Command m \<in> set passed_through"
        by (auto simp: nick_errors_def passed_through_def)
      then show ?thesis by (simp add: handle_server_command_def)
    qed (simp_all add: handle_server_command_def passed_through_def nick_errors_def)
    with motd sends show ?thesis by (auto simp: ensures_def)
  qed
qed

lemma agree_server_event:
  assumes "store env = ops" and "settled p" and "wired p"
  shows "ensures (handleServerEvent env ev p) agree"
proof (cases ev)
  case (Some m)
  have "ensures (handle_server_command env m (p\<lparr>server := (server p)\<lparr>Session := ss\<rparr>\<rparr>)) agree"
    if u: "Session_UpdateFromServer (server_session p) m = Ret ss" for ss
  proof (rule agree_server_command [OF assms(1)])
    have h: "Handshake ss = Handshake_UpdateFromServer (Handshake (server_session p)) m"
      by (rule Session_update_Handshake [OF u])
    have "agree p" using assms(2) by simp
    then show "if quiet m then agree (p\<lparr>server := (server p)\<lparr>Session := ss\<rparr>\<rparr>)
        else behind m (p\<lparr>server := (server p)\<lparr>Session := ss\<rparr>\<rparr>)"
      using h assms(3)
      by (auto simp: agree_def behind_def wired_def quiet_frame IsClosed_def)
  qed (use assms(2) in simp_all)
  with Some show ?thesis by (auto simp: handleServerEvent_def intro!: ensures_bind)
qed (simp add: handleServerEvent_def)

lemma agree_round:
  assumes "store env = ops" and "settled p" and "wired p"
  shows "ensures (Run_step env ev p) agree"
proof (cases ev)
  case (ClientRecv m)
  have "settled (p\<lparr>tick := Suc (tick p), client := updateDeadlines now (client p)\<rparr>)" for now
    using assms(2) by (simp add: agree_def updateDeadlines_def)
  with ClientRecv agree_client_event [OF assms(1)] show ?thesis by (simp add: time_Now_def)
next
  case (ServerRecv m)
  have "settled (p\<lparr>tick := Suc (tick p), server := updateDeadlines now (server p)\<rparr>)"
    "wired (p\<lparr>tick := Suc (tick p), server := updateDeadlines now (server p)\<rparr>)" for now
    using assms(2,3) by (simp_all add: agree_def wired_def updateDeadlines_def)
  with ServerRecv agree_server_event [OF assms(1)] show ?thesis by (simp add: time_Now_def)
next
  case Tick
  have "agree p" using assms(2) by simp
  from ensures_andThen [OF agree_check(1) [OF this] agree_check(2)] Tick show ?thesis by simp
qed (simp_all add: agree_accept_client assms)

end

end
