(* ===== verification/Proxy_Progress.thy ===== *)
theory Proxy_Progress
  imports Proxy_Handshake
begin

text \<open>
  The handlers return. A Go run-time panic ends the daemon for its user, so the question is
  which messages can cause one: no message of the client can, and of the messages of the server
  only a KICK or a PART without parameters, because \<open>Validate\<close> has no entry for them. The
  loop of \<open>replayLog\<close> ends, and the fuel of the model is enough, when it exceeds the length of
  the log.
\<close>

section \<open>What the handlers send has its parameters\<close>

lemma params_present_sent [simp]:
  "params_present \<lparr>Prefix = a, Command = ''JOIN'', Params = [b]\<rparr>"
  "params_present \<lparr>Prefix = a, Command = RPL_TOPIC, Params = [b, c, d]\<rparr>"
  "params_present \<lparr>Prefix = a, Command = RPL_NAMEREPLY, Params = [b, c, d, e]\<rparr>"
  "params_present \<lparr>Prefix = a, Command = RPL_ENDOFNAMES, Params = ps\<rparr>"
  "params_present \<lparr>Prefix = a, Command = ''PING'', Params = ps\<rparr>"
  "params_present (m\<lparr>Prefix := a, Command := ''PONG''\<rparr>)"
  by (simp_all add: params_present_def)

lemma params_present_welcome: "list_all params_present (welcome_messages p)"
  by (simp add: welcome_messages_def Let_def params_present_def)

lemma params_present_Validate: "Validate m = Some e \<Longrightarrow> params_present e"
  by (auto simp: Validate_def params_present_def split: if_splits)

text \<open>A logged message has passed \<open>UpdateFromServer\<close>; see \<open>quiet_logs\<close>.\<close>

lemma logged_params_present:
  "Command m \<in> set logged_commands \<Longrightarrow> Params m \<noteq> [] \<Longrightarrow> params_present m"
  by (auto simp: params_present_def logged_commands_def)

section \<open>Combinators\<close>

definition returns :: "'a res \<Rightarrow> bool" where
  "returns r \<longleftrightarrow> (\<exists>x. r = Ret x)"

lemma returns_Ret [simp]: "returns (Ret x)"
  by (simp add: returns_def)

lemma returns_andThen: "returns r \<Longrightarrow> ensures r Q \<Longrightarrow> (\<And>x. Q x \<Longrightarrow> returns (f x)) \<Longrightarrow> returns (andThen r f)"
  by (auto simp: returns_def ensures_def)

lemma returns_unless:
  assumes "returns r" and "ensures r (\<lambda>(e, p). Q p)" and "\<And>p. Q p \<Longrightarrow> returns (rest p)"
  shows "returns (unless_error r rest)"
  unfolding unless_error_def by (rule returns_andThen [OF assms(1,2)]) (auto intro: assms(3))

lemma returns_if: "(b \<Longrightarrow> returns x) \<Longrightarrow> (\<not> b \<Longrightarrow> returns y) \<Longrightarrow> returns (if b then x else y)"
  by simp

lemma returns_Param: "i < length (Params m) \<Longrightarrow> returns (f (Params m ! i)) \<Longrightarrow> returns (andThen (Param m i) f)"
  by simp

lemma returns_sendClient: "params_present m \<Longrightarrow> returns (sendClient env m p)"
  using sendClient_returns by (fastforce simp: returns_def)

lemma returns_do_sendServer: "returns (do_sendServer env m p)"
  by (simp add: do_sendServer_def)

lemma returns_send_messages: "list_all params_present ms \<Longrightarrow> returns (send_messages env ms p)"
proof (induction ms arbitrary: p)
  case (Cons m ms)
  then show ?case
    by (auto intro!: returns_andThen [OF returns_sendClient, where Q = "\<lambda>x. True"] simp: ensures_def)
qed simp

lemma returns_send_names: "returns (send_names env name nick us p)"
proof (induction us arbitrary: p)
  case (Cons u us)
  then show ?case
    by (auto intro!: returns_andThen [OF returns_sendClient, where Q = "\<lambda>x. True"] simp: ensures_def Let_def)
qed simp

lemma returns_handshake: "returns (handleHandshakeMessage env m p)"
  unfolding handleHandshakeMessage_def Let_def
  by (intro returns_if returns_do_sendServer returns_Ret
      returns_unless [OF returns_send_messages [OF params_present_welcome], where Q = "\<lambda>x. True"])
    (simp add: ensures_def)

section \<open>The handlers\<close>

text \<open>A store in a good state, with logs of complete messages, shorter than the fuel.\<close>

definition replayable :: "('s \<Rightarrow> bool) \<Rightarrow> ('s \<Rightarrow> string \<Rightarrow> message list) \<Rightarrow> nat \<Rightarrow> 's \<Rightarrow> bool" where
  "replayable good contents n s \<longleftrightarrow>
     good s \<and> (\<forall>name. list_all params_present (contents s name) \<and> length (contents s name) < n)"

context log_store begin

abbreviation ready where
  "ready \<equiv> replayable inv contents"

lemma returns_replayLog:
  "store env = ops \<Longrightarrow> ready (fuel env) (messagelogs p) \<Longrightarrow> returns (replayLog env name p)"
  using replayLog_returns [of env p name] by (auto simp: replayable_def returns_def)

lemma replayable_send:
  "ready n (messagelogs p) \<Longrightarrow> ensures (sendClient env m p) (\<lambda>(e, q). ready n (messagelogs q))"
  using sendClient_logs [of env m p] by (auto simp: ensures_def)

lemma returns_rejoin:
  assumes "store env = ops" and "ready (fuel env) (messagelogs p)"
  shows "returns (rejoinChannel env name p)"
  unfolding rejoinChannel_def Let_def
proof (intro returns_unless [where Q = "\<lambda>q. ready (fuel env) (messagelogs q)"] returns_replayLog assms)
  fix q :: "'s proxy" and us and nick
  assume q: "ready (fuel env) (messagelogs q)"
  let ?q = "q\<lparr>client := (client q)\<lparr>Session := fst (GetChannel (client_session q) name)\<rparr>, tick := Suc (tick
    (q\<lparr>client := (client q)\<lparr>Session := fst (GetChannel (client_session q) name)\<rparr>\<rparr>))\<rparr>"
  from send_names_logs [of env name nick us ?q] q
  show "ensures (send_names env name nick us ?q) (\<lambda>(e, p). ready (fuel env) (messagelogs p))"
    by (auto simp: ensures_def)
qed (auto intro!: returns_sendClient returns_send_names replayable_send assms)

lemma returns_client_event:
  assumes "store env = ops" and "ready (fuel env) (messagelogs p)"
  shows "returns (handleClientEvent env ev p)"
proof (cases ev)
  case (Some m)
  show ?thesis
  proof (cases "Validate m")
    case None
    have "Params m \<noteq> []" if "Command m = ''JOIN''" using None that by (auto simp: Validate_None)
    then show ?thesis unfolding Some handleClientEvent_valid [OF None refl]
      by (intro returns_if returns_handshake returns_do_sendServer returns_Param returns_rejoin assms(1))
        (use assms(2) in \<open>auto simp: returns_def do_sendClient_returns\<close>)
  next
    case (Some e)
    then show ?thesis using \<open>ev = Some m\<close> do_sendClient_returns [OF params_present_Validate [OF Some], of env p]
      by (auto simp: handleClientEvent_def)
  qed
qed (simp add: handleClientEvent_def)

lemma returns_sendClient_then:
  assumes "ready n (messagelogs p)" and "params_present m"
    and "\<And>q. ready n (messagelogs q) \<Longrightarrow> returns (f q)"
  shows "returns (andThen (do_sendClient env m p) f)"
proof (rule returns_andThen [where Q = "\<lambda>q. ready n (messagelogs q)"])
  show "returns (do_sendClient env m p)" using do_sendClient_returns [OF assms(2)] by (auto simp: returns_def)
  show "ensures (do_sendClient env m p) (\<lambda>q. ready n (messagelogs q))"
    unfolding do_sendClient_def by (rule ensures_andThen [OF replayable_send [OF assms(1)]]) auto
qed (rule assms(3))

lemma returns_logMessage:
  "Params m \<noteq> [] \<or> Command m \<notin> set logged_commands \<Longrightarrow> returns (logMessage env m p)"
  by (auto simp: logMessage_def Let_def split: prod.split)

lemma returns_sendClient_or_log:
  assumes "params_present m" and "Params m \<noteq> [] \<or> Command m \<notin> set logged_commands"
  shows "returns (sendClient_or_log env m p)"
  unfolding sendClient_or_log_def
  by (rule returns_andThen [OF returns_sendClient [OF assms(1)], where Q = "\<lambda>x. True"])
    (auto simp: ensures_def returns_logMessage [OF assms(2)])

lemma returns_welcome:
  assumes "params_present m" and "2 \<le> length (Params m)"
  shows "returns (handleWelcome env m p)"
  unfolding handleWelcome_def Let_def using assms(2)
  by (auto split: sum.split intro!: returns_andThen [OF returns_sendClient [OF assms(1)], where Q = "\<lambda>x. True"]
      simp: ensures_def)

lemma returns_server_command:
  assumes "store env = ops" and "ready (fuel env) (messagelogs p)" and "Validate m = None"
    and "params_present m"
  shows "returns (handle_server_command env m p)"
proof -
  have l: "Params m \<noteq> [] \<or> Command m \<notin> set logged_commands"
    using assms(3,4) by (auto simp: Validate_None logged_commands_def params_present_def)
  have c: "returns (do_sendClient env m q)" for q
    using do_sendClient_returns [OF assms(4)] by (auto simp: returns_def)
  have n: "min_params_of (Command m) \<le> length (Params m)" using assms(3) by (simp add: Validate_None)
  have n1: "Command m \<in> {RPL_WELCOME, RPL_YOURHOST, RPL_CREATED, RPL_ENDOFNAMES} \<Longrightarrow> 1 < length (Params m)"
    and n0: "Command m = ''PRIVMSG'' \<or> Command m = ''NOTICE'' \<Longrightarrow> 0 < length (Params m)"
    and n4: "Command m = RPL_MYINFO \<Longrightarrow> Params m \<noteq> []"
    using n by auto
  show ?thesis unfolding handle_server_command_def
    apply (intro returns_if returns_do_sendServer returns_Ret c returns_Param returns_welcome returns_sendClient_then
        returns_replayLog returns_logMessage returns_sendClient_or_log assms(1,2,4) l n0)
    using n1 n4 assms(2,4) by (auto simp: replayable_def)
qed

lemma returns_server_event:
  assumes "store env = ops" and "ready (fuel env) (messagelogs p)"
    and "\<And>m. ev = Some m \<Longrightarrow> Command m \<in> {''KICK'', ''PART''} \<Longrightarrow> Params m \<noteq> []"
  shows "returns (handleServerEvent env ev p)"
proof (cases ev)
  case (Some m)
  show ?thesis
  proof (cases "Validate m")
    case None
    have pp: "params_present m"
      using Validate_params_present [OF None] assms(3) [OF Some] None
      by (auto simp: params_present_def Validate_None)
    obtain ss where "Session_UpdateFromServer (server_session p) m = Ret ss" using Session_update_Ret [OF pp] .
    with Some None returns_server_command [OF assms(1) _ None pp, of "p\<lparr>server := (server p)\<lparr>Session := ss\<rparr>\<rparr>"] assms(2)
    show ?thesis by (simp add: handleServerEvent_def)
  qed (use Some in \<open>simp add: handleServerEvent_def\<close>)
qed (simp add: handleServerEvent_def)

end

end
