(* ===== verification/Proxy_Sequences.thy ===== *)
theory Proxy_Sequences
  imports Proxy_Progress
begin

text \<open>
  The two conversations the proxy leads with a client that comes back, message by message: the
  welcome of \<open>handleHandshakeMessage\<close> and the rejoining of a channel. Both are stated for a
  transport that takes every message; \<open>Proxy_Log\<close> has the cases in which it does not.
\<close>

section \<open>Sending on a good transport\<close>

definition all_written :: "('s, 'c) env \<Rightarrow> bool" where
  "all_written env \<longleftrightarrow> write_err env = (\<lambda>n. None)"

text \<open>\<open>p'\<close> is \<open>p\<close> after the client on \<open>h\<close> was sent \<open>ms\<close>.\<close>

definition sent :: "handle \<Rightarrow> message list \<Rightarrow> 's proxy \<Rightarrow> 's proxy \<Rightarrow> bool" where
  "sent h ms p p' \<longleftrightarrow>
     rwc (client p') = Some h \<and> server p' = server p \<and> same_rest p p'
     \<and> trace p' = trace p @ map (\<lambda>m. Wrote h m True) ms"

lemma sent_refl: "rwc (client p) = Some h \<Longrightarrow> sent h [] p p"
  by (simp add: sent_def)

lemma sent_rwc: "sent h ms p q \<Longrightarrow> rwc (client q) = Some h"
  by (simp add: sent_def)

lemma sent_trans: "sent h ms p q \<Longrightarrow> sent h ns q r \<Longrightarrow> sent h (ms @ ns) p r"
  by (auto simp: sent_def intro: same_rest_trans)

lemma sent_frame:
  "sent h ms p q \<Longrightarrow> rwc (client r) = rwc (client q) \<Longrightarrow> server r = server q \<Longrightarrow> same_rest q r \<Longrightarrow>
     trace r = trace q \<Longrightarrow> sent h ms p r"
  by (auto simp: sent_def intro: same_rest_trans)

lemma sendClient_sent:
  assumes "all_written env" and "rwc (client p) = Some h" and "params_present m"
  obtains q where "sendClient env m p = Ret (None, q)" and "sent h [m] p q"
    and "Session_UpdateFromServer (client_session p) m = Ret (client_session q)"
    and "Session_UpdateFromServer (preLogSession p) m = Ret (preLogSession q)"
proof -
  obtain cs ps where
    "Session_UpdateFromServer (client_session p) m = Ret cs"
    "Session_UpdateFromServer (preLogSession p) m = Ret ps"
    "sendClient env m p =
      Ret (None, p\<lparr>tick := Suc (tick p), trace := trace p @ [Wrote h m True],
        client := (client p)\<lparr>Session := cs\<rparr>, preLogSession := ps\<rparr>)"
    using sendClient_written [OF assms(2) _ assms(3), of env] assms(1) unfolding all_written_def by metis
  then show thesis using assms(2)
    by (intro that [of "p\<lparr>tick := Suc (tick p), trace := trace p @ [Wrote h m True],
        client := (client p)\<lparr>Session := cs\<rparr>, preLogSession := ps\<rparr>"])
      (simp_all add: sent_def same_rest_def)
qed

lemma send_messages_sent:
  assumes "all_written env" and "rwc (client p) = Some h" and "list_all params_present ms"
  obtains q where "send_messages env ms p = Ret (None, q)" and "sent h ms p q"
proof -
  have "\<exists>q. send_messages env ms p = Ret (None, q) \<and> sent h ms p q"
    using assms(2,3)
  proof (induction ms arbitrary: p)
    case Nil
    then show ?case by (simp add: sent_refl)
  next
    case (Cons m ms)
    from Cons.prems have m: "params_present m" "list_all params_present ms" by simp_all
    obtain q where q: "sendClient env m p = Ret (None, q)" "sent h [m] p q"
      using sendClient_sent [OF assms(1) Cons.prems(1) m(1)] .
    with Cons.IH [OF _ m(2), of q] obtain r where "send_messages env ms q = Ret (None, r)" "sent h ms q r"
      by (auto simp: sent_def)
    with q sent_trans [OF q(2)] show ?case by fastforce
  qed
  with that show thesis by blast
qed

lemma send_names_sent:
  assumes "all_written env" and "rwc (client p) = Some h"
  obtains q where "send_names env name nick us p = Ret (None, q)"
    and "sent h (map (\<lambda>u. \<lparr>Prefix = serverPrefix p, Command = RPL_NAMEREPLY, Params = [nick, ''='', name, u]\<rparr>) us) p q"
proof -
  have "\<exists>q. send_names env name nick us p = Ret (None, q) \<and>
    sent h (map (\<lambda>u. \<lparr>Prefix = serverPrefix p, Command = RPL_NAMEREPLY, Params = [nick, ''='', name, u]\<rparr>) us) p q"
    using assms(2)
  proof (induction us arbitrary: p)
    case Nil
    then show ?case by (simp add: sent_refl)
  next
    case (Cons u us)
    let ?m = "\<lparr>Prefix = serverPrefix p, Command = RPL_NAMEREPLY, Params = [nick, ''='', name, u]\<rparr>"
    obtain q where q: "sendClient env ?m p = Ret (None, q)" "sent h [?m] p q"
      using sendClient_sent [OF assms(1) Cons.prems params_present_sent(3)] .
    define r where "r = q\<lparr>client := (client q)\<lparr>Session :=
      put_channel (client_session q) name (AddUser (snd (GetChannel (client_session q) name)) u)\<rparr>\<rparr>"
    have r: "sent h [?m] p r" "rwc (client r) = Some h" "serverPrefix r = serverPrefix p"
      using sent_frame [OF q(2), of r] q(2) by (auto simp: r_def sent_def same_rest_def)
    obtain s where s: "send_names env name nick us r = Ret (None, s)"
      "sent h (map (\<lambda>u. \<lparr>Prefix = serverPrefix r, Command = RPL_NAMEREPLY, Params = [nick, ''='', name, u]\<rparr>) us) r s"
      using Cons.IH [OF r(2)] by blast
    with q sent_trans [OF r(1) s(2)] r(3) show ?case
      by (auto simp: Let_def r_def)
  qed
  with that show thesis by blast
qed

section \<open>Coming back\<close>

text \<open>
  A client that finishes its part of the handshake while the server's is done long ago is
  welcomed with the cached messages, takes over the server's identity, and the server is
  asked for its message of the day, whose end triggers the replay.
\<close>

lemma welcome_back:
  assumes "all_written env" and "rwc (client p) = Some h" and "rwc (server p) = Some hs"
    and "Done (Handshake (server_session p))" and "haveMsgCache p" and "Validate m = None"
    and "Command m \<in> {''PASS'', ''USER'', ''NICK''}"
    and "WantsWelcome (Handshake_UpdateFromClient (Handshake (client_session p)) m)"
  shows "\<exists>p'. handleClientEvent env (Some m) p = Ret p'
    \<and> trace p' = trace p @ map (\<lambda>w. Wrote h w True) (welcome_messages p) @ [Wrote hs (msg_of ''MOTD'' []) True]
    \<and> ClientID (client_session p') = ClientID (server_session p) \<and> server_session p' = server_session p
    \<and> messagelogs p' = messagelogs p"
proof -
  define q where "q = p\<lparr>client := (client p)\<lparr>Session := Session_UpdateFromClient (client_session p) m\<rparr>\<rparr>"
  have q: "rwc (client q) = Some h" "server q = server p" "welcome_messages q = welcome_messages p"
    "WantsWelcome (Handshake (client_session q))" "haveMsgCache q" "trace q = trace p" "messagelogs q = messagelogs p"
    using assms by (simp_all add: q_def Session_UpdateFromClient_def welcome_messages_def)
  then have nd: "\<not> Done (Handshake (client_session q))" by (simp add: WantsWelcome_def Done_def)
  obtain r where r: "send_messages env (welcome_messages q) q = Ret (None, r)" "sent h (welcome_messages q) q r"
    using send_messages_sent [OF assms(1) q(1) params_present_welcome] .
  define s where "s = r\<lparr>client := set_ClientID (ClientID (server_session r)) (client r)\<rparr>"
  have "handleClientEvent env (Some m) p = handleHandshakeMessage env m q"
    unfolding handleClientEvent_valid [OF assms(6) q_def] using nd by simp
  also have "\<dots> = do_sendServer env (msg_of ''MOTD'' []) s"
    using assms(4,7) q r(1) by (simp add: handleHandshakeMessage_def s_def Let_def)
  also have "\<dots> = Ret (s\<lparr>tick := Suc (tick s), trace := trace s @ [Wrote hs (msg_of ''MOTD'' []) True],
      server := (server s)\<lparr>Session := Session_UpdateFromClient (server_session s) (msg_of ''MOTD'' [])\<rparr>\<rparr>)"
    using assms(1,3) r(2) q(2)
    by (simp add: do_sendServer_def sendServer_def write_to_def all_written_def s_def sent_def)
  finally show ?thesis using r(2) q assms(4)
    by (auto simp: s_def sent_def same_rest_def set_ClientID_def Session_UpdateFromClient_def)
qed

section \<open>Rejoining\<close>

lemma Channel_update_Topic:
  "Channel_UpdateFromServer c m = Ret c' \<Longrightarrow> Topic c' = Topic c"
proof -
  have topic: "Topic (AddUser c n) = Topic c" "Topic (RemoveUser c n) = Topic c" for c n
    by (simp_all add: AddUser_def RemoveUser_def)
  have fold: "Topic (fold (\<lambda>u s. AddUser s (f u)) us c) = Topic c" for f us c
    by (induction us arbitrary: c) (simp_all add: topic)
  show "Channel_UpdateFromServer c m = Ret c' \<Longrightarrow> Topic c' = Topic c"
    by (auto simp: Channel_UpdateFromServer_def fold topic elim!: andThen_RetE split: if_splits sum.splits)
qed

text \<open>What a JOIN of one nick and a topic do to the state of their channel.\<close>

lemma preLog_roster:
  "members (preLogState p name) = in_channel (roster_of (channels (preLogSession p))) name"
  using roster_GetChannel [of "channels (preLogSession p)" name]
  by (auto simp: preLogState_def GetChannel_def split: prod.splits)

lemma GetChannel_after_update:
  assumes "Channels_GetChannel chans name = (chans1, c)"
  shows "snd (Channels_GetChannel (AList.update name c' chans1) name) = c'"
  using assms by (simp add: Channels_GetChannel_def map_simps)

lemma JOIN_state:
  assumes "Session_UpdateFromServer s \<lparr>Prefix = a, Command = ''JOIN'', Params = [name]\<rparr> = Ret s'"
  shows "Topic (snd (GetChannel s' name)) = Topic (snd (GetChannel s name))"
proof -
  let ?m = "\<lparr>Prefix = a, Command = ''JOIN'', Params = [name]\<rparr>"
  obtain chans1 c where g: "Channels_GetChannel (channels s) name = (chans1, c)" by force
  obtain c' where c': "Channel_UpdateFromServer c ?m = Ret c'" "channels s' = AList.update name c' chans1"
    using assms g by (auto simp: Session_UpdateFromServer_def Channels_UpdateFromServer_def
      update_channel_def Let_def elim!: andThen_RetE split: if_splits)
  have "snd (GetChannel s' name) = c'" "snd (GetChannel s name) = c"
    using GetChannel_after_update [OF g, of c'] g c'(2)
    by (auto simp: GetChannel_def split: prod.splits)
  with Channel_update_Topic [OF c'(1)] show ?thesis by simp
qed

lemma Session_roster:
  assumes "Session_UpdateFromServer s m = Ret s'" and "Command m \<notin> {''KICK'', ''PART''}"
  shows "roster_of (channels s') = roster_step (roster_of (channels s)) m"
proof -
  obtain chans where "Channels_UpdateFromServer (channels s) m = Ret chans" "channels s' = chans"
    using assms by (auto simp: Session_UpdateFromServer_def Let_def elim!: andThen_RetE split: if_splits)
  with roster_refines show ?thesis by simp
qed

lemma JOIN_members:
  assumes "Session_UpdateFromServer s \<lparr>Prefix = a, Command = ''JOIN'', Params = [name]\<rparr> = Ret s'"
  shows "in_channel (roster_of (channels s')) name =
    in_channel (roster_of (channels s)) name \<union> prefix_nick \<lparr>Prefix = a, Command = ''JOIN'', Params = [name]\<rparr>"
  using Session_roster [OF assms] by (simp add: roster_step_def in_channel_def)

lemma TOPIC_members:
  assumes "Session_UpdateFromServer s \<lparr>Prefix = a, Command = RPL_TOPIC, Params = [b, name, t]\<rparr> = Ret s'"
  shows "in_channel (roster_of (channels s')) name = in_channel (roster_of (channels s)) name"
  using Session_roster [OF assms] by (simp add: roster_step_def in_channel_def)

text \<open>In a well-formed session the keys of a channel's map are its members, each once.\<close>

lemma wf_channel_keys: "wf_channel c \<Longrightarrow> distinct (map fst (users c)) \<and> set (map fst (users c)) = members c"
  by (force simp: wf_channel_def members_def HaveUser_def list_all_iff split: option.splits
      dest: map_of_SomeD simp: map_of_eq_None_iff)

lemma wf_preLogState: "wf_session (preLogSession p) \<Longrightarrow> wf_channel (preLogState p name)"
  using wf_Channels_GetChannel [of "channels (preLogSession p)" name]
  by (auto simp: preLogState_def GetChannel_def wf_session_def split: prod.splits)

text \<open>The messages that rejoin a channel, the names in a given order.\<close>

definition rejoin_messages :: "'s proxy \<Rightarrow> string \<Rightarrow> string list \<Rightarrow> message list" where
  "rejoin_messages p name nicks =
     (let nick = Nick (ClientID (server_session p));
          me = ClientID_String (ClientID (client_session p));
          topic = Topic (preLogState p name) in
      [\<lparr>Prefix = me, Command = ''JOIN'', Params = [name]\<rparr>]
      @ (if topic = [] then [] else [\<lparr>Prefix = serverPrefix p, Command = RPL_TOPIC, Params = [me, name, topic]\<rparr>])
      @ map (\<lambda>u. \<lparr>Prefix = serverPrefix p, Command = RPL_NAMEREPLY, Params = [nick, ''='', name, u]\<rparr>) nicks
      @ [\<lparr>Prefix = serverPrefix p, Command = RPL_ENDOFNAMES, Params = [nick, name, ''End of NAMES list'']\<rparr>])"

definition join_nick :: "'s proxy \<Rightarrow> string set" where
  "join_nick p = (case ParseClientID (ClientID_String (ClientID (client_session p))) of Inl _ \<Rightarrow> {} | Inr i \<Rightarrow> {Nick i})"

text \<open>The part of \<open>rejoinChannel\<close> before the names.\<close>

lemma rejoin_start:
  assumes "all_written env" and "rwc (client p) = Some h" and "wf_session (preLogSession p)"
  obtains q r where
    "sendClient env \<lparr>Prefix = ClientID_String (ClientID (client_session p)), Command = ''JOIN'', Params = [name]\<rparr> p
      = Ret (None, q)"
    "(if Topic (preLogState q name) \<noteq> []
      then sendClient env \<lparr>Prefix = serverPrefix q, Command = RPL_TOPIC,
        Params = [ClientID_String (ClientID (client_session q)), name, Topic (preLogState q name)]\<rparr> q
      else Ret (None, q)) = Ret (None, r)"
    "sent h (take (if Topic (preLogState p name) = [] then 1 else 2) (rejoin_messages p name [])) p r"
    "wf_session (preLogSession r)" "members (preLogState r name) = members (preLogState p name) \<union> join_nick p"
proof -
  let ?j = "\<lparr>Prefix = ClientID_String (ClientID (client_session p)), Command = ''JOIN'', Params = [name]\<rparr>"
  obtain q where q: "sendClient env ?j p = Ret (None, q)" "sent h [?j] p q"
    "Session_UpdateFromServer (client_session p) ?j = Ret (client_session q)"
    "Session_UpdateFromServer (preLogSession p) ?j = Ret (preLogSession q)"
    using sendClient_sent [OF assms(1,2) params_present_sent(1)] .
  have t: "Topic (preLogState q name) = Topic (preLogState p name)"
    using JOIN_state [OF q(4)] by (simp add: preLogState_def)
  have m: "members (preLogState q name) = members (preLogState p name) \<union> join_nick p"
    using JOIN_members [OF q(4)] by (simp add: preLog_roster prefix_nick_def join_nick_def)
  have w: "wf_session (preLogSession q)" using wf_Session_update [OF assms(3) q(4)] .
  have c: "ClientID (client_session q) = ClientID (client_session p)"
    using Session_update_ClientID [OF q(3)] by simp
  have sp: "serverPrefix q = serverPrefix p" "rwc (client q) = Some h"
    using q(2) by (simp_all add: sent_def same_rest_def)
  show thesis
  proof (cases "Topic (preLogState p name) = []")
    case True
    with q t m w show thesis by (intro that [of q q]) (simp_all add: rejoin_messages_def)
  next
    case False
    let ?t = "\<lparr>Prefix = serverPrefix q, Command = RPL_TOPIC,
        Params = [ClientID_String (ClientID (client_session q)), name, Topic (preLogState q name)]\<rparr>"
    obtain r where r: "sendClient env ?t q = Ret (None, r)" "sent h [?t] q r"
      "Session_UpdateFromServer (preLogSession q) ?t = Ret (preLogSession r)"
      using sendClient_sent [OF assms(1) sp(2) params_present_sent(2)] .
    have "members (preLogState r name) = members (preLogState q name)"
      using TOPIC_members [OF r(3)] by (simp add: preLog_roster)
    with False q r t m c sp wf_Session_update [OF w r(3)] sent_trans [OF q(2) r(2)] show thesis
      by (intro that [of q r]) (simp_all add: rejoin_messages_def Let_def)
  qed
qed

context reliable_store begin

text \<open>The whole of \<open>rejoinChannel\<close>: the messages, then the log, which is empty afterwards.\<close>

lemma rejoin_sends:
  assumes "all_written env" and "rwc (client p) = Some h" and "wf_session (preLogSession p)"
    and "store env = ops" and "ready (fuel env) (messagelogs p)"
    and "\<And>n xs. mset (range_order env n xs) = mset xs"
  obtains p' nicks where "rejoinChannel env name p = Ret p'"
    and "trace p' = trace p @ map (\<lambda>m. Wrote h m True)
      (rejoin_messages p name nicks @ contents (messagelogs p) name)"
    and "contents (messagelogs p') = (contents (messagelogs p))(name := [])"
    and "distinct nicks" and "set nicks = members (preLogState p name) \<union> join_nick p"
proof -
  obtain q r where qr:
    "sendClient env \<lparr>Prefix = ClientID_String (ClientID (client_session p)), Command = ''JOIN'', Params = [name]\<rparr> p
      = Ret (None, q)"
    "(if Topic (preLogState q name) \<noteq> []
      then sendClient env \<lparr>Prefix = serverPrefix q, Command = RPL_TOPIC,
        Params = [ClientID_String (ClientID (client_session q)), name, Topic (preLogState q name)]\<rparr> q
      else Ret (None, q)) = Ret (None, r)"
    "sent h (take (if Topic (preLogState p name) = [] then 1 else 2) (rejoin_messages p name [])) p r"
    "wf_session (preLogSession r)" "members (preLogState r name) = members (preLogState p name) \<union> join_nick p"
    using rejoin_start [OF assms(1-3)] .
  define r1 where "r1 = r\<lparr>client := (client r)\<lparr>Session := fst (GetChannel (client_session r) name)\<rparr>\<rparr>"
  define nicks where "nicks = Users (range_order env (tick r1)) (preLogState r1 name)"
  define r2 where "r2 = r1\<lparr>tick := Suc (tick r1)\<rparr>"
  have pl: "preLogState r1 name = preLogState r name" by (simp add: r1_def preLogState_def)
  have ms: "mset nicks = mset (map fst (users (preLogState r name)))"
    unfolding nicks_def Users_def pl by (rule assms(6))
  have "set nicks = set (map fst (users (preLogState r name)))" "distinct nicks"
    using mset_eq_setD [OF ms] mset_eq_imp_distinct_iff [OF ms] wf_channel_keys [OF wf_preLogState [OF qr(4)], of name]
    by simp_all
  then have nicks: "set nicks = members (preLogState p name) \<union> join_nick p" "distinct nicks"
    using wf_channel_keys [OF wf_preLogState [OF qr(4)], of name] qr(5) by auto
  have r2: "sent h (take (if Topic (preLogState p name) = [] then 1 else 2) (rejoin_messages p name [])) p r2"
    by (rule sent_frame [OF qr(3)]) (simp_all add: r2_def r1_def same_rest_def)
  obtain s where s: "send_names env name (Nick (ClientID (server_session r1))) nicks r2 = Ret (None, s)"
    "sent h (map (\<lambda>u. \<lparr>Prefix = serverPrefix r2, Command = RPL_NAMEREPLY,
       Params = [Nick (ClientID (server_session r1)), ''='', name, u]\<rparr>) nicks) r2 s"
    using send_names_sent [OF assms(1) sent_rwc [OF r2]] .
  let ?e = "\<lparr>Prefix = serverPrefix s, Command = RPL_ENDOFNAMES,
    Params = [Nick (ClientID (server_session r1)), name, ''End of NAMES list'']\<rparr>"
  obtain t where t: "sendClient env ?e s = Ret (None, t)" "sent h [?e] s t"
    using sendClient_sent [OF assms(1) sent_rwc [OF s(2)] params_present_sent(4)] .
  have same: "serverPrefix r2 = serverPrefix p" "serverPrefix s = serverPrefix p"
    "server r1 = server p" "messagelogs t = messagelogs p" "rwc (client t) = Some h"
    using r2 s(2) t(2) by (auto simp: sent_def same_rest_def r2_def)
  have tr: "trace t = trace p @ map (\<lambda>m. Wrote h m True) (rejoin_messages p name nicks)"
    using sent_trans [OF sent_trans [OF r2 s(2)] t(2)] same
    by (auto simp: sent_def rejoin_messages_def Let_def)
  from replayLog_delivers [OF assms(4), of t h name] assms(1,5) same
  obtain p' where p': "replayLog env name t = Ret p'"
    "trace p' = trace t @ map (\<lambda>m. Wrote h m True) (contents (messagelogs p) name)"
    "contents (messagelogs p') = (contents (messagelogs p))(name := [])"
    by (auto simp: all_written_def replayable_def)
  have "rejoinChannel env name p = Ret p'"
    unfolding rejoinChannel_def Let_def qr(1) unless_error_simps qr(2) r1_def [symmetric]
      nicks_def [symmetric] r2_def [symmetric] s(1) t(1) by (rule p'(1))
  with p' tr nicks show thesis by (intro that) simp_all
qed

end

end
