(* ===== verification/Net_Dialer.thy ===== *)
theory Net_Dialer
  imports Prelude "HOL-Library.Word"
begin

text \<open>
  How the proxy gets a connection to the server: \<open>internal/netextra\<close> (the dialers),
  \<open>DialerConnector\<close> of \<open>proxy/proxy.go\<close>, and the server configuration of
  \<open>sandstorm/webui/webui.go\<close> with its address. Of the package \<open>net\<close> the model has
  \<open>JoinHostPort\<close> and \<open>SplitHostPort\<close>.

  The network is a parameter: \<open>raw_dial\<close> is what the dialer at the bottom returns (\<open>Direct\<close>, or
  the one of the Sandstorm library), \<open>handshake_err\<close> what \<open>Handshake\<close> of \<open>crypto/tls\<close> returns for
  a server name and a connection; both may differ from call to call. What is done to the network
  is recorded in a trace, whose length numbers the calls.
\<close>

section \<open>Addresses\<close>

definition digit_chars :: string where
  "digit_chars = ''0123456789''"

fun dec_digits :: "nat \<Rightarrow> string" where
  "dec_digits n =
     (if n < 10 then [digit_chars ! n] else dec_digits (n div 10) @ [digit_chars ! (n mod 10)])"

declare dec_digits.simps [simp del]

definition JoinHostPort :: "string \<Rightarrow> string \<Rightarrow> string" where
  "JoinHostPort host port =
     (if COLON \<in> set host then ''['' @ host @ '']'' @ COLON # port else host @ COLON # port)"

text \<open>The parts before and after the last colon.\<close>

definition before_last :: "char \<Rightarrow> string \<Rightarrow> string" where
  "before_last c s = rev (tl (dropWhile (\<lambda>x. x \<noteq> c) (rev s)))"

definition after_last :: "char \<Rightarrow> string \<Rightarrow> string" where
  "after_last c s = rev (takeWhile (\<lambda>x. x \<noteq> c) (rev s))"

text \<open>
  An address that starts with a bracket: the first closing bracket must be right before the last
  colon. No other bracket may occur, in the host or in the port.
\<close>

definition SplitHostPort :: "string \<Rightarrow> error + string \<times> string" where
  "SplitHostPort hostport =
     (if COLON \<notin> set hostport then Inl (ErrAddress MissingPort)
      else
        let port = after_last COLON hostport in
        if hd hostport = CHR ''['' then
          if CHR '']'' \<notin> set hostport then Inl (ErrAddress MissingBracket)
          else
            let host = takeWhile (\<lambda>x. x \<noteq> CHR '']'') (tl hostport);
                behind = drop (length host + 2) hostport
            in
              if behind = [] then Inl (ErrAddress MissingPort)
              else if behind \<noteq> COLON # port then
                (if hd behind = COLON then Inl (ErrAddress TooManyColons)
                 else Inl (ErrAddress MissingPort))
              else if CHR ''['' \<in> set (host @ port) then Inl (ErrAddress UnexpectedBracket)
              else if CHR '']'' \<in> set port then Inl (ErrAddress UnexpectedBracket)
              else Inr (host, port)
        else
          let host = before_last COLON hostport in
          if COLON \<in> set host then Inl (ErrAddress TooManyColons)
          else if CHR ''['' \<in> set hostport then Inl (ErrAddress UnexpectedBracket)
          else if CHR '']'' \<in> set hostport then Inl (ErrAddress UnexpectedBracket)
          else Inr (host, port))"

record server_config =
  cfg_Host :: string
  cfg_Port :: "16 word"
  cfg_TLS :: bool

definition ServerConfig_String :: "server_config \<Rightarrow> string" where
  "ServerConfig_String s = JoinHostPort (cfg_Host s) (dec_digits (unat (cfg_Port s)))"

section \<open>Dialers\<close>

datatype net_conn = Raw nat | Tls string net_conn

datatype net_event =
    NetDial string string "nat option"
  | NetHandshake string net_conn bool
  | NetClose net_conn

record net_env =
  raw_dial :: "nat \<Rightarrow> string \<Rightarrow> string \<Rightarrow> error + nat"
  handshake_err :: "nat \<Rightarrow> string \<Rightarrow> net_conn \<Rightarrow> error option"

text \<open>\<open>BaseDialer\<close> is \<open>Direct\<close> or the dialer of the Sandstorm library.\<close>

datatype dialer = BaseDialer | TLSDialer dialer

fun Dial :: "net_env \<Rightarrow> dialer \<Rightarrow> string \<Rightarrow> string \<Rightarrow> net_event list \<Rightarrow> (error + net_conn) \<times> net_event list" where
  "Dial env BaseDialer network addr tr =
     (case raw_dial env (length tr) network addr of
        Inl err \<Rightarrow> (Inl err, tr @ [NetDial network addr None])
      | Inr c \<Rightarrow> (Inr (Raw c), tr @ [NetDial network addr (Some c)]))"
| "Dial env (TLSDialer base) network addr tr =
     (case SplitHostPort addr of
        Inl err \<Rightarrow> (Inl err, tr)
      | Inr (host, _) \<Rightarrow>
          (case Dial env base network addr tr of
             (Inl err, tr) \<Rightarrow> (Inl err, tr)
           | (Inr conn, tr) \<Rightarrow>
               (case handshake_err env (length tr) host conn of
                  Some err \<Rightarrow> (Inl err, tr @ [NetHandshake host conn False, NetClose conn])
                | None \<Rightarrow> (Inr (Tls host conn), tr @ [NetHandshake host conn True]))))"

record dialer_connector =
  dc_Dialer :: dialer
  dc_Network :: string
  dc_Addr :: string

text \<open>\<open>Connect\<close> wraps the connection for messages: the same transport, read and written as in
  \<open>Irc_Reader\<close> and \<open>Irc_Message\<close>.\<close>

definition DialerConnector_Connect ::
  "net_env \<Rightarrow> dialer_connector \<Rightarrow> net_event list \<Rightarrow> (error + net_conn) \<times> net_event list" where
  "DialerConnector_Connect env dc tr =
     (case Dial env (dc_Dialer dc) (dc_Network dc) (dc_Addr dc) tr of
        (Inl err, tr) \<Rightarrow> (Inl err, tr)
      | (Inr conn, tr) \<Rightarrow> (Inr conn, tr))"


section \<open>An address gives back what it was made of\<close>

lemma after_last_sep: "c \<notin> set b \<Longrightarrow> after_last c (a @ c # b) = b"
  by (simp add: after_last_def takeWhile_sep)

lemma before_last_sep: "c \<notin> set b \<Longrightarrow> before_last c (a @ c # b) = a"
  by (simp add: before_last_def dropWhile_sep)

lemma digit_in: "d < 10 \<Longrightarrow> digit_chars ! d \<in> set digit_chars"
  by (rule nth_mem) (simp add: digit_chars_def)

lemma dec_digits_set: "set (dec_digits n) \<subseteq> set digit_chars"
proof (induction n rule: dec_digits.induct)
  case (1 n)
  then show ?case
    using digit_in [of n] digit_in [of "n mod 10"] by (subst dec_digits.simps) auto
qed

lemma dec_digits_plain: "c \<in> {COLON, CHR ''['', CHR '']''} \<Longrightarrow> c \<notin> set (dec_digits n)"
  using dec_digits_set [of n] by (auto simp: digit_chars_def)

lemma SplitHostPort_JoinHostPort:
  assumes "CHR ''['' \<notin> set host" and "CHR '']'' \<notin> set host"
    and "\<And>c. c \<in> {COLON, CHR ''['', CHR '']''} \<Longrightarrow> c \<notin> set port"
  shows "SplitHostPort (JoinHostPort host port) = Inr (host, port)"
proof (cases "COLON \<in> set host")
  case True
  let ?addr = "CHR ''['' # host @ CHR '']'' # COLON # port"
  have "after_last COLON ?addr = port"
    using after_last_sep [of COLON port "CHR ''['' # host @ [CHR '']'']"] assms(3) by simp
  moreover have "takeWhile (\<lambda>x. x \<noteq> CHR '']'') (tl ?addr) = host"
    using assms(2) takeWhile_sep by simp
  ultimately show ?thesis
    using True assms by (simp add: JoinHostPort_def SplitHostPort_def Let_def)
next
  case False
  let ?addr = "host @ COLON # port"
  have "after_last COLON ?addr = port" "before_last COLON ?addr = host"
    using assms(3) by (simp_all add: after_last_sep before_last_sep)
  moreover have "hd ?addr \<noteq> CHR ''[''" using assms(1) by (cases host) auto
  ultimately show ?thesis
    using False assms by (simp add: JoinHostPort_def SplitHostPort_def Let_def)
qed

definition plain_host :: "string \<Rightarrow> bool" where
  "plain_host host \<longleftrightarrow> CHR ''['' \<notin> set host \<and> CHR '']'' \<notin> set host"

lemma ServerConfig_address:
  "plain_host (cfg_Host s) \<Longrightarrow>
     SplitHostPort (ServerConfig_String s) = Inr (cfg_Host s, dec_digits (unat (cfg_Port s)))"
  unfolding ServerConfig_String_def plain_host_def
  by (rule SplitHostPort_JoinHostPort) (use dec_digits_plain in auto)

section \<open>Reading the port number back\<close>

definition dec_value :: "string \<Rightarrow> nat" where
  "dec_value s = foldl (\<lambda>n c. 10 * n + (of_char c - 48)) 0 s"

lemma digit_value: "d < 10 \<Longrightarrow> of_char (digit_chars ! d) = 48 + d"
  by (auto simp: digit_chars_def less_Suc_eq eval_nat_numeral)

lemma dec_value_digits [simp]: "dec_value (dec_digits n) = n"
proof (induction n rule: dec_digits.induct)
  case (1 n)
  then show ?case by (subst dec_digits.simps) (auto simp: dec_value_def digit_value)
qed

section \<open>No connection is left behind\<close>

text \<open>The connections of the dialer at the bottom that are open after a trace.\<close>

fun raw_of :: "net_conn \<Rightarrow> nat" where
  "raw_of (Raw c) = c"
| "raw_of (Tls host conn) = raw_of conn"

fun open_after :: "nat list \<Rightarrow> net_event \<Rightarrow> nat list" where
  "open_after cs (NetDial network addr (Some c)) = c # cs"
| "open_after cs (NetClose conn) = remove1 (raw_of conn) cs"
| "open_after cs ev = cs"

definition open_conns :: "net_event list \<Rightarrow> nat list" where
  "open_conns tr = foldl open_after [] tr"

lemma open_conns_simps [simp]:
  "open_conns [] = []" "open_conns (tr @ [ev]) = open_after (open_conns tr) ev"
  "open_conns (tr @ [ev, ev']) = open_after (open_after (open_conns tr) ev) ev'"
  by (simp_all add: open_conns_def)

lemma Dial_open_conns:
  "Dial env d network addr tr = (r, tr') \<Longrightarrow>
     open_conns tr' = (case r of Inl err \<Rightarrow> open_conns tr | Inr conn \<Rightarrow> raw_of conn # open_conns tr)"
  by (induction d arbitrary: r tr') (auto split: sum.splits prod.splits option.splits)

text \<open>Every layer of TLS on a connection that is returned was verified for the host dialed.\<close>

fun verified_for :: "string \<Rightarrow> net_conn \<Rightarrow> net_event list \<Rightarrow> bool" where
  "verified_for host (Raw c) tr \<longleftrightarrow> True"
| "verified_for host (Tls name conn) tr \<longleftrightarrow>
     name = host \<and> NetHandshake host conn True \<in> set tr \<and> verified_for host conn tr"

lemma verified_for_append [simp]: "verified_for host conn tr \<Longrightarrow> verified_for host conn (tr @ evs)"
  by (induction conn) auto

fun layers :: "dialer \<Rightarrow> nat" where
  "layers BaseDialer = 0"
| "layers (TLSDialer d) = Suc (layers d)"

fun conn_layers :: "net_conn \<Rightarrow> nat" where
  "conn_layers (Raw c) = 0"
| "conn_layers (Tls host conn) = Suc (conn_layers conn)"

lemma Dial_verified:
  "Dial env d network addr tr = (Inr conn, tr') \<Longrightarrow> SplitHostPort addr = Inr (host, port) \<Longrightarrow>
     verified_for host conn tr' \<and> conn_layers conn = layers d"
proof (induction d arbitrary: conn tr')
  case (TLSDialer d)
  then show ?case
    by (auto split: sum.splits prod.splits option.splits)
qed (auto split: sum.splits)

lemma Dial_bad_address:
  "SplitHostPort addr = Inl err \<Longrightarrow> Dial env (TLSDialer d) network addr tr = (Inl err, tr)"
  by simp

text \<open>A host that is written with the brackets of an address literal is not taken apart again.\<close>

lemma bracket_host_refused:
  "SplitHostPort (JoinHostPort ''[::1]'' port) = Inl (ErrAddress MissingPort)"
  if "COLON \<notin> set port"
proof -
  have "after_last COLON (''[[::1]]'' @ COLON # port) = port" using that by (rule after_last_sep)
  then show ?thesis by (simp add: JoinHostPort_def SplitHostPort_def Let_def)
qed

end
