(* ===== verification/Base64.thy ===== *)
theory Base64
  imports Prelude
begin

text \<open>
  The package \<open>encoding/base64\<close> of the standard library, as far as the repository uses it:
  \<open>RawStdEncoding\<close>, without padding, for the key of the web interface, and \<open>StdEncoding\<close>, with
  padding, for the random strings of its tests. An encoder that is written to once and then
  closed produces the encoding of the bytes it was given.
\<close>

section \<open>Encoding\<close>

text \<open>Three bytes become four characters; a rest of one or two bytes becomes two or three.\<close>

definition base64_chars :: string where
  "base64_chars = ''ABCDEFGHIJKLMNOPQRSTUVWXYZabcdefghijklmnopqrstuvwxyz0123456789+/''"

fun sextets :: "nat list \<Rightarrow> nat list" where
  "sextets (a # b # c # r) =
     a div 4 # (a mod 4 * 16 + b div 16) # (b mod 16 * 4 + c div 64) # c mod 64 # sextets r"
| "sextets [a, b] = [a div 4, a mod 4 * 16 + b div 16, b mod 16 * 4]"
| "sextets [a] = [a div 4, a mod 4 * 16]"
| "sextets [] = []"

definition base64_encode :: "string \<Rightarrow> string" where
  "base64_encode s = map (\<lambda>n. base64_chars ! n) (sextets (map of_char s))"

definition base64_std :: "string \<Rightarrow> string" where
  "base64_std s = base64_encode s @ replicate ((3 - length s mod 3) mod 3) CHR ''=''"

section \<open>Nothing is lost\<close>

fun octets :: "nat list \<Rightarrow> nat list" where
  "octets (w # x # y # z # r) =
     (w * 4 + x div 16) # (x mod 16 * 16 + y div 4) # (y mod 4 * 64 + z) # octets r"
| "octets [w, x, y] = [w * 4 + x div 16, x mod 16 * 16 + y div 4]"
| "octets [w, x] = [w * 4 + x div 16]"
| "octets _ = []"

lemma octets_sextets: "list_all (\<lambda>n. n < 256) bs \<Longrightarrow> octets (sextets bs) = bs"
  by (induction bs rule: sextets.induct) auto

lemma sextets_bound: "list_all (\<lambda>n. n < 256) bs \<Longrightarrow> list_all (\<lambda>n. n < 64) (sextets bs)"
  by (induction bs rule: sextets.induct) auto

lemma base64_chars_inj: "m < 64 \<Longrightarrow> n < 64 \<Longrightarrow> base64_chars ! m = base64_chars ! n \<Longrightarrow> m = n"
proof -
  have "distinct base64_chars" "length base64_chars = 64" by code_simp+
  then show "m < 64 \<Longrightarrow> n < 64 \<Longrightarrow> base64_chars ! m = base64_chars ! n \<Longrightarrow> m = n"
    by (simp add: nth_eq_iff_index_eq)
qed

lemma map_base64_inj:
  "list_all (\<lambda>n. n < 64) xs \<Longrightarrow> list_all (\<lambda>n. n < 64) ys \<Longrightarrow>
     map (\<lambda>n. base64_chars ! n) xs = map (\<lambda>n. base64_chars ! n) ys \<Longrightarrow> xs = ys"
  by (rule map_inj_on [of "\<lambda>n. base64_chars ! n"])
    (auto simp: inj_on_def list_all_iff intro: base64_chars_inj)

lemma base64_encode_inj: "base64_encode s = base64_encode t \<Longrightarrow> s = t"
proof -
  have bytes: "list_all (\<lambda>n. n < 256) (map of_char u :: nat list)" for u :: string
    by (simp add: list_all_iff)
  assume "base64_encode s = base64_encode t"
  then have "sextets (map of_char s) = sextets (map of_char t)"
    unfolding base64_encode_def using map_base64_inj sextets_bound [OF bytes] by blast
  then have "map of_char s = (map of_char t :: nat list)"
    using octets_sextets [OF bytes] by metis
  then show "s = t" by (simp add: inj_map_eq_map inj_def)
qed

lemma length_sextets: "length (sextets bs) = (length bs * 4 + 2) div 3"
  by (induction bs rule: sextets.induct) auto

lemma length_base64_encode: "length (base64_encode s) = (length s * 4 + 2) div 3"
  by (simp add: base64_encode_def length_sextets)

lemma base64_encode_chars: "set (base64_encode s) \<subseteq> set base64_chars"
proof -
  have "list_all (\<lambda>n. n < 64) (sextets (map of_char s))"
    by (rule sextets_bound) (simp add: list_all_iff)
  moreover have "length base64_chars = 64" by code_simp
  ultimately show ?thesis by (auto simp: base64_encode_def list_all_iff intro!: nth_mem)
qed

text \<open>The padding starts behind as many characters as there were bytes.\<close>

lemma take_base64_std: "take (length s) (base64_std s) = take (length s) (base64_encode s)"
  by (simp add: base64_std_def length_base64_encode)

end
