(* ===== verification/Sandstorm_Webui.thy ===== *)
theory Sandstorm_Webui
  imports Net_Dialer Base64
begin

text \<open>
  \<open>sandstorm/webui/webui.go\<close>: the web interface of the Sandstorm app. Each handler is a function
  from what it reads of its request to the response and the values it sends on the channels of
  the \<open>Backend\<close> (\<open>backend_event\<close>); the handler waits until each is received.

  Parameters (\<open>web_env\<close>): the package \<open>xsrftoken\<close>, and \<open>ClaimRequest\<close> of the Sandstorm library.
  What \<open>ParseForm\<close> and the decoder of the form return is part of the request. Of the standard
  library the model has \<open>base64.RawStdEncoding\<close> (in \<open>Base64\<close>) and \<open>io.LimitReader\<close>.
\<close>

section \<open>The key for the tokens\<close>

text \<open>\<open>rand.Read\<close> fills the 16 bytes or returns an error.\<close>

definition genXSRFKey :: "error + string \<Rightarrow> error + string" where
  "genXSRFKey rand =
     (case rand of Inl err \<Rightarrow> Inl err | Inr rawBytes \<Rightarrow> Inr (base64_encode rawBytes))"

section \<open>The settings form\<close>

record settings_form =
  Config :: server_config
  XSRFToken :: string

record template_context =
  Form :: settings_form
  HaveNetwork :: bool

record web_env =
  xsrf_Valid :: "string \<Rightarrow> string \<Rightarrow> string \<Rightarrow> string \<Rightarrow> bool"
  xsrf_Generate :: "string \<Rightarrow> string \<Rightarrow> string \<Rightarrow> string"
  ClaimRequest :: "string \<Rightarrow> error + (error + nat)"

definition form_Validate :: "web_env \<Rightarrow> string \<Rightarrow> settings_form \<Rightarrow> error option" where
  "form_Validate env xsrfKey form =
     (if \<not> xsrf_Valid env (XSRFToken form) xsrfKey ''TODO'' ''/proxy-settings'' then Some ErrBadXSRFToken
      else if cfg_Port (Config form) = 0 then Some ErrIllegalPortNumber
      else None)"

section \<open>The handlers\<close>

datatype response =
    PageOK "template_context option"
  | SeeOther string
  | BadRequest "error option"      \<comment> \<open>status 400, the body is the text of the error\<close>

text \<open>The texts of the two errors of the form; \<open>other\<close> gives those of the errors of other packages.\<close>

definition error_text :: "(error \<Rightarrow> string) \<Rightarrow> error \<Rightarrow> string" where
  "error_text other err =
     (case err of
        ErrBadXSRFToken \<Rightarrow> ''Bad XSRF Token''
      | ErrIllegalPortNumber \<Rightarrow> ''Illegal Port Number (must be non-zero)''
      | _ \<Rightarrow> other err)"

text \<open>What is written to the client after the status.\<close>

fun error_body :: "(error \<Rightarrow> string) \<Rightarrow> response \<Rightarrow> string" where
  "error_body other (BadRequest (Some err)) = error_text other err"
| "error_body other r = []"

datatype backend_event =
    IpNetworkCap nat
  | SetServerConfig server_config
  | NewClient nat
  | AskServerConfig
  | AskHaveNetwork

text \<open>\<open>GET /\<close>, once the two values are received.\<close>

definition get_index :: "web_env \<Rightarrow> string \<Rightarrow> bool \<Rightarrow> server_config \<Rightarrow> response" where
  "get_index env xsrfKey haveNetwork config =
     PageOK (Some \<lparr>Form = \<lparr>Config = config, XSRFToken = xsrf_Generate env xsrfKey ''TODO'' ''/proxy-settings''\<rparr>,
                   HaveNetwork = haveNetwork\<rparr>)"

text \<open>\<open>POST /proxy-settings\<close>, from the results of \<open>ParseForm\<close> and of the decoder.\<close>

definition post_settings ::
  "web_env \<Rightarrow> string \<Rightarrow> error option \<Rightarrow> error + settings_form \<Rightarrow> response \<times> backend_event list" where
  "post_settings env xsrfKey parsed decoded =
     (let err = parsed;
          err = (if err = None then (case decoded of Inl e \<Rightarrow> Some e | Inr form \<Rightarrow> None) else err);
          err = (if err = None then (case decoded of Inr form \<Rightarrow> form_Validate env xsrfKey form | Inl e \<Rightarrow> err)
                 else err)
      in
        if err \<noteq> None then (BadRequest err, [])
        else case decoded of
               Inr form \<Rightarrow> (SeeOther ''/'', [SetServerConfig (Config form)])
             | Inl e \<Rightarrow> (BadRequest (Some e), []))"

text \<open>\<open>ReadAll\<close> of a body that delivers some bytes and then an error or the end, cut off by
  \<open>LimitReader\<close> after \<open>n\<close> bytes.\<close>

definition read_limited :: "nat \<Rightarrow> string \<times> error option \<Rightarrow> error + string" where
  "read_limited n body =
     (if length (fst body) \<ge> n then Inr (take n (fst body))
      else case snd body of Some err \<Rightarrow> Inl err | None \<Rightarrow> Inr (fst body))"

definition post_network_cap :: "web_env \<Rightarrow> string \<times> error option \<Rightarrow> response \<times> backend_event list" where
  "post_network_cap env body =
     (case read_limited 512 body of
        Inl err \<Rightarrow> (BadRequest None, [])
      | Inr buf \<Rightarrow>
          (case ClaimRequest env buf of
             Inl err \<Rightarrow> (BadRequest None, [])
           | Inr (Inl err) \<Rightarrow> (BadRequest None, [])
           | Inr (Inr capability) \<Rightarrow> (PageOK None, [IpNetworkCap capability])))"

text \<open>The requests the router has a handler for; \<open>/static/\<close> is left to the file server. A
  websocket is sent to the backend, and its handler returns once it is closed.\<close>

datatype request =
    GetIndex
  | GetStatic
  | PostSettings "error option" "error + settings_form"
  | PostNetworkCap "string \<times> error option"
  | GetConnect nat

fun request_events :: "web_env \<Rightarrow> string \<Rightarrow> request \<Rightarrow> backend_event list" where
  "request_events env xsrfKey GetIndex = [AskHaveNetwork, AskServerConfig]"
| "request_events env xsrfKey GetStatic = []"
| "request_events env xsrfKey (PostSettings parsed decoded) = snd (post_settings env xsrfKey parsed decoded)"
| "request_events env xsrfKey (PostNetworkCap body) = snd (post_network_cap env body)"
| "request_events env xsrfKey (GetConnect conn) = [NewClient conn]"

text \<open>\<open>NewHandler\<close>: every start of the app has a new key; the handlers are closures over it.\<close>

definition NewHandler :: "error + string \<Rightarrow> web_env \<Rightarrow> error + (request \<Rightarrow> backend_event list)" where
  "NewHandler rand env =
     (case genXSRFKey rand of
        Inl err \<Rightarrow> Inl err
      | Inr xsrfKey \<Rightarrow> Inr (request_events env xsrfKey))"

section \<open>A connection with a context\<close>

record contextRWC =
  crwc_conn :: nat
  crwc_closed :: bool
  crwc_cancelled :: bool

definition newContextRWC :: "nat \<Rightarrow> contextRWC" where
  "newContextRWC rwc = \<lparr>crwc_conn = rwc, crwc_closed = False, crwc_cancelled = False\<rparr>"

text \<open>\<open>close_err\<close> is what closing the wrapped connection returns.\<close>

definition contextRWC_Close :: "error option \<Rightarrow> contextRWC \<Rightarrow> error option \<times> contextRWC" where
  "contextRWC_Close close_err c =
     (let c = c\<lparr>crwc_closed := True\<rparr>; err = close_err in (err, c\<lparr>crwc_cancelled := True\<rparr>))"

section \<open>Only a checked configuration reaches the backend\<close>

lemma post_settings_sends:
  "snd (post_settings env xsrfKey parsed decoded) =
     (case decoded of
        Inr form \<Rightarrow> if parsed = None \<and> form_Validate env xsrfKey form = None
                     then [SetServerConfig (Config form)] else []
      | Inl e \<Rightarrow> [])"
  by (auto simp: post_settings_def split: sum.split)

lemma form_Validate_None:
  "form_Validate env xsrfKey form = None \<longleftrightarrow>
     xsrf_Valid env (XSRFToken form) xsrfKey ''TODO'' ''/proxy-settings'' \<and> cfg_Port (Config form) \<noteq> 0"
  by (simp add: form_Validate_def)

lemma post_settings_bad_port:
  assumes "xsrf_Valid env (XSRFToken form) xsrfKey ''TODO'' ''/proxy-settings''" and "cfg_Port (Config form) = 0"
  shows "snd (post_settings env xsrfKey None (Inr form)) = []
    \<and> error_body other (fst (post_settings env xsrfKey None (Inr form))) = ''Illegal Port Number (must be non-zero)''"
  using assms by (simp add: post_settings_def form_Validate_def error_text_def)

lemma request_config_checked:
  "SetServerConfig cfg \<in> set (request_events env xsrfKey req) \<Longrightarrow>
     cfg_Port cfg \<noteq> 0 \<and>
     (\<exists>form. req = PostSettings None (Inr form) \<and> cfg = Config form \<and>
       xsrf_Valid env (XSRFToken form) xsrfKey ''TODO'' ''/proxy-settings'')"
  by (cases req)
    (auto simp: post_settings_sends form_Validate_None post_network_cap_def split: sum.splits if_splits)

text \<open>
  Two runs of the app have the same key only if they drew the same random bytes: the encoding of
  the 16 bytes as 22 characters loses nothing.
\<close>

lemma genXSRFKey_inj: "genXSRFKey (Inr a) = genXSRFKey (Inr b) \<longleftrightarrow> a = b"
  using base64_encode_inj [of a b] by (auto simp: genXSRFKey_def)

lemma genXSRFKey_length: "length a = 16 \<Longrightarrow> genXSRFKey (Inr a) = Inr key \<Longrightarrow> length key = 22"
  by (auto simp: genXSRFKey_def length_base64_encode)

end
