(* ===== verification/Json_Text.thy ===== *)
theory Json_Text
  imports Prelude
begin

text \<open>
  The part of the standard library's \<open>encoding/json\<close> that the Sandstorm command relies on to keep
  its configuration in a file: the text of JSON values. A string is a list of bytes; those that
  are not valid UTF-8 are replaced when a string is written and when it is read, so writing and
  reading is not the identity. \<open>json_string_escape\<close> states what it is.
\<close>

section \<open>UTF-8\<close>

abbreviation byte :: "char \<Rightarrow> nat" where "byte c \<equiv> of_char c"

definition cont_byte :: "char \<Rightarrow> bool" where
  "cont_byte c \<longleftrightarrow> 128 \<le> byte c \<and> byte c \<le> 191"

text \<open>
  The length of the encoded rune in front, as \<open>utf8.DecodeRune\<close> accepts it: no overlong form, no
  surrogate, at most U+10FFFF. It is 0 when there is none.
\<close>

fun rune_len :: "string \<Rightarrow> nat" where
  "rune_len [] = 0"
| "rune_len (c # s) =
     (let b = byte c in
      if b < 128 then 1
      else if 194 \<le> b \<and> b \<le> 223 then (case s of c1 # _ \<Rightarrow> if cont_byte c1 then 2 else 0 | _ \<Rightarrow> 0)
      else if 224 \<le> b \<and> b \<le> 239 then
        (case s of
           c1 # c2 # _ \<Rightarrow>
             if cont_byte c1 \<and> (b = 224 \<longrightarrow> 160 \<le> byte c1) \<and> (b = 237 \<longrightarrow> byte c1 \<le> 159) \<and> cont_byte c2
             then 3 else 0
         | _ \<Rightarrow> 0)
      else if 240 \<le> b \<and> b \<le> 244 then
        (case s of
           c1 # c2 # c3 # _ \<Rightarrow>
             if cont_byte c1 \<and> (b = 240 \<longrightarrow> 144 \<le> byte c1) \<and> (b = 244 \<longrightarrow> byte c1 \<le> 143)
               \<and> cont_byte c2 \<and> cont_byte c3
             then 4 else 0
         | _ \<Rightarrow> 0)
      else 0)"

declare rune_len.simps(2) [simp del]

lemma rune_len_ascii [simp]: "byte c < 128 \<Longrightarrow> rune_len (c # s) = 1"
  by (simp add: rune_len.simps(2))

text \<open>The bytes of a rune that is no surrogate (\<open>utf8.EncodeRune\<close>).\<close>

definition encode_rune :: "nat \<Rightarrow> string" where
  "encode_rune r =
     map char_of
       (if r < 128 then [r]
        else if r < 2048 then [192 + r div 64, 128 + r mod 64]
        else if r < 65536 then [224 + r div 4096, 128 + r div 64 mod 64, 128 + r mod 64]
        else [240 + r div 262144, 128 + r div 4096 mod 64, 128 + r div 64 mod 64, 128 + r mod 64])"

definition replacement :: string where
  "replacement = [CHR 0xEF, CHR 0xBF, CHR 0xBD]"

text \<open>A string with every byte that is not part of a rune replaced by U+FFFD.\<close>

function to_valid_utf8 :: "string \<Rightarrow> string" where
  "to_valid_utf8 [] = []"
| "to_valid_utf8 (c # s) =
     (let n = rune_len (c # s) in
      if n = 0 then replacement @ to_valid_utf8 s
      else take n (c # s) @ to_valid_utf8 (drop n (c # s)))"
  by pat_completeness auto
termination by (relation "measure length") auto

function valid_utf8 :: "string \<Rightarrow> bool" where
  "valid_utf8 [] = True"
| "valid_utf8 (c # s) =
     (let n = rune_len (c # s) in if n = 0 then False else valid_utf8 (drop n (c # s)))"
  by pat_completeness auto
termination by (relation "measure length") auto

lemma to_valid_utf8_id: "valid_utf8 s \<Longrightarrow> to_valid_utf8 s = s"
  by (induction s rule: valid_utf8.induct) (auto simp: Let_def split: if_splits)

lemma valid_utf8_ascii: "list_all (\<lambda>c. byte c < 128) s \<Longrightarrow> valid_utf8 s"
  by (induction s) (simp_all add: Let_def)

lemma rune_len_le: "rune_len s \<le> length s"
  by (cases s) (auto simp: rune_len.simps(2) Let_def split: list.split)

text \<open>A rune is recognised by its own bytes, whatever follows.\<close>

lemma rune_len_take:
  assumes "rune_len s \<noteq> 0" shows "rune_len (take (rune_len s) s @ t) = rune_len s"
proof (cases s)
  case (Cons c cs)
  then consider "byte c < 128" | "194 \<le> byte c" "byte c \<le> 223" | "224 \<le> byte c" "byte c \<le> 239"
    | "240 \<le> byte c" "byte c \<le> 244"
    using assms by (auto simp: rune_len.simps(2) Let_def split: if_splits)
  then show ?thesis
    by cases (use assms Cons in \<open>auto simp: rune_len.simps(2) Let_def eval_nat_numeral split: list.splits if_splits\<close>)
qed (use assms in simp)

section \<open>Writing a string\<close>

abbreviation QUOTE :: char where "QUOTE \<equiv> CHR 0x22"
abbreviation BACKSLASH :: char where "BACKSLASH \<equiv> CHR 0x5C"

definition hex_char :: "nat \<Rightarrow> char" where
  "hex_char n = ''0123456789abcdef'' ! n"

text \<open>Besides what JSON asks for, the characters that mean something in HTML are escaped.\<close>

definition escape_ascii :: "char \<Rightarrow> string" where
  "escape_ascii c =
     (if c = QUOTE \<or> c = BACKSLASH then [BACKSLASH, c]
      else if c = LF then [BACKSLASH, CHR ''n'']
      else if c = CR then [BACKSLASH, CHR ''r'']
      else if c = CHR 0x09 then [BACKSLASH, CHR ''t'']
      else if byte c < 32 \<or> c \<in> set ''<>&'' then
        BACKSLASH # ''u00'' @ [hex_char (byte c div 16), hex_char (byte c mod 16)]
      else [c])"

definition escape_rune :: "string \<Rightarrow> string" where
  "escape_rune r =
     (if r = [CHR 0xE2, CHR 0x80, CHR 0xA8] then BACKSLASH # ''u2028''
      else if r = [CHR 0xE2, CHR 0x80, CHR 0xA9] then BACKSLASH # ''u2029''
      else r)"

function json_escape :: "string \<Rightarrow> string" where
  "json_escape [] = []"
| "json_escape (c # s) =
     (if byte c < 128 then escape_ascii c @ json_escape s
      else
        let n = rune_len (c # s) in
        if n = 0 then BACKSLASH # ''ufffd'' @ json_escape s
        else escape_rune (take n (c # s)) @ json_escape (drop n (c # s)))"
  by pat_completeness auto
termination by (relation "measure length") auto

definition json_quote :: "string \<Rightarrow> string" where
  "json_quote s = QUOTE # json_escape s @ [QUOTE]"

section \<open>Reading a string\<close>

definition hex_val :: "char \<Rightarrow> nat option" where
  "hex_val c =
     (let b = byte c in
      if 48 \<le> b \<and> b \<le> 57 then Some (b - 48)
      else if 97 \<le> b \<and> b \<le> 102 then Some (b - 87)
      else if 65 \<le> b \<and> b \<le> 70 then Some (b - 55)
      else None)"

fun hex4 :: "string \<Rightarrow> (nat \<times> string) option" where
  "hex4 (a # b # c # d # s) =
     (case (hex_val a, hex_val b, hex_val c, hex_val d) of
        (Some p, Some q, Some r, Some t) \<Rightarrow> Some (((p * 16 + q) * 16 + r) * 16 + t, s)
      | _ \<Rightarrow> None)"
| "hex4 _ = None"

text \<open>
  After \<open>\u\<close>: a rune, or a pair of surrogates that stands for one; a surrogate alone is replaced.
\<close>

definition unescape_u :: "string \<Rightarrow> (string \<times> string) option" where
  "unescape_u s =
     (case hex4 s of
        None \<Rightarrow> None
      | Some (r, s) \<Rightarrow>
          if r < 55296 \<or> 57344 \<le> r then Some (encode_rune r, s)
          else
            case (if take 2 s = [BACKSLASH, CHR ''u''] then hex4 (drop 2 s) else None) of
              None \<Rightarrow> Some (replacement, s)
            | Some (r2, s2) \<Rightarrow>
                if r < 56320 \<and> 56320 \<le> r2 \<and> r2 < 57344
                then Some (encode_rune ((r - 55296) * 1024 + (r2 - 56320) + 65536), s2)
                else Some (replacement, s))"

definition unescape_char :: "char \<Rightarrow> char option" where
  "unescape_char c =
     map_of (zip ([QUOTE, BACKSLASH] @ ''/bfnrt'')
       ([QUOTE, BACKSLASH] @ ''/'' @ [CHR 0x08, CHR 0x0C, LF, CR, CHR 0x09])) c"

fun prepend :: "string \<Rightarrow> (string \<times> string) option \<Rightarrow> (string \<times> string) option" where
  "prepend v (Some (w, s)) = Some (v @ w, s)"
| "prepend v None = None"

lemma hex4_shorter: "hex4 s = Some (r, s') \<Longrightarrow> length s' < length s"
  by (cases s rule: hex4.cases) (auto split: option.splits)

lemma unescape_u_shorter: "unescape_u s = Some (v, s') \<Longrightarrow> length s' < length s"
  by (auto simp: unescape_u_def split: option.splits if_splits dest!: hex4_shorter)

text \<open>After the opening quote: the bytes the text stands for, and what follows the closing one.\<close>

function json_string :: "string \<Rightarrow> (string \<times> string) option" where
  "json_string [] = None"
| "json_string (c # s) =
     (if c = QUOTE then Some ([], s)
      else if c = BACKSLASH then
        (case s of
           [] \<Rightarrow> None
         | e # s1 \<Rightarrow>
             if e = CHR ''u'' then
               (case unescape_u s1 of None \<Rightarrow> None | Some (v, s2) \<Rightarrow> prepend v (json_string s2))
             else
               (case unescape_char e of None \<Rightarrow> None | Some c1 \<Rightarrow> prepend [c1] (json_string s1)))
      else if byte c < 32 then None
      else
        let n = rune_len (c # s) in
        if n = 0 then prepend replacement (json_string s)
        else prepend (take n (c # s)) (json_string (drop n (c # s))))"
  by pat_completeness auto
termination by (relation "measure length") (auto dest: unescape_u_shorter)

lemma prepend_Some [simp]: "prepend w r = Some (v, t) \<longleftrightarrow> (\<exists>v'. r = Some (v', t) \<and> v = w @ v')"
  by (cases "(w, r)" rule: prepend.cases) auto

lemma json_string_shorter: "json_string s = Some (v, t) \<Longrightarrow> length t < length s"
proof (induction "length s" arbitrary: s v rule: less_induct)
  case less
  then obtain c cs where s: "s = c # cs" by (cases s) auto
  consider "c = QUOTE" | "c = BACKSLASH" | "c \<noteq> QUOTE" "c \<noteq> BACKSLASH" by blast
  then show ?case
  proof cases
    case 2
    with less.prems s obtain s' v' where "json_string s' = Some (v', t)" "length s' < length s"
      by (auto split: list.splits if_splits option.splits dest!: unescape_u_shorter)
    with less.hyps show ?thesis by fastforce
  next
    case 3
    then have "json_string s = (if byte c < 32 then None
        else if rune_len (c # cs) = 0 then prepend replacement (json_string cs)
        else prepend (take (rune_len (c # cs)) (c # cs)) (json_string (drop (rune_len (c # cs)) (c # cs))))"
      by (simp add: s Let_def)
    then obtain s' v' where "json_string s' = Some (v', t)" "length s' < length s"
      using less.prems s by (auto split: if_splits)
    with less.hyps show ?thesis by fastforce
  qed (use less.prems s in simp)
qed

section \<open>What is written is read back\<close>

lemma json_string_u: "json_string (BACKSLASH # CHR ''u'' # t) =
    (case unescape_u t of None \<Rightarrow> None | Some (v, t') \<Rightarrow> prepend v (json_string t'))"
  by simp

lemma byte_hex: "n < 16 \<Longrightarrow> hex_val (hex_char n) = Some n"
  by (auto simp: less_Suc_eq hex_char_def hex_val_def eval_nat_numeral)

lemma escape_ascii_read:
  assumes "byte c < 128" shows "json_string (escape_ascii c @ t) = prepend [c] (json_string t)"
proof (cases "byte c < 32 \<or> c \<in> set ''<>&''")
  case True
  have "hex4 (CHR ''0'' # CHR ''0'' # hex_char (byte c div 16) # hex_char (byte c mod 16) # t) = Some (byte c, t)"
    using assms by (simp add: byte_hex) (simp add: hex_val_def)
  moreover have "encode_rune (byte c) = [c]" using assms by (simp add: encode_rune_def)
  ultimately have u: "unescape_u (CHR ''0'' # CHR ''0'' # hex_char (byte c div 16) # hex_char (byte c mod 16) # t) = Some ([c], t)"
    using assms by (simp add: unescape_u_def)
  show ?thesis
  proof (cases "c \<in> {QUOTE, BACKSLASH, LF, CR, CHR 0x09}")
    case True
    then show ?thesis by (auto simp: escape_ascii_def unescape_char_def)
  next
    case False
    with \<open>byte c < 32 \<or> _\<close> have "escape_ascii c = BACKSLASH # CHR ''u'' # CHR ''0'' # CHR ''0'' #
        [hex_char (byte c div 16), hex_char (byte c mod 16)]"
      by (simp add: escape_ascii_def)
    then show ?thesis using u by (simp only: append_Cons append_Nil json_string_u) simp
  qed
next
  case False
  then show ?thesis using assms by (auto simp: escape_ascii_def unescape_char_def Let_def)
qed

lemma encoded_runes:
  "encode_rune 65533 = replacement"
  "encode_rune 8232 = [CHR 0xE2, CHR 0x80, CHR 0xA8]" "encode_rune 8233 = [CHR 0xE2, CHR 0x80, CHR 0xA9]"
  by (simp_all add: encode_rune_def replacement_def char_of_eq_iff)

lemma escape_rune_read:
  assumes "rune_len s \<noteq> 0" and "128 \<le> byte (hd s)"
  shows "json_string (escape_rune (take (rune_len s) s) @ t) = prepend (take (rune_len s) s) (json_string t)"
proof -
  obtain m where m: "rune_len s = Suc m" using assms(1) not0_implies_Suc by blast
  then obtain c cs where s: "take (rune_len s) s = c # cs" "c = hd s" by (cases s) auto
  have c: "c \<noteq> QUOTE" "c \<noteq> BACKSLASH" "\<not> byte c < 32" using assms(2) s(2) by auto
  have len: "length (c # cs) = rune_len s" using rune_len_le [of s] s(1) by (metis length_take min.absorb2)
  then have "json_string ((c # cs) @ t) = prepend (c # cs) (json_string t)"
    using c rune_len_take [OF assms(1), of t] s(1) m by (simp add: Let_def)
  moreover have "json_string (BACKSLASH # ''u2028'' @ t) = prepend [CHR 0xE2, CHR 0x80, CHR 0xA8] (json_string t)"
    "json_string (BACKSLASH # ''u2029'' @ t) = prepend [CHR 0xE2, CHR 0x80, CHR 0xA9] (json_string t)"
    by (simp_all add: unescape_u_def hex_val_def encoded_runes)
  ultimately show ?thesis unfolding s(1) escape_rune_def by simp
qed

lemma replacement_read: "json_string (BACKSLASH # ''ufffd'' @ t) = prepend replacement (json_string t)"
  by (simp add: unescape_u_def hex_val_def encoded_runes)

theorem json_string_escape: "json_string (json_escape s @ QUOTE # t) = Some (to_valid_utf8 s, t)"
proof (induction s rule: json_escape.induct)
  case (2 c s)
  show ?case
  proof (cases "byte c < 128")
    case True
    with 2 show ?thesis by (simp add: escape_ascii_read Let_def)
  next
    case big: False
    show ?thesis
    proof (cases "rune_len (c # s) = 0")
      case True
      with big 2 replacement_read [of "json_escape s @ QUOTE # t"] show ?thesis by (simp add: Let_def)
    next
      case False
      with big 2 escape_rune_read [OF False, of "json_escape (drop (rune_len (c # s)) (c # s)) @ QUOTE # t"]
      show ?thesis by (simp add: Let_def)
    qed
  qed
qed simp

end
