(* ===== verification/Config_Json.thy ===== *)
theory Config_Json
  imports Json_Text Net_Dialer
begin

text \<open>
  The rest of \<open>encoding/json\<close> that the Sandstorm command uses: \<open>Unmarshal\<close> of any text into a
  \<open>ServerConfig\<close>, and \<open>Marshal\<close> of one. \<open>Unmarshal\<close> first checks the whole text and then stores
  the values that fit; a value of the wrong type is skipped and reported at the end. The names
  of the fields are compared without regard to case, \<open>null\<close> stores nothing, and the last of
  several values for a field counts.

  The parser of values has fuel; \<open>json_fuel\<close> shows that twice the length of the text is
  enough.
\<close>

section \<open>Values\<close>

datatype json =
    JNull
  | JBool bool
  | JNum string                \<comment> \<open>the literal\<close>
  | JStr string
  | JArr "json list"
  | JObj "(string \<times> json) list"

definition json_space :: "char \<Rightarrow> bool" where
  "json_space c \<longleftrightarrow> c = SP \<or> c = CHR 0x09 \<or> c = CR \<or> c = LF"

definition skip_space :: "string \<Rightarrow> string" where
  "skip_space s = dropWhile json_space s"

definition is_digit :: "char \<Rightarrow> bool" where
  "is_digit c \<longleftrightarrow> c \<in> set digit_chars"

text \<open>At least one digit.\<close>

definition json_digits :: "string \<Rightarrow> (string \<times> string) option" where
  "json_digits s =
     (if takeWhile is_digit s = [] then None else Some (takeWhile is_digit s, dropWhile is_digit s))"

text \<open>The three parts of a number: without a superfluous zero, and two optional ones.\<close>

definition json_integer :: "string \<Rightarrow> (string \<times> string) option" where
  "json_integer s =
     (case s of
        c # t \<Rightarrow> if c = CHR ''0'' then Some ([c], t) else json_digits s
      | [] \<Rightarrow> None)"

definition json_fraction :: "string \<Rightarrow> (string \<times> string) option" where
  "json_fraction s =
     (case s of
        c # t \<Rightarrow> if c = CHR ''.'' then prepend [c] (json_digits t) else Some ([], s)
      | [] \<Rightarrow> Some ([], s))"

definition json_exponent :: "string \<Rightarrow> (string \<times> string) option" where
  "json_exponent s =
     (case s of
        c # t \<Rightarrow>
          if c \<in> set ''eE'' then
            (case t of
               sign # u \<Rightarrow> if sign \<in> set ''+-'' then prepend [c, sign] (json_digits u) else prepend [c] (json_digits t)
             | [] \<Rightarrow> None)
          else Some ([], s)
      | [] \<Rightarrow> Some ([], s))"

definition json_number :: "string \<Rightarrow> (string \<times> string) option" where
  "json_number s =
     (let (sign, s) = (case s of c # t \<Rightarrow> if c = CHR ''-'' then ([c], t) else ([], s) | [] \<Rightarrow> ([], s)) in
      case json_integer s of
        None \<Rightarrow> None
      | Some (i, s) \<Rightarrow>
          (case json_fraction s of
             None \<Rightarrow> None
           | Some (f, s) \<Rightarrow>
               (case json_exponent s of
                  None \<Rightarrow> None
                | Some (e, s) \<Rightarrow> Some (sign @ i @ f @ e, s))))"

text \<open>\<open>true\<close>, \<open>false\<close> and \<open>null\<close>.\<close>

definition json_word :: "string \<Rightarrow> (json \<times> string) option" where
  "json_word s =
     (if take 4 s = ''true'' then Some (JBool True, drop 4 s)
      else if take 5 s = ''false'' then Some (JBool False, drop 5 s)
      else if take 4 s = ''null'' then Some (JNull, drop 4 s)
      else None)"

fun map_fst :: "('a \<Rightarrow> 'b) \<Rightarrow> ('a \<times> string) option \<Rightarrow> ('b \<times> string) option" where
  "map_fst f (Some (x, s)) = Some (f x, s)"
| "map_fst f None = None"

fun json_value :: "nat \<Rightarrow> string \<Rightarrow> (json \<times> string) option"
  and json_elements :: "nat \<Rightarrow> string \<Rightarrow> (json list \<times> string) option"
  and json_members :: "nat \<Rightarrow> string \<Rightarrow> ((string \<times> json) list \<times> string) option"
where
  "json_value 0 s = None"
| "json_value (Suc n) s =
     (case skip_space s of
        [] \<Rightarrow> None
      | c # t \<Rightarrow>
          if c = QUOTE then map_fst JStr (json_string t)
          else if c = CHR ''{'' then
            (if take 1 (skip_space t) = ''}'' then Some (JObj [], drop 1 (skip_space t))
             else map_fst JObj (json_members n t))
          else if c = CHR ''['' then
            (if take 1 (skip_space t) = '']'' then Some (JArr [], drop 1 (skip_space t))
             else map_fst JArr (json_elements n t))
          else if c = CHR ''-'' \<or> is_digit c then map_fst JNum (json_number (c # t))
          else json_word (c # t))"
| "json_elements 0 s = None"
| "json_elements (Suc n) s =
     (case json_value n s of
        None \<Rightarrow> None
      | Some (v, s) \<Rightarrow>
          (case skip_space s of
             [] \<Rightarrow> None
           | c # t \<Rightarrow>
               if c = CHR '','' then map_fst ((#) v) (json_elements n t)
               else if c = CHR '']'' then Some ([v], t)
               else None))"
| "json_members 0 s = None"
| "json_members (Suc n) s =
     (if take 1 (skip_space s) \<noteq> [QUOTE] then None
      else case json_string (drop 1 (skip_space s)) of
        None \<Rightarrow> None
      | Some (k, s) \<Rightarrow>
          if take 1 (skip_space s) \<noteq> '':'' then None
          else case json_value n (drop 1 (skip_space s)) of
            None \<Rightarrow> None
          | Some (v, s) \<Rightarrow>
              (case skip_space s of
                 [] \<Rightarrow> None
               | c # t \<Rightarrow>
                   if c = CHR '','' then map_fst ((#) (k, v)) (json_members n t)
                   else if c = CHR ''}'' then Some ([(k, v)], t)
                   else None))"

text \<open>The whole text is one value.\<close>

definition json_parse :: "string \<Rightarrow> json option" where
  "json_parse s =
     (case json_value (2 * length s + 1) s of
        None \<Rightarrow> None
      | Some (v, t) \<Rightarrow> if skip_space t = [] then Some v else None)"

section \<open>Storing the values\<close>

text \<open>
  The comparison of \<open>encoding/json/fold.go\<close> for a name of letters: a letter matches itself in
  either case; S also matches U+017F, and K the Kelvin sign.
\<close>

definition to_upper :: "char \<Rightarrow> char" where
  "to_upper c = (if 97 \<le> byte c \<and> byte c \<le> 122 then char_of (byte c - 32) else c)"

fun equal_fold :: "string \<Rightarrow> string \<Rightarrow> bool" where
  "equal_fold [] t = (t = [])"
| "equal_fold (c # s) t =
     (if t = [] then False
      else if byte (hd t) < 128 then to_upper c = to_upper (hd t) \<and> equal_fold s (tl t)
      else if to_upper c = CHR ''S'' \<and> take 2 t = [CHR 0xC5, CHR 0xBF] then equal_fold s (drop 2 t)
      else if to_upper c = CHR ''K'' \<and> take 3 t = [CHR 0xE2, CHR 0x84, CHR 0xAA] then equal_fold s (drop 3 t)
      else False)"

text \<open>A literal of digits whose value fits into 16 bits.\<close>

definition parse_port :: "string \<Rightarrow> 16 word option" where
  "parse_port lit =
     (if list_all is_digit lit \<and> dec_value lit < 65536 then Some (of_nat (dec_value lit)) else None)"

text \<open>One member of the object: the configuration after it, and whether the value had a wrong type.\<close>

definition store_member :: "string \<times> json \<Rightarrow> server_config \<Rightarrow> bool \<times> server_config" where
  "store_member kv cfg =
     (let v = snd kv in
      if v = JNull then (False, cfg)
      else if equal_fold ''Host'' (fst kv) then
        (case v of JStr s \<Rightarrow> (False, cfg\<lparr>cfg_Host := s\<rparr>) | _ \<Rightarrow> (True, cfg))
      else if equal_fold ''Port'' (fst kv) then
        (case v of
           JNum lit \<Rightarrow> (case parse_port lit of Some p \<Rightarrow> (False, cfg\<lparr>cfg_Port := p\<rparr>) | None \<Rightarrow> (True, cfg))
         | _ \<Rightarrow> (True, cfg))
      else if equal_fold ''TLS'' (fst kv) then
        (case v of JBool b \<Rightarrow> (False, cfg\<lparr>cfg_TLS := b\<rparr>) | _ \<Rightarrow> (True, cfg))
      else (False, cfg))"

fun store_members :: "(string \<times> json) list \<Rightarrow> server_config \<Rightarrow> bool \<times> server_config" where
  "store_members [] cfg = (False, cfg)"
| "store_members (kv # kvs) cfg =
     (let (wrong, cfg) = store_member kv cfg; (wrongs, cfg) = store_members kvs cfg in (wrong \<or> wrongs, cfg))"

definition json_Unmarshal :: "string \<Rightarrow> server_config \<Rightarrow> error option \<times> server_config" where
  "json_Unmarshal buf cfg =
     (case json_parse buf of
        None \<Rightarrow> (Some ErrJSONSyntax, cfg)
      | Some v \<Rightarrow>
          (case v of
             JObj kvs \<Rightarrow>
               (let (wrong, cfg) = store_members kvs cfg in (if wrong then Some ErrJSONType else None, cfg))
           | JNull \<Rightarrow> (None, cfg)
           | _ \<Rightarrow> (Some ErrJSONType, cfg)))"

section \<open>Marshal\<close>

definition json_bool :: "bool \<Rightarrow> string" where
  "json_bool b = (if b then ''true'' else ''false'')"

text \<open>A \<open>ServerConfig\<close> has no field whose encoding can fail.\<close>

definition json_Marshal :: "server_config \<Rightarrow> error + string" where
  "json_Marshal cfg =
     Inr (''{'' @ json_quote ''Host'' @ '':'' @ json_quote (cfg_Host cfg) @ '',''
       @ json_quote ''Port'' @ '':'' @ dec_digits (unat (cfg_Port cfg)) @ '',''
       @ json_quote ''TLS'' @ '':'' @ json_bool (cfg_TLS cfg) @ ''}'')"

section \<open>The fuel is enough\<close>

lemma skip_space_le: "length (skip_space s) \<le> length s"
  by (simp add: skip_space_def length_dropWhile_le)

lemma skip_space_Cons: "skip_space s = c # t \<Longrightarrow> length t < length s"
  using skip_space_le [of s] by simp

lemma json_digits_shorter: "json_digits s = Some (d, t) \<Longrightarrow> length t < length s"
  by (cases s) (auto simp: json_digits_def le_imp_less_Suc length_dropWhile_le split: if_splits)

lemma json_number_shorter: "json_number s = Some (d, t) \<Longrightarrow> length t < length s"
proof -
  have i: "json_integer s = Some (d, t) \<Longrightarrow> length t < length s" for s d t
    by (auto simp: json_integer_def split: list.splits if_splits dest!: json_digits_shorter)
  have f: "json_fraction s = Some (d, t) \<Longrightarrow> length t \<le> length s" for s d t
    by (auto simp: json_fraction_def split: list.splits if_splits dest!: json_digits_shorter)
  have e: "json_exponent s = Some (d, t) \<Longrightarrow> length t \<le> length s" for s d t
    by (auto simp: json_exponent_def split: list.splits if_splits dest!: json_digits_shorter)
  show "json_number s = Some (d, t) \<Longrightarrow> length t < length s"
    by (auto simp: json_number_def split: prod.splits option.splits list.splits if_splits dest!: i f e)
qed

lemma json_word_shorter: "json_word s = Some (v, t) \<Longrightarrow> length t < length s"
  by (cases s) (auto simp: json_word_def split: if_splits)

lemma map_fst_Some [simp]: "map_fst f r = Some (y, t) \<longleftrightarrow> (\<exists>x. r = Some (x, t) \<and> y = f x)"
  by (cases "(f, r)" rule: map_fst.cases) auto

lemma take1_drop: "take 1 s = [c] \<Longrightarrow> length (drop 1 s) < length s"
  by (cases s) auto

lemma json_shorter:
  "json_value n s = Some (v, t) \<Longrightarrow> length t < length s"
  "json_elements n s = Some (vs, t) \<Longrightarrow> length t < length s"
  "json_members n s = Some (kvs, t) \<Longrightarrow> length t < length s"
proof (induction n s and n s and n s arbitrary: v t and vs t and kvs t rule: json_value_json_elements_json_members.induct)
  case (2 n s)
  then obtain c u where u: "skip_space s = c # u" by (auto split: list.splits)
  have d: "length (drop 1 (skip_space u)) \<le> length u" using skip_space_le [of u] by simp
  show ?case
    using 2 u skip_space_Cons [OF u] d
    by (auto split: if_splits dest: json_string_shorter json_number_shorter json_word_shorter)
      (fastforce dest: json_string_shorter json_number_shorter json_word_shorter)+
next
  case (4 n s)
  then obtain v1 s1 c u where u: "json_value n s = Some (v1, s1)" "skip_space s1 = c # u"
    by (auto split: option.splits list.splits)
  from 4(1) [OF u(1)] skip_space_Cons [OF u(2)] have "length u < length s" by simp
  with 4 u show ?case by (fastforce split: if_splits)
next
  case (6 n s)
  then obtain k s1 v1 s2 c u where u: "json_string (drop 1 (skip_space s)) = Some (k, s1)"
    "json_value n (drop 1 (skip_space s1)) = Some (v1, s2)" "skip_space s2 = c # u"
    by (auto split: option.splits list.splits if_splits)
  have "length s2 < length (drop 1 (skip_space s1))" using 6 u by (auto split: if_splits)
  then have "length u < length s"
    using skip_space_le [of s] skip_space_le [of s1] json_string_shorter [OF u(1)] skip_space_Cons [OF u(3)] by simp
  with 6 u show ?case by (fastforce split: if_splits)
qed simp_all

text \<open>With fuel for every byte, more fuel makes no difference.\<close>

lemma json_fuel:
  "2 * length s < n \<Longrightarrow> 2 * length s < m \<Longrightarrow> json_value n s = json_value m s"
  "2 * length s + 1 < n \<Longrightarrow> 2 * length s + 1 < m \<Longrightarrow> json_elements n s = json_elements m s"
  "2 * length s < n \<Longrightarrow> 2 * length s < m \<Longrightarrow> json_members n s = json_members m s"
proof (induction "length s" arbitrary: s n m rule: less_induct)
  case less
  have v: "json_value n s = json_value m s" if b: "2 * length s < n" "2 * length s < m" for n m
  proof -
    obtain n' m' where nm: "n = Suc n'" "m = Suc m'" using b by (cases n; cases m) auto
    show ?thesis
    proof (cases "skip_space s")
      case (Cons c t)
      then have t: "length t < length s" by (rule skip_space_Cons)
      then have "json_members n' t = json_members m' t" "json_elements n' t = json_elements m' t"
        using less.hyps(3) [OF t] less.hyps(2) [OF t] b nm by auto
      with Cons nm show ?thesis by simp
    qed (use nm in simp)
  qed
  {
    case 1 then show ?case by (rule v)
  next
    case 2
    then obtain n' m' where nm: "n = Suc n'" "m = Suc m'" by (cases n; cases m) auto
    with 2 have e: "json_value n' s = json_value m' s" by (intro v) simp_all
    show ?case
    proof (cases "json_value m' s")
      case (Some r)
      obtain x s1 where r: "r = (x, s1)" by (cases r)
      with Some have s1: "length s1 < length s" by (auto dest: json_shorter)
      have "json_elements n' t = json_elements m' t" if "skip_space s1 = c # t" for c t
      proof -
        have t: "length t < length s" using skip_space_Cons [OF that] s1 by simp
        with 2 nm show ?thesis by (intro less.hyps(2)) auto
      qed
      with Some r nm e show ?thesis by (auto split: list.split)
    qed (use nm e in simp)
  next
    case 3
    then obtain n' m' where nm: "n = Suc n'" "m = Suc m'" by (cases n; cases m) auto
    show ?case
    proof (cases "take 1 (skip_space s) = [QUOTE] \<and> json_string (drop 1 (skip_space s)) \<noteq> None")
      case True
      then obtain k s1 where k: "json_string (drop 1 (skip_space s)) = Some (k, s1)" by auto
      let ?s2 = "drop 1 (skip_space s1)"
      have s2: "length ?s2 + 1 < length s"
        using True skip_space_le [of s] skip_space_le [of s1] json_string_shorter [OF k] take1_drop [of "skip_space s"]
        by auto
      then have e: "json_value n' ?s2 = json_value m' ?s2" using 3 nm by (intro less.hyps(1)) auto
      have "json_members n' t = json_members m' t" if "json_value m' ?s2 = Some (x, s3)" "skip_space s3 = c # t" for x s3 c t
      proof -
        have t: "length t < length s" using skip_space_Cons [OF that(2)] json_shorter(1) [OF that(1)] s2 by simp
        with 3 nm show ?thesis by (intro less.hyps(3)) auto
      qed
      with True k nm e show ?thesis by (auto split: option.split list.split)
    qed (use nm in \<open>auto split: option.split\<close>)
  }
qed

section \<open>A configuration is read back\<close>

lemma dec_digits_first:
  "\<exists>c ds. dec_digits n = c # ds \<and> is_digit c \<and> list_all is_digit ds \<and> (c = CHR ''0'' \<longrightarrow> ds = [])"
proof (induction n rule: dec_digits.induct)
  case (1 n)
  have d: "is_digit (digit_chars ! (n mod 10))" by (simp add: is_digit_def digit_in)
  show ?case
  proof (cases "n < 10")
    case True
    with d show ?thesis by (simp add: dec_digits.simps)
  next
    case False
    with 1 obtain c ds where "dec_digits (n div 10) = c # ds" "is_digit c" "list_all is_digit ds"
      "c = CHR ''0'' \<longrightarrow> ds = []" by blast
    moreover have "dec_digits (n div 10) \<noteq> ''0''"
    proof
      assume "dec_digits (n div 10) = ''0''"
      then have "dec_value ''0'' = n div 10" using dec_value_digits [of "n div 10"] by simp
      with False show False by (simp add: dec_value_def)
    qed
    ultimately show ?thesis using False d by (subst dec_digits.simps) auto
  qed
qed

lemma json_number_digits: "json_number (dec_digits n @ CHR '','' # t) = Some (dec_digits n, CHR '','' # t)"
proof -
  obtain c ds where d: "dec_digits n = c # ds" "is_digit c" "list_all is_digit ds" "c = CHR ''0'' \<longrightarrow> ds = []"
    using dec_digits_first by blast
  have "\<not> is_digit CHR '',''" "c \<noteq> CHR ''-''" using d(2) by (auto simp: is_digit_def digit_chars_def)
  moreover from this(1) d(3) have "takeWhile is_digit (ds @ CHR '','' # t) = ds" "dropWhile is_digit (ds @ CHR '','' # t) = CHR '','' # t"
    by (induction ds) simp_all
  ultimately show ?thesis using d
    by (auto simp: json_number_def json_integer_def json_digits_def json_fraction_def json_exponent_def)
qed

lemma json_value_quote: "json_value (Suc n) (json_quote s @ t) = Some (JStr (to_valid_utf8 s), t)"
  by (simp add: json_quote_def skip_space_def json_space_def json_string_escape)

lemma json_value_digits:
  "json_value (Suc n) (dec_digits k @ CHR '','' # t) = Some (JNum (dec_digits k), CHR '','' # t)"
proof -
  obtain c ds where d: "dec_digits k = c # ds" "is_digit c" using dec_digits_first by blast
  then have "\<not> json_space c" "c \<noteq> QUOTE" "c \<noteq> CHR ''{''" "c \<noteq> CHR ''[''"
    by (auto simp: is_digit_def digit_chars_def json_space_def)
  with d json_number_digits [of k t] show ?thesis by (simp add: skip_space_def)
qed

lemma json_value_bool: "json_value (Suc n) (json_bool b @ CHR ''}'' # t) = Some (JBool b, CHR ''}'' # t)"
  by (simp add: json_bool_def skip_space_def json_space_def json_word_def is_digit_def digit_chars_def)

text \<open>A member, and what follows it.\<close>

lemma json_members_step:
  assumes "json_value n v = Some (x, s)"
  shows "json_members (Suc n) (json_quote k @ CHR '':'' # v) =
    (case skip_space s of
       [] \<Rightarrow> None
     | c # t \<Rightarrow>
         if c = CHR '','' then map_fst ((#) (to_valid_utf8 k, x)) (json_members n t)
         else if c = CHR ''}'' then Some ([(to_valid_utf8 k, x)], t)
         else None)"
  using assms by (simp add: json_quote_def skip_space_def json_space_def json_string_escape)

lemma skip_space_same [simp]: "\<not> json_space c \<Longrightarrow> skip_space (c # s) = c # s"
  by (simp add: skip_space_def)

lemma json_space_punct [simp]: "\<not> json_space CHR '',''" "\<not> json_space CHR ''}''" "\<not> json_space CHR ''{''" "\<not> json_space QUOTE"
  by (simp_all add: json_space_def)

lemma valid_names [simp]: "to_valid_utf8 ''Host'' = ''Host''" "to_valid_utf8 ''Port'' = ''Port''" "to_valid_utf8 ''TLS'' = ''TLS''"
  by (simp_all add: Let_def)

lemma parse_Marshal:
  assumes "json_Marshal cfg = Inr buf"
  shows "json_parse buf = Some (JObj [(''Host'', JStr (to_valid_utf8 (cfg_Host cfg))),
    (''Port'', JNum (dec_digits (unat (cfg_Port cfg)))), (''TLS'', JBool (cfg_TLS cfg))])"
proof -
  let ?tls = "json_quote ''TLS'' @ CHR '':'' # json_bool (cfg_TLS cfg) @ ''}''"
  let ?port = "json_quote ''Port'' @ CHR '':'' # dec_digits (unat (cfg_Port cfg)) @ CHR '','' # ?tls"
  let ?host = "json_quote ''Host'' @ CHR '':'' # json_quote (cfg_Host cfg) @ CHR '','' # ?port"
  have buf: "buf = CHR ''{'' # ?host" using assms by (simp add: json_Marshal_def)
  have t: "json_members (Suc (Suc n)) ?tls = Some ([(''TLS'', JBool (cfg_TLS cfg))], [])" for n
    using json_members_step [OF json_value_bool [of n "cfg_TLS cfg" "[]"], of "''TLS''"] by simp
  have p: "json_members (Suc (Suc (Suc n))) ?port =
      Some ([(''Port'', JNum (dec_digits (unat (cfg_Port cfg)))), (''TLS'', JBool (cfg_TLS cfg))], [])" for n
    using json_members_step [OF json_value_digits [of "Suc n" _ ?tls], of "''Port''"] t by simp
  have h: "json_members (Suc (Suc (Suc (Suc n)))) ?host =
      Some ([(''Host'', JStr (to_valid_utf8 (cfg_Host cfg))), (''Port'', JNum (dec_digits (unat (cfg_Port cfg)))),
        (''TLS'', JBool (cfg_TLS cfg))], [])" for n
    using json_members_step [OF json_value_quote [of "Suc (Suc n)" _ "CHR '','' # ?port"], of "''Host''"] p by simp
  have q: "take 1 (skip_space ?host) = [QUOTE]" by (simp add: json_quote_def)
  have "length buf \<ge> 3" using buf by (simp add: json_quote_def)
  then obtain n where n: "2 * length buf + 1 = Suc (Suc (Suc (Suc (Suc n))))"
    using le_Suc_ex [of 5 "2 * length buf + 1"] by (auto simp: eval_nat_numeral)
  have "json_value (Suc (Suc (Suc (Suc (Suc n))))) buf = Some (JObj [(''Host'', JStr (to_valid_utf8 (cfg_Host cfg))),
    (''Port'', JNum (dec_digits (unat (cfg_Port cfg)))), (''TLS'', JBool (cfg_TLS cfg))], [])"
    using h [of n] q by (simp add: buf del: json_members.simps)
  with n show ?thesis by (simp add: json_parse_def skip_space_def)
qed

lemma field_names:
  "equal_fold ''Host'' ''Host''" "equal_fold ''Port'' ''Port''" "equal_fold ''TLS'' ''TLS''"
  "\<not> equal_fold ''Host'' ''Port''" "\<not> equal_fold ''Host'' ''TLS''" "\<not> equal_fold ''Port'' ''TLS''"
  by (simp_all add: to_upper_def char_of_eq_iff)

theorem Unmarshal_Marshal:
  assumes "json_Marshal cfg = Inr buf"
  shows "json_Unmarshal buf cfg0 = (None, cfg\<lparr>cfg_Host := to_valid_utf8 (cfg_Host cfg)\<rparr>)"
proof -
  have "list_all is_digit (dec_digits k)" for k using dec_digits_first [of k] by auto
  moreover have "unat (cfg_Port cfg) < 65536" using unsigned_less [of "cfg_Port cfg", where 'a = nat] by simp
  ultimately have "parse_port (dec_digits (unat (cfg_Port cfg))) = Some (cfg_Port cfg)"
    by (simp add: parse_port_def)
  then show ?thesis
    by (simp add: json_Unmarshal_def parse_Marshal [OF assms] store_member_def field_names Let_def del: equal_fold.simps)
qed

end
