(* ===== verification/Sandstorm_Main.thy ===== *)
theory Sandstorm_Main
  imports Sandstorm_Webui Config_Json
begin

text \<open>
  \<open>cmd/sandstorm-irc-idler/main.go\<close>: the process of the Sandstorm app. Its loop receives what the
  handlers of \<open>Sandstorm_Webui\<close> send, restarts the proxy daemon when the server configuration or
  the network capability changes, and hands the connections of clients to the daemon.

  The variables of \<open>main\<close> that the closures share are the fields of \<open>main_state\<close>; a \<open>*proxy.Proxy\<close>
  is a number, and so is the channel \<open>daemonClientConns\<close>, which gets the number of the daemon
  made with it. \<open>actions\<close> records what is done to the world. A send on a nil channel would
  never return: it is \<open>Fail Blocked\<close>.

  Parameters (\<open>main_env\<close>): the random bytes of the key; the results of connecting to the Sandstorm
  API and of opening the database, of reading and writing files, and of \<open>Save\<close> and \<open>Restore\<close> of
  that API.
\<close>

section \<open>State\<close>

datatype main_action =
    StoppedDaemon nat
  | StartedDaemon nat nat dialer_connector  \<comment> \<open>its number, its network, its connector\<close>
  | SentConn nat nat                        \<comment> \<open>the channel and the connection\<close>
  | ClosedConn nat
  | WroteFile string bool
  | GaveServerConfig server_config
  | GaveHaveNetwork bool

record main_state =
  serverConfig :: server_config
  daemon :: "nat option"
  daemonClientConns :: "nat option"
  ipNetwork :: "nat option"
  files :: "string \<Rightarrow> string option"
  next_daemon :: nat
  actions :: "main_action list"

text \<open>A failing write returns an error, and what the file holds after it.\<close>

record main_env =
  rand_Read :: "error + string"
  ConnectAPI_err :: "error option"
  open_err :: "error option"
  ping_err :: "error option"
  read_err :: "string \<Rightarrow> error option"
  file_err :: "nat \<Rightarrow> string \<Rightarrow> (error \<times> string option) option"
  api_Save :: "nat \<Rightarrow> error + (error + string)"
  api_Restore :: "string \<Rightarrow> error + nat"

definition zero_config :: server_config where
  "zero_config = \<lparr>cfg_Host = [], cfg_Port = 0, cfg_TLS = False\<rparr>"

definition ipNetworkCapFile :: string where "ipNetworkCapFile = ''/var/ipNetworkCap''"
definition serverConfigFile :: string where "serverConfigFile = ''/var/server-config.json''"

section \<open>Files\<close>

definition ReadFile :: "main_env \<Rightarrow> string \<Rightarrow> main_state \<Rightarrow> error + string" where
  "ReadFile env path st =
     (case read_err env path of
        Some err \<Rightarrow> Inl err
      | None \<Rightarrow> (case files st path of None \<Rightarrow> Inl (ErrIO 0) | Some buf \<Rightarrow> Inr buf))"

definition WriteFile :: "main_env \<Rightarrow> string \<Rightarrow> string \<Rightarrow> main_state \<Rightarrow> error option \<times> main_state" where
  "WriteFile env path buf st =
     (case file_err env (length (actions st)) path of
        None \<Rightarrow>
          (None, st\<lparr>files := (files st)(path := Some buf), actions := actions st @ [WroteFile path True]\<rparr>)
      | Some (err, left) \<Rightarrow>
          (Some err, st\<lparr>files := (files st)(path := left), actions := actions st @ [WroteFile path False]\<rparr>))"

definition saveServerConfig :: "main_env \<Rightarrow> server_config \<Rightarrow> main_state \<Rightarrow> error option \<times> main_state" where
  "saveServerConfig env cfg st =
     (case json_Marshal cfg of
        Inl err \<Rightarrow> (Some err, st)
      | Inr buf \<Rightarrow> WriteFile env serverConfigFile buf st)"

definition loadServerConfig :: "main_env \<Rightarrow> main_state \<Rightarrow> server_config \<times> error option" where
  "loadServerConfig env st =
     (case ReadFile env serverConfigFile st of
        Inl err \<Rightarrow> (zero_config, Some err)
      | Inr buf \<Rightarrow>
          (case json_Unmarshal buf zero_config of
             (Some err, ret) \<Rightarrow> (zero_config, Some err)
           | (None, ret) \<Rightarrow> (ret, None)))"

definition saveIpNetwork :: "main_env \<Rightarrow> nat \<Rightarrow> main_state \<Rightarrow> error option \<times> main_state" where
  "saveIpNetwork env ipNetworkCap st =
     (case api_Save env ipNetworkCap of
        Inl err \<Rightarrow> (Some err, st)
      | Inr (Inl err) \<Rightarrow> (Some err, st)
      | Inr (Inr token) \<Rightarrow> WriteFile env ipNetworkCapFile token st)"

definition loadIpNetwork :: "main_env \<Rightarrow> main_state \<Rightarrow> error + nat" where
  "loadIpNetwork env st =
     (case ReadFile env ipNetworkCapFile st of
        Inl err \<Rightarrow> Inl err
      | Inr token \<Rightarrow> (case api_Restore env token of Inl err \<Rightarrow> Inl err | Inr capability \<Rightarrow> Inr capability))"

section \<open>The daemon\<close>

definition config_connector :: "server_config \<Rightarrow> dialer_connector" where
  "config_connector cfg =
     \<lparr>dc_Dialer = (if cfg_TLS cfg then TLSDialer BaseDialer else BaseDialer),
      dc_Network = ''tcp'', dc_Addr = ServerConfig_String cfg\<rparr>"

definition newDaemon :: "main_state \<Rightarrow> main_state res" where
  "newDaemon st =
     (let st = (case daemon st of
                  None \<Rightarrow> st
                | Some k \<Rightarrow> st\<lparr>actions := actions st @ [StoppedDaemon k], daemon := None\<rparr>);
          k = next_daemon st;
          st = st\<lparr>daemonClientConns := Some k\<rparr>
      in
        case ipNetwork st of
          None \<Rightarrow> Fail Panic
        | Some net \<Rightarrow>
            Ret (st\<lparr>daemon := Some k, next_daemon := Suc k,
                    actions := actions st @ [StartedDaemon k net (config_connector (serverConfig st))]\<rparr>))"

text \<open>\<open>main\<close> up to the loop, on the files an earlier run left. The capability is not restored
  (that code is commented out), so the guard of \<open>newDaemon\<close> is false.\<close>

definition main_start :: "main_env \<Rightarrow> (string \<Rightarrow> string option) \<Rightarrow> main_state res" where
  "main_start env fs =
     (let st = \<lparr>serverConfig = zero_config, daemon = None, daemonClientConns = None, ipNetwork = None,
                files = fs, next_daemon = 0, actions = []\<rparr>;
          st = st\<lparr>serverConfig := fst (loadServerConfig env st)\<rparr>
      in if cfg_Port (serverConfig st) \<noteq> 0 \<and> ipNetwork st \<noteq> None then newDaemon st else Ret st)"

text \<open>The whole set-up: it fails for good, or there are a key for the handlers and a state to start
  the loop in.\<close>

definition sandstorm_main ::
  "main_env \<Rightarrow> (string \<Rightarrow> string option) \<Rightarrow> error + string \<times> main_state res" where
  "sandstorm_main env fs =
     (case genXSRFKey (rand_Read env) of
        Inl err \<Rightarrow> Inl err
      | Inr xsrfKey \<Rightarrow>
     (case ConnectAPI_err env of
        Some err \<Rightarrow> Inl err
      | None \<Rightarrow>
     (case open_err env of
        Some err \<Rightarrow> Inl err
      | None \<Rightarrow>
     (case ping_err env of
        Some err \<Rightarrow> Inl err
      | None \<Rightarrow> Inr (xsrfKey, main_start env fs)))))"

text \<open>One round of the loop.\<close>

fun main_round :: "main_env \<Rightarrow> backend_event \<Rightarrow> main_state \<Rightarrow> main_state res" where
  "main_round env (IpNetworkCap ipNetworkCap) st =
     (let st = snd (saveIpNetwork env ipNetworkCap st);
          st = st\<lparr>ipNetwork := Some ipNetworkCap\<rparr>
      in if cfg_Port (serverConfig st) \<noteq> 0 then newDaemon st else Ret st)"
| "main_round env (SetServerConfig cfg) st =
     (let st = st\<lparr>serverConfig := cfg\<rparr>;
          st = snd (saveServerConfig env cfg st)
      in if ipNetwork st \<noteq> None then newDaemon st else Ret st)"
| "main_round env (NewClient conn) st =
     (if daemon st = None then Ret (st\<lparr>actions := actions st @ [ClosedConn conn]\<rparr>)
      else case daemonClientConns st of
             None \<Rightarrow> Fail Blocked
           | Some ch \<Rightarrow> Ret (st\<lparr>actions := actions st @ [SentConn ch conn]\<rparr>))"
| "main_round env AskServerConfig st =
     Ret (st\<lparr>actions := actions st @ [GaveServerConfig (serverConfig st)]\<rparr>)"
| "main_round env AskHaveNetwork st =
     Ret (st\<lparr>actions := actions st @ [GaveHaveNetwork (ipNetwork st \<noteq> None)]\<rparr>)"

text \<open>The events are those some request makes a handler send, in any order.\<close>

inductive main_reachable ::
  "main_env \<Rightarrow> web_env \<Rightarrow> string \<Rightarrow> (string \<Rightarrow> string option) \<Rightarrow> main_state \<Rightarrow> bool"
  for env wenv xsrfKey fs where
  start: "main_start env fs = Ret st \<Longrightarrow> main_reachable env wenv xsrfKey fs st"
| round: "main_reachable env wenv xsrfKey fs st \<Longrightarrow> ev \<in> set (request_events wenv xsrfKey req) \<Longrightarrow>
    main_round env ev st = Ret st' \<Longrightarrow> main_reachable env wenv xsrfKey fs st'"

section \<open>What the actions may be\<close>

text \<open>
  The abstract view: at any time at most one daemon runs, with a network and a connector. A
  daemon starts when none runs; only the daemon that runs is stopped or given connections.
  The result is the daemon that runs at the end, \<open>None\<close> if the rules were broken on the way.
\<close>

fun daemon_after ::
  "(nat \<times> nat \<times> dialer_connector) option \<Rightarrow> main_action list \<Rightarrow> (nat \<times> nat \<times> dialer_connector) option option" where
  "daemon_after d [] = Some d"
| "daemon_after d (StartedDaemon k net dc # acts) =
     (if d = None then daemon_after (Some (k, net, dc)) acts else None)"
| "daemon_after d (StoppedDaemon k # acts) =
     (if map_option fst d = Some k then daemon_after None acts else None)"
| "daemon_after d (SentConn k conn # acts) =
     (if map_option fst d = Some k then daemon_after d acts else None)"
| "daemon_after d (act # acts) = daemon_after d acts"

lemma daemon_after_append:
  "daemon_after d (acts @ acts') =
     (case daemon_after d acts of None \<Rightarrow> None | Some d' \<Rightarrow> daemon_after d' acts')"
  by (induction d acts rule: daemon_after.induct) auto

section \<open>The invariant\<close>

definition daemon_view :: "main_state \<Rightarrow> (nat \<times> nat \<times> dialer_connector) option" where
  "daemon_view st =
     (case daemon st of
        None \<Rightarrow> None
      | Some k \<Rightarrow> Some (k, the (ipNetwork st), config_connector (serverConfig st)))"

text \<open>The daemon runs exactly when there is a server to connect to and a network to do it, and
  it runs with the current ones.\<close>

definition wf_main :: "main_state \<Rightarrow> bool" where
  "wf_main st \<longleftrightarrow>
     (daemon st = None \<longleftrightarrow> cfg_Port (serverConfig st) = 0 \<or> ipNetwork st = None) \<and>
     (daemon st \<noteq> None \<longrightarrow> daemonClientConns st = daemon st) \<and>
     daemon_after None (actions st) = Some (daemon_view st)"

lemma WriteFile_same [simp]:
  "serverConfig (snd (WriteFile env path buf st)) = serverConfig st"
  "daemon (snd (WriteFile env path buf st)) = daemon st"
  "daemonClientConns (snd (WriteFile env path buf st)) = daemonClientConns st"
  "ipNetwork (snd (WriteFile env path buf st)) = ipNetwork st"
  "daemon_after None (actions (snd (WriteFile env path buf st))) = daemon_after None (actions st)"
  by (auto simp: WriteFile_def daemon_after_append split: option.splits)

lemma save_same [simp]:
  "serverConfig (snd (saveServerConfig env cfg st)) = serverConfig st"
  "daemon (snd (saveServerConfig env cfg st)) = daemon st"
  "daemonClientConns (snd (saveServerConfig env cfg st)) = daemonClientConns st"
  "ipNetwork (snd (saveServerConfig env cfg st)) = ipNetwork st"
  "daemon_after None (actions (snd (saveServerConfig env cfg st))) = daemon_after None (actions st)"
  "serverConfig (snd (saveIpNetwork env cap st)) = serverConfig st"
  "daemon (snd (saveIpNetwork env cap st)) = daemon st"
  "daemonClientConns (snd (saveIpNetwork env cap st)) = daemonClientConns st"
  "daemon_after None (actions (snd (saveIpNetwork env cap st))) = daemon_after None (actions st)"
  by (auto simp: saveServerConfig_def saveIpNetwork_def split: sum.splits)

text \<open>Restarting the daemon makes the state good again, whatever the old daemon ran with.\<close>

lemma newDaemon_wf:
  assumes "daemon_after None (actions st) = Some d" and "map_option fst d = daemon st"
    and "ipNetwork st \<noteq> None" and "cfg_Port (serverConfig st) \<noteq> 0"
  shows "\<exists>st'. newDaemon st = Ret st' \<and> wf_main st'"
  using assms
  by (auto simp: newDaemon_def wf_main_def daemon_view_def daemon_after_append Let_def split: option.splits)

lemma daemon_view_fst [simp]: "map_option fst (daemon_view st) = daemon st"
  by (simp add: daemon_view_def split: option.split)

lemma main_start_wf: "\<exists>st. main_start env fs = Ret st \<and> wf_main st"
  by (simp add: main_start_def wf_main_def daemon_view_def)

lemma sandstorm_main_starts:
  assumes "sandstorm_main env fs = Inr (xsrfKey, r)"
  shows "\<exists>st. r = Ret st \<and> main_reachable env wenv xsrfKey fs st \<and> daemon st = None"
proof -
  have "r = main_start env fs" using assms by (auto simp: sandstorm_main_def split: sum.splits option.splits)
  moreover obtain st where "main_start env fs = Ret st" "daemon st = None" by (simp add: main_start_def)
  ultimately show ?thesis by (auto intro: main_reachable.start)
qed

lemma main_round_wf:
  assumes "wf_main st" and "ev \<in> set (request_events wenv xsrfKey req)"
  shows "\<exists>st'. main_round env ev st = Ret st' \<and> wf_main st'"
proof (cases ev)
  case (IpNetworkCap cap)
  let ?st = "(snd (saveIpNetwork env cap st))\<lparr>ipNetwork := Some cap\<rparr>"
  show ?thesis
  proof (cases "cfg_Port (serverConfig st) = 0")
    case True
    with assms(1) IpNetworkCap show ?thesis by (auto simp: wf_main_def daemon_view_def)
  next
    case False
    have "\<exists>st'. newDaemon ?st = Ret st' \<and> wf_main st'"
      by (rule newDaemon_wf [where d = "daemon_view st"]) (use assms(1) False in \<open>auto simp: wf_main_def\<close>)
    with IpNetworkCap False show ?thesis by simp
  qed
next
  case (SetServerConfig cfg)
  let ?st = "snd (saveServerConfig env cfg (st\<lparr>serverConfig := cfg\<rparr>))"
  have port: "cfg_Port cfg \<noteq> 0" using request_config_checked assms(2) SetServerConfig by blast
  show ?thesis
  proof (cases "ipNetwork st = None")
    case True
    with assms(1) SetServerConfig port show ?thesis by (auto simp: wf_main_def daemon_view_def)
  next
    case False
    have "\<exists>st'. newDaemon ?st = Ret st' \<and> wf_main st'"
      by (rule newDaemon_wf [where d = "daemon_view st"]) (use assms(1) False port in \<open>auto simp: wf_main_def\<close>)
    with SetServerConfig False show ?thesis by simp
  qed
qed (use assms(1) in \<open>auto simp: wf_main_def daemon_after_append daemon_view_def\<close>)

lemma main_reachable_wf: "main_reachable env wenv xsrfKey fs st \<Longrightarrow> wf_main st"
proof (induction rule: main_reachable.induct)
  case (start st)
  then show ?case using main_start_wf [of env fs] by auto
next
  case (round st ev req st')
  with main_round_wf [OF round.IH round.hyps(2), of env] show ?case by auto
qed

section \<open>The saved configuration\<close>

lemma loadServerConfig_zero:
  "loadServerConfig env st = (cfg, Some err) \<Longrightarrow> cfg = zero_config"
  by (auto simp: loadServerConfig_def split: sum.splits prod.splits option.splits)

lemma load_after_save:
  assumes "saveServerConfig env cfg st = (None, st')"
    and "read_err env serverConfigFile = None" and "files st'' = files st'"
  shows "loadServerConfig env st'' = (cfg\<lparr>cfg_Host := to_valid_utf8 (cfg_Host cfg)\<rparr>, None)"
proof -
  obtain buf where buf: "json_Marshal cfg = Inr buf" by (simp add: json_Marshal_def)
  with assms Unmarshal_Marshal [OF buf, of zero_config] show ?thesis
    by (auto simp: saveServerConfig_def loadServerConfig_def WriteFile_def ReadFile_def split: option.splits)
qed

end
