(* ===== verification/Proxy_Total.thy ===== *)
theory Proxy_Total
  imports Proxy_Progress
begin

text \<open>
  The daemon does not die. A round of \<open>Run\<close> makes each log at most one message longer, so fuel
  beyond the longest log and the number of events is enough for every replay of a run; and no
  event of a run panics, if the server sends no KICK or PART without parameters.
\<close>

section \<open>How long the logs get\<close>

definition logs_within :: "('s \<Rightarrow> string \<Rightarrow> message list) \<Rightarrow> nat \<Rightarrow> 's \<Rightarrow> bool" where
  "logs_within contents B s \<longleftrightarrow> (\<forall>name. length (contents s name) \<le> B)"

lemma logs_within_mono: "logs_within f B s \<Longrightarrow> B \<le> B' \<Longrightarrow> logs_within f B' s"
  by (auto simp: logs_within_def intro: order_trans)

lemma send_messages_logs:
  "ensures (send_messages env ms p) (\<lambda>(e, q). messagelogs q = messagelogs p)"
proof (induction ms arbitrary: p)
  case (Cons m ms)
  show ?case unfolding send_messages.simps
    by (rule ensures_andThen [OF sendClient_logs]) (use Cons in \<open>auto simp: ensures_def split: if_splits\<close>)
qed simp

lemma handshake_logs:
  "ensures (handleHandshakeMessage env m p) (\<lambda>q. messagelogs q = messagelogs p)"
  unfolding handleHandshakeMessage_def Let_def
  by (intro ensures_if do_sendServer_logs ensures_unless [where P = "\<lambda>q. messagelogs q = messagelogs p"]
      send_messages_logs) (use do_sendServer_logs in \<open>fastforce simp: ensures_def\<close>)+

lemma check_logs:
  "ensures (check_client env p) (\<lambda>q. messagelogs q = messagelogs p)"
  "ensures (check_server env p) (\<lambda>q. messagelogs q = messagelogs p)"
proof -
  have c: "ensures (andThen (do_sendClient env m q) (\<lambda>p. Ret (client_update f p))) (\<lambda>q'. messagelogs q' = messagelogs q)"
    and s: "ensures (andThen (do_sendServer env m q) (\<lambda>p. Ret (server_update f p))) (\<lambda>q'. messagelogs q' = messagelogs q)"
    for m q f
    by (rule ensures_andThen [OF do_sendClient_logs], simp)
      (rule ensures_andThen [OF do_sendServer_logs], simp)
  show "ensures (check_client env p) (\<lambda>q. messagelogs q = messagelogs p)"
    using c [of _ "p\<lparr>tick := Suc (tick p)\<rparr>"]
    by (auto simp: check_client_def checkTimeout_def time_Now_def)
  show "ensures (check_server env p) (\<lambda>q. messagelogs q = messagelogs p)"
    using s [of _ "p\<lparr>tick := Suc (tick p)\<rparr>"]
    by (auto simp: check_server_def checkTimeout_def time_Now_def)
qed

context log_store begin

text \<open>A good store whose logs have at most \<open>B\<close> messages each, of the commands that are logged.\<close>

abbreviation small where
  "small B p \<equiv> inv (messagelogs p) \<and> logs_within contents B (messagelogs p)
     \<and> quiet_logs (contents (messagelogs p))"

lemma small_same:
  "small B p \<Longrightarrow> ensures r (\<lambda>q. messagelogs q = messagelogs p) \<Longrightarrow> ensures r (small B)"
  by (auto simp: ensures_def)

lemma small_sendClient: "small B p \<Longrightarrow> ensures (sendClient env m p) (\<lambda>(e, q). small B q)"
  using sendClient_logs [of env m p] by (auto simp: ensures_def)

lemma small_replayLog:
  assumes "store env = ops" and "small B p" shows "ensures (replayLog env name p) (small B)"
  using replayLog_all_or_nothing [OF assms(1), of p name] assms(2)
  by (auto simp: ensures_def logs_within_def quiet_logs_def split: if_splits)

lemma small_logMessage:
  assumes "store env = ops" and "small B p" and "keeps m"
  shows "ensures (logMessage env m p) (small (Suc B))"
proof (cases "Command m \<in> set logged_commands \<and> Params m = []")
  case True
  then show ?thesis by (auto simp: logMessage_def logged_commands_def)
next
  case False
  have f: "logs_within contents (Suc B) s \<and> quiet_logs (contents s)"
    if "contents s = contents (messagelogs p) \<or> Command m \<in> set logged_commands
      \<and> contents s = (contents (messagelogs p))(Params m ! 0 := contents (messagelogs p) (Params m ! 0) @ [m])" for s
  proof (cases "contents s = contents (messagelogs p)")
    case True
    with assms(2) show ?thesis by (simp add: logs_within_def le_SucI)
  next
    case neq: False
    with that False have "Command m \<in> set logged_commands" "Params m \<noteq> []"
      "contents s = (contents (messagelogs p))(Params m ! 0 := contents (messagelogs p) (Params m ! 0) @ [m])" by auto
    with assms(2) show ?thesis by (simp add: logs_within_def quiet_logs_def le_SucI)
  qed
  show ?thesis
  proof (rule ensures_mono [OF logMessage_contents [OF assms(1) _ assms(3)]])
    fix q assume "\<exists>s. q = p\<lparr>messagelogs := s\<rparr> \<and> inv s \<and> (contents s = contents (messagelogs p)
      \<or> Command m \<in> set logged_commands
        \<and> contents s = (contents (messagelogs p))(Params m ! 0 := contents (messagelogs p) (Params m ! 0) @ [m]))"
    then obtain s where s: "q = p\<lparr>messagelogs := s\<rparr>" "inv s"
      "logs_within contents (Suc B) s \<and> quiet_logs (contents s)" using f by blast
    then show "small (Suc B) q" by simp
  qed (use assms(2) in simp)
qed

lemma small_Suc: "ensures r (small B) \<Longrightarrow> ensures r (small (Suc B))"
  using logs_within_mono [of contents B _ "Suc B"] by (auto simp: ensures_def)

lemma small_sendClient_or_log:
  assumes "store env = ops" and "small B p" and "keeps m"
  shows "ensures (sendClient_or_log env m p) (small (Suc B))"
  unfolding sendClient_or_log_def
  by (rule ensures_andThen [OF small_sendClient [OF assms(2)]])
    (use small_logMessage [OF assms(1) _ assms(3)] logs_within_mono [of contents B _ "Suc B"] in auto)

lemma small_send_names: "small B p \<Longrightarrow> ensures (send_names env name nick us p) (\<lambda>(e, q). small B q)"
  using send_names_logs [of env name nick us p] by (auto simp: ensures_def)

lemma small_rejoin:
  assumes "store env = ops" and "small B p" shows "ensures (rejoinChannel env name p) (small B)"
  unfolding rejoinChannel_def Let_def
  by (intro ensures_unless [where P = "small B"] small_sendClient small_send_names small_replayLog assms)
    (simp_all add: small_sendClient)

lemma small_client_event:
  assumes "store env = ops" and "small B p" shows "ensures (handleClientEvent env ev p) (small B)"
proof (cases ev)
  case (Some m)
  let ?p = "p\<lparr>client := (client p)\<lparr>Session := Session_UpdateFromClient (client_session p) m\<rparr>\<rparr>"
  have p: "small B ?p" using assms(2) by simp
  have h: "ensures (handleHandshakeMessage env m ?p) (small B)" "ensures (do_sendServer env m ?p) (small B)"
    "ensures (do_sendClient env m' ?p) (small B)" for m'
    using p by (rule small_same, intro handshake_logs do_sendServer_logs do_sendClient_logs)+
  have j: "ensures (andThen (Param m 0) (\<lambda>name.
      if HaveChannel (client_session ?p) name then Ret ?p
      else if HaveChannel (server_session ?p) name then
        rejoinChannel env name (?p\<lparr>preLogSession := fst (GetChannel (preLogSession ?p) name)\<rparr>)
      else do_sendServer env m ?p)) (small B)"
    using p h by (intro ensures_bind ensures_if small_rejoin assms(1)) simp_all
  have d: "ensures (andThen (do_sendClient env e p) (\<lambda>p. Ret (dropClient p))) (small B)" for e
    by (rule ensures_andThen [OF small_same [OF assms(2) do_sendClient_logs]]) simp
  show ?thesis unfolding Some handleClientEvent_def Let_def option.case
    using h j d p by (cases "Validate m") (simp_all del: ensures_simps(2))
qed (use assms in \<open>simp add: handleClientEvent_def\<close>)

lemma small_do_sendClient: "small B p \<Longrightarrow> ensures (do_sendClient env m p) (small B)"
  by (erule small_same) (rule do_sendClient_logs)

lemma small_do_sendServer: "small B p \<Longrightarrow> ensures (do_sendServer env m p) (small B)"
  by (erule small_same) (rule do_sendServer_logs)

lemma small_welcome:
  assumes "small B p" shows "ensures (handleWelcome env m p) (small B)"
proof -
  have "ensures (andThen (sendClient env m q) (\<lambda>(err, p).
      if err = None then Ret (p\<lparr>client := set_ClientID i (client p)\<rparr>) else Ret p)) (small B)"
    if "small B q" for q i
    by (rule ensures_andThen [OF small_sendClient [OF that]]) auto
  with assms show ?thesis unfolding handleWelcome_def Let_def
    by (intro ensures_bind [where r = "Param m 1"]) (auto split: sum.split)
qed

lemma small_server_command:
  assumes "store env = ops" and "small B p" and "keeps m"
  shows "ensures (handle_server_command env m p) (small (Suc B))"
proof -
  note replay = small_Suc [OF small_replayLog [OF assms(1)]]
  note sends = small_do_sendClient small_do_sendServer small_welcome
  have l: "ensures (andThen (Param m 0) (\<lambda>name. if P name then sendClient_or_log env m p else logMessage env m p))
      (small (Suc B))" for P
    by (intro ensures_bind ensures_if small_sendClient_or_log small_logMessage assms)
  show ?thesis unfolding handle_server_command_def
    by (intro ensures_if l small_sendClient_or_log small_logMessage assms sends [THEN small_Suc]
        ensures_andThen [OF small_do_sendClient [where B = B]] replay ensures_bind [where r = "Param m x" for x])
      (use assms(2) logs_within_mono [of contents B _ "Suc B"] in auto)
qed

lemma small_server_event:
  assumes "store env = ops" and "small B p" and "\<And>m. ev = Some m \<Longrightarrow> keeps m"
  shows "ensures (handleServerEvent env ev p) (small (Suc B))"
proof (cases ev)
  case (Some m)
  have "ensures (handle_server_command env m (p\<lparr>server := (server p)\<lparr>Session := ss\<rparr>\<rparr>)) (small (Suc B))" for ss
    by (rule small_server_command) (use assms Some in auto)
  with Some assms(2) logs_within_mono [of contents B _ "Suc B"] show ?thesis
    by (auto simp: handleServerEvent_def intro!: ensures_bind)
qed (use assms logs_within_mono [of contents B _ "Suc B"] in \<open>auto simp: handleServerEvent_def\<close>)

end

section \<open>Every round returns\<close>

text \<open>An event that no handler panics on.\<close>

fun harmless :: "event \<Rightarrow> bool" where
  "harmless (ServerRecv (Some m)) \<longleftrightarrow> (Command m \<in> {''KICK'', ''PART''} \<longrightarrow> Params m \<noteq> [])"
| "harmless ev \<longleftrightarrow> True"

lemma returns_do_sendClient: "params_present m \<Longrightarrow> returns (do_sendClient env m p)"
  using do_sendClient_returns by (fastforce simp: returns_def)

lemma returns_check:
  "returns (check_client env p)" "returns (check_server env p)"
proof -
  have c: "returns (andThen (do_sendClient env (msg_of ''PING'' [x]) q) (\<lambda>p. Ret (f p)))"
    and s: "returns (andThen (do_sendServer env (msg_of ''PING'' [x]) q) (\<lambda>p. Ret (f p)))" for x q f
    using do_sendClient_returns [of "msg_of ''PING'' [x]" env q] do_sendServer_returns [of env "msg_of ''PING'' [x]" q]
    by (auto simp: returns_def params_present_def)
  show "returns (check_client env p)" "returns (check_server env p)"
    using c s by (auto simp: check_client_def check_server_def checkTimeout_def time_Now_def)
qed

context log_store begin

lemma small_ready: "small B p \<Longrightarrow> B < n \<Longrightarrow> ready n (messagelogs p)"
  by (auto simp: replayable_def quiet_logs_def logs_within_def list_all_iff
      intro: logged_params_present le_less_trans)

lemma small_round:
  assumes "store env = ops" and "small B p" and "kept keeps ev"
  shows "ensures (Run_step env ev p) (small (Suc B))"
proof (cases ev)
  case (ClientRecv m)
  then show ?thesis using assms by (auto simp: time_Now_def intro!: small_Suc small_client_event)
next
  case (ServerRecv m)
  then show ?thesis using assms by (auto simp: time_Now_def intro!: small_server_event)
next
  case Tick
  have "ensures (check_client env p) (small B)" by (rule small_same [OF _ check_logs(1)]) (use assms(2) in simp)
  moreover have "ensures (check_server env q) (small B)" if "small B q" for q
    using that by (rule small_same [OF _ check_logs(2)])
  ultimately show ?thesis using Tick by (auto intro!: small_Suc ensures_andThen)
qed (use assms(2) logs_within_mono [of contents B _ "Suc B"] in auto)

lemma returns_round:
  assumes "store env = ops" and "small B p" and "B < fuel env" and "harmless ev"
  shows "returns (Run_step env ev p)"
proof (cases ev)
  case (ClientRecv m)
  then show ?thesis using assms small_ready [OF assms(2,3)]
    by (auto simp: time_Now_def intro!: returns_client_event)
next
  case (ServerRecv m)
  then show ?thesis using assms small_ready [OF assms(2,3)]
    by (auto simp: time_Now_def intro!: returns_server_event)
next
  case Tick
  then show ?thesis
    by (auto intro!: returns_andThen [OF returns_check(1), where Q = "\<lambda>x. True"] returns_check simp: ensures_def)
qed simp_all

text \<open>
  Between the rounds the two sides agree on an unfinished handshake, with the logs small (their
  length does not matter here) and quiet.
\<close>

lemma agree_Run:
  "store env = ops \<Longrightarrow> small B p \<Longrightarrow> agree p \<Longrightarrow> wired p \<Longrightarrow> list_all (kept keeps) evs \<Longrightarrow>
     ensures (Run env evs p) (\<lambda>p. agree p \<and> wired p)"
proof (induction evs arbitrary: B p)
  case (Cons ev evs)
  have "ensures (Run_step env ev p) agree" using Cons.prems by (intro agree_round) simp_all
  moreover have "ensures (Run_step env ev p) wired" by (rule wiring.keep_round) (rule Cons.prems)
  moreover have "ensures (Run_step env ev p) (small (Suc B))"
    using Cons.prems by (intro small_round [where B = B]) simp_all
  ultimately have r: "ensures (Run_step env ev p) (\<lambda>q. small (Suc B) q \<and> agree q \<and> wired q)"
    by (auto simp: ensures_def)
  have n: "ensures (Run env evs q) (\<lambda>p. agree p \<and> wired p)" if "small B' q" "agree q" "wired q" for B' q
    using Cons.IH [of q B'] Cons.prems that by simp
  have "ensures (andThen (Run_step env ev p) (Run env evs)) (\<lambda>p. agree p \<and> wired p)"
    by (rule ensures_andThen [OF r]) (use n in blast)
  moreover have "ensures (Run env evs p) (\<lambda>p. agree p \<and> wired p)" using n Cons.prems by blast
  moreover have "ensures (Run_step env ev p) (\<lambda>p. agree p \<and> wired p)" using r by (auto simp: ensures_def)
  ultimately show ?case unfolding Run.simps by (intro ensures_if)
qed simp

text \<open>A run returns, and leaves logs that are at most as many messages longer as it has events.\<close>

lemma returns_Run:
  "store env = ops \<Longrightarrow> small B p \<Longrightarrow> B + length evs < fuel env \<Longrightarrow> list_all harmless evs \<Longrightarrow>
   list_all (kept keeps) evs \<Longrightarrow>
     \<exists>p'. Run env evs p = Ret p' \<and> small (B + length evs) p'"
proof (induction evs arbitrary: B p)
  case (Cons ev evs)
  have r: "returns (Run_step env ev p)" by (rule returns_round [where B = B]) (use Cons.prems in auto)
  have h: "ensures (Run_step env ev p) (small (Suc B))" by (rule small_round [where B = B]) (use Cons.prems in auto)
  from r h obtain p1 where p1: "Run_step env ev p = Ret p1" "small (Suc B) p1"
    by (auto simp: returns_def)
  have next_ok: "\<exists>p'. Run env evs q = Ret p' \<and> small (B + length (ev # evs)) p'" if "small (Suc B) q" for q
    using Cons.IH [of q "Suc B"] Cons.prems that by simp
  have "small (Suc B) p" using Cons.prems(2) logs_within_mono [of contents B _ "Suc B"] by auto
  from next_ok [OF this] next_ok [OF p1(2)] p1
  show ?case using logs_within_mono [of contents B "messagelogs p" "Suc (B + length evs)"] Cons.prems(2) by auto
qed simp

end

end
