(* ===== verification/Sandstorm_Process.thy ===== *)
theory Sandstorm_Process
  imports Sandstorm_Main Proxy_Total
begin

text \<open>
  The whole process of the Sandstorm app: the loop of \<open>Sandstorm_Main\<close> and the goroutines of the
  daemons it starts, interleaved. \<open>Stop\<close> returns as soon as the daemon has received it: the old
  daemon resets its connections later, when the new one may already run (\<open>Stopping\<close>). All
  daemons use the one store, so the logs are a field of the process, and a round of a daemon
  runs on them; the reset of a stopping daemon does not touch them.

  A send to a daemon that has left its loop would never return: it is \<open>Fail Blocked\<close>.
\<close>

section \<open>State\<close>

datatype phase = Running | Stopping | Stopped

record 's daemon_state =
  d_phase :: phase
  d_network :: nat
  d_connector :: dialer_connector
  d_proxy :: "'s proxy"

record 's process =
  app :: main_state
  shared_logs :: 's
  daemons :: "nat \<Rightarrow> 's daemon_state option"

text \<open>What the environment decides for a daemon: its number, its network, its connector.\<close>

type_synonym ('s, 'c) daemon_env = "nat \<Rightarrow> nat \<Rightarrow> dialer_connector \<Rightarrow> ('s, 'c) env"

section \<open>Steps\<close>

text \<open>A round of a daemon, on the shared logs.\<close>

definition daemon_round :: "('s, 'c) daemon_env \<Rightarrow> nat \<Rightarrow> event \<Rightarrow> 's daemon_state \<Rightarrow> 's process \<Rightarrow> 's process res" where
  "daemon_round denv k ev d s =
     andThen (Run_step (denv k (d_network d) (d_connector d)) ev ((d_proxy d)\<lparr>messagelogs := shared_logs s\<rparr>))
       (\<lambda>p. Ret (s\<lparr>shared_logs := messagelogs p, daemons := (daemons s)(k \<mapsto> d\<lparr>d_proxy := p\<rparr>)\<rparr>))"

text \<open>\<open>Stop\<close>: a send on the channel that the daemon's loop selects from.\<close>

definition Proxy_Stop :: "nat \<Rightarrow> 's process \<Rightarrow> 's process res" where
  "Proxy_Stop k s =
     (case daemons s k of
        None \<Rightarrow> Fail Blocked
      | Some d \<Rightarrow>
          if d_phase d = Running then Ret (s\<lparr>daemons := (daemons s)(k \<mapsto> d\<lparr>d_phase := Stopping\<rparr>)\<rparr>)
          else Fail Blocked)"

text \<open>What an action of the loop does to the daemons.\<close>

fun perform :: "('s, 'c) daemon_env \<Rightarrow> main_action \<Rightarrow> 's process \<Rightarrow> 's process res" where
  "perform denv (StoppedDaemon k) s = Proxy_Stop k s"
| "perform denv (StartedDaemon k net dc) s =
     Ret (s\<lparr>daemons := (daemons s)(k \<mapsto>
       \<lparr>d_phase = Running, d_network = net, d_connector = dc, d_proxy = NewProxy (shared_logs s)\<rparr>)\<rparr>)"
| "perform denv (SentConn k conn) s =
     (case daemons s k of
        None \<Rightarrow> Fail Blocked
      | Some d \<Rightarrow> if d_phase d = Running then daemon_round denv k (ClientConn conn) d s else Fail Blocked)"
| "perform denv act s = Ret s"

primrec perform_all :: "('s, 'c) daemon_env \<Rightarrow> main_action list \<Rightarrow> 's process \<Rightarrow> 's process res" where
  "perform_all denv [] s = Ret s"
| "perform_all denv (act # acts) s = andThen (perform denv act s) (perform_all denv acts)"

text \<open>One round of the loop of \<open>main\<close>, and what it does to the daemons.\<close>

definition main_step :: "main_env \<Rightarrow> ('s, 'c) daemon_env \<Rightarrow> backend_event \<Rightarrow> 's process \<Rightarrow> 's process res" where
  "main_step menv denv ev s =
     andThen (main_round menv ev (app s)) (\<lambda>st.
       perform_all denv (drop (length (actions (app s))) (actions st)) (s\<lparr>app := st\<rparr>))"

text \<open>
  A daemon receives its messages and its ticks by itself; clients and the stop come from \<open>main\<close>.
\<close>

datatype process_event =
    Backend backend_event
  | DaemonRecv nat event
  | Finish nat

fun own_event :: "event \<Rightarrow> bool" where
  "own_event StopEvent = False"
| "own_event (ClientConn h) = False"
| "own_event ev = True"

fun process_step :: "main_env \<Rightarrow> ('s, 'c) daemon_env \<Rightarrow> process_event \<Rightarrow> 's process \<Rightarrow> 's process res" where
  "process_step menv denv (Backend ev) s = main_step menv denv ev s"
| "process_step menv denv (DaemonRecv k ev) s =
     (case daemons s k of
        None \<Rightarrow> Ret s
      | Some d \<Rightarrow>
          if d_phase d = Running \<and> own_event ev \<and> enabled ev (d_proxy d) then daemon_round denv k ev d s
          else Ret s)"
| "process_step menv denv (Finish k) s =
     (case daemons s k of
        None \<Rightarrow> Ret s
      | Some d \<Rightarrow>
          if d_phase d = Stopping then daemon_round denv k StopEvent (d\<lparr>d_phase := Stopped\<rparr>) s else Ret s)"

primrec process_run :: "main_env \<Rightarrow> ('s, 'c) daemon_env \<Rightarrow> process_event list \<Rightarrow> 's process \<Rightarrow> 's process res" where
  "process_run menv denv [] s = Ret s"
| "process_run menv denv (ev # evs) s = andThen (process_step menv denv ev s) (process_run menv denv evs)"

definition process_start ::
  "main_env \<Rightarrow> ('s, 'c) daemon_env \<Rightarrow> (string \<Rightarrow> string option) \<Rightarrow> 's \<Rightarrow> 's process res" where
  "process_start menv denv fs st =
     andThen (main_start menv fs) (\<lambda>app_st.
       perform_all denv (actions app_st) \<lparr>app = app_st, shared_logs = st, daemons = Map.empty\<rparr>)"

text \<open>The events of the backend are those some request makes a handler send.\<close>

fun requested :: "web_env \<Rightarrow> string \<Rightarrow> process_event \<Rightarrow> bool" where
  "requested wenv xsrfKey (Backend ev) \<longleftrightarrow> (\<exists>req. ev \<in> set (request_events wenv xsrfKey req))"
| "requested wenv xsrfKey ev \<longleftrightarrow> True"

lemma requestedI: "ev \<in> set (request_events wenv xsrfKey req) \<Longrightarrow> requested wenv xsrfKey (Backend ev)"
  by auto

text \<open>The same as a relation.\<close>

inductive process_reachable ::
  "main_env \<Rightarrow> ('s, 'c) daemon_env \<Rightarrow> web_env \<Rightarrow> string \<Rightarrow> (string \<Rightarrow> string option) \<Rightarrow> 's \<Rightarrow> 's process \<Rightarrow> bool"
  for menv denv wenv xsrfKey fs st where
  start: "process_start menv denv fs st = Ret s \<Longrightarrow> process_reachable menv denv wenv xsrfKey fs st s"
| advance: "process_reachable menv denv wenv xsrfKey fs st s \<Longrightarrow> requested wenv xsrfKey ev \<Longrightarrow>
    process_step menv denv ev s = Ret s' \<Longrightarrow> process_reachable menv denv wenv xsrfKey fs st s'"

section \<open>The actions of the loop\<close>

lemma main_round_actions:
  "main_round env ev st = Ret st' \<Longrightarrow> \<exists>acts. actions st' = actions st @ acts
     \<and> [k. StartedDaemon k net dc \<leftarrow> acts] = [next_daemon st ..< next_daemon st'] \<and> next_daemon st \<le> next_daemon st'"
  by (cases ev)
    (auto simp: saveIpNetwork_def saveServerConfig_def WriteFile_def newDaemon_def Let_def
      split: sum.splits option.splits if_splits)

section \<open>The daemons follow the actions\<close>

definition good_daemon :: "'s daemon_state \<Rightarrow> bool" where
  "good_daemon d \<longleftrightarrow> tracked (d_proxy d) \<and> wired (d_proxy d)
     \<and> (d_phase d = Stopped \<longrightarrow> IsClosed (client (d_proxy d)) \<and> IsClosed (server (d_proxy d)))"

text \<open>\<open>dv\<close> is the daemon that runs according to the actions (\<open>daemon_after\<close>).\<close>

definition good_daemons :: "(nat \<times> nat \<times> dialer_connector) option \<Rightarrow> 's process \<Rightarrow> bool" where
  "good_daemons dv s \<longleftrightarrow>
     (\<forall>k d. daemons s k = Some d \<longrightarrow> good_daemon d \<and>
        (d_phase d = Running \<longleftrightarrow> dv = Some (k, d_network d, d_connector d))) \<and>
     (\<forall>k net dc. dv = Some (k, net, dc) \<longrightarrow> (\<exists>d. daemons s k = Some d \<and> d_phase d = Running))"

lemma same_but_logs [simp]:
  "tracked (p\<lparr>messagelogs := l\<rparr>) = tracked p" "wired (p\<lparr>messagelogs := l\<rparr>) = wired p"
  by (simp_all add: tracked_def open_handles_def wired_def)

lemma good_NewProxy: "tracked (NewProxy st)" "wired (NewProxy st)"
  by (simp add: tracked_def NewProxy_def open_handles_def, rule wired_NewProxy)

lemma daemon_round_good:
  assumes "good_daemons dv s" and "daemons s k = Some d" and "d_phase d \<noteq> Stopped"
    and "daemon_round denv k ev d s = Ret s'"
  shows "good_daemons dv s' \<and> app s' = app s \<and> dom (daemons s') = dom (daemons s)"
proof -
  obtain p where p: "Run_step (denv k (d_network d) (d_connector d)) ev ((d_proxy d)\<lparr>messagelogs := shared_logs s\<rparr>) = Ret p"
    "s' = s\<lparr>shared_logs := messagelogs p, daemons := (daemons s)(k \<mapsto> d\<lparr>d_proxy := p\<rparr>)\<rparr>"
    using assms(4) by (auto simp: daemon_round_def elim: andThen.elims)
  have "good_daemon d" using assms(1,2) by (auto simp: good_daemons_def)
  then have "tracked p" "wired p"
    using ensuresD [OF transports.keep_round p(1)] ensuresD [OF wiring.keep_round p(1)] by (auto simp: good_daemon_def)
  with assms(1-3) p(2) show ?thesis by (auto simp: good_daemons_def good_daemon_def)
qed

text \<open>The second hypothesis is what the actions of the loop keep.\<close>

lemma perform_good:
  assumes "good_daemons dv s" and "daemon_after dv (act # acts) = Some dw"
  shows "\<exists>s' dv'. perform denv act s = Ret s' \<and> good_daemons dv' s' \<and> daemon_after dv' acts = Some dw
    \<and> app s' = app s \<and> shared_logs s' = shared_logs s
    \<and> dom (daemons s') = dom (daemons s) \<union> set [k. StartedDaemon k net dc \<leftarrow> [act]]"
proof (cases act)
  case (StoppedDaemon k)
  with assms(2) obtain net dc where dv: "dv = Some (k, net, dc)" "daemon_after None acts = Some dw"
    by (auto split: if_splits)
  with assms(1) obtain d where d: "daemons s k = Some d" "d_phase d = Running" by (auto simp: good_daemons_def)
  with assms(1) dv have "good_daemons None (s\<lparr>daemons := (daemons s)(k \<mapsto> d\<lparr>d_phase := Stopping\<rparr>)\<rparr>)"
    by (auto simp: good_daemons_def good_daemon_def)
  with StoppedDaemon d dv show ?thesis by (auto simp: Proxy_Stop_def)
next
  case (StartedDaemon k net dc)
  with assms(2) have dv: "dv = None" "daemon_after (Some (k, net, dc)) acts = Some dw" by (auto split: if_splits)
  let ?d = "\<lparr>d_phase = Running, d_network = net, d_connector = dc, d_proxy = NewProxy (shared_logs s)\<rparr>"
  from assms(1) dv have "good_daemons (Some (k, net, dc)) (s\<lparr>daemons := (daemons s)(k \<mapsto> ?d)\<rparr>)"
    by (auto simp: good_daemons_def good_daemon_def good_NewProxy)
  with StartedDaemon dv show ?thesis by auto
next
  case (SentConn k conn)
  with assms(2) obtain net dc where dv: "dv = Some (k, net, dc)" "daemon_after dv acts = Some dw"
    by (auto split: if_splits)
  with assms(1) obtain d where d: "daemons s k = Some d" "d_phase d = Running" by (auto simp: good_daemons_def)
  obtain s' where s': "daemon_round denv k (ClientConn conn) d s = Ret s'" "shared_logs s' = shared_logs s"
    by (simp add: daemon_round_def)
  with daemon_round_good [OF assms(1) d(1) _ s'(1)] d dv SentConn show ?thesis by auto
qed (use assms in auto)

lemma perform_all_good:
  assumes "good_daemons dv s" and "daemon_after dv acts = Some dw"
  shows "\<exists>s'. perform_all denv acts s = Ret s' \<and> good_daemons dw s' \<and> app s' = app s
    \<and> shared_logs s' = shared_logs s
    \<and> dom (daemons s') = dom (daemons s) \<union> set [k. StartedDaemon k net dc \<leftarrow> acts]"
  using assms
proof (induction acts arbitrary: dv s)
  case (Cons act acts)
  from perform_good [OF Cons.prems] obtain s1 dv1 where s1: "perform denv act s = Ret s1" "good_daemons dv1 s1"
    "daemon_after dv1 acts = Some dw" "app s1 = app s" "shared_logs s1 = shared_logs s"
    "dom (daemons s1) = dom (daemons s) \<union> set [k. StartedDaemon k net dc \<leftarrow> [act]]"
    by blast
  from Cons.IH [OF s1(2,3)] s1 show ?case by auto
qed simp

section \<open>The invariant of the process\<close>

definition wf_process :: "'s process \<Rightarrow> bool" where
  "wf_process s \<longleftrightarrow> wf_main (app s) \<and> good_daemons (daemon_view (app s)) s
     \<and> dom (daemons s) = {..<next_daemon (app s)}"

lemma running_current:
  assumes "wf_process s" and "daemons s k = Some d" and "d_phase d = Running"
  shows "daemon (app s) = Some k \<and> d_network d = the (ipNetwork (app s))
    \<and> d_connector d = config_connector (serverConfig (app s))"
  using assms by (auto simp: wf_process_def good_daemons_def daemon_view_def split: option.splits)

text \<open>A round of the loop is never refused and leaves the logs alone.\<close>

lemma main_step_good:
  assumes "wf_process s" and "requested wenv xsrfKey (Backend ev)"
  shows "\<exists>s'. main_step menv denv ev s = Ret s' \<and> wf_process s' \<and> shared_logs s' = shared_logs s"
proof -
  have wf: "wf_main (app s)" "good_daemons (daemon_view (app s)) s" "dom (daemons s) = {..<next_daemon (app s)}"
    using assms(1) by (auto simp: wf_process_def)
  from assms(2) obtain req where "ev \<in> set (request_events wenv xsrfKey req)" by auto
  from main_round_wf [OF wf(1) this] obtain st where st: "main_round menv ev (app s) = Ret st" "wf_main st" by blast
  from main_round_actions [OF st(1)] obtain acts where acts: "actions st = actions (app s) @ acts"
    "[k. StartedDaemon k net dc \<leftarrow> acts] = [next_daemon (app s) ..< next_daemon st]" "next_daemon (app s) \<le> next_daemon st"
    by blast
  have da: "daemon_after (daemon_view (app s)) acts = Some (daemon_view st)"
    using wf(1) st(2) acts(1) by (simp add: wf_main_def daemon_after_append)
  have g: "good_daemons (daemon_view (app s)) (s\<lparr>app := st\<rparr>)" using wf(2) by (simp add: good_daemons_def)
  from perform_all_good [OF g da, of denv] obtain s' where s': "perform_all denv acts (s\<lparr>app := st\<rparr>) = Ret s'" "good_daemons (daemon_view st) s'"
    "app s' = st" "shared_logs s' = shared_logs s"
    "dom (daemons s') = dom (daemons s) \<union> set [k. StartedDaemon k net dc \<leftarrow> acts]"
    by auto
  moreover have "dom (daemons s') = {..<next_daemon st}" unfolding s'(5) acts(2) wf(3) using acts(3) by auto
  ultimately show ?thesis using st acts(1) by (simp add: main_step_def wf_process_def)
qed

lemma process_step_good:
  assumes "wf_process s" and "requested wenv xsrfKey ev" and "process_step menv denv ev s = Ret s'"
  shows "wf_process s'"
proof (cases ev)
  case (Backend bev)
  with main_step_good [OF assms(1), of wenv xsrfKey bev menv denv] assms(2,3) show ?thesis by auto
next
  case (DaemonRecv k rev)
  show ?thesis
  proof (cases "s' = s")
    case False
    with assms(3) DaemonRecv obtain d where "daemons s k = Some d" "d_phase d = Running" "daemon_round denv k rev d s = Ret s'"
      by (auto split: option.splits if_splits)
    with daemon_round_good [of "daemon_view (app s)" s k d denv rev s'] assms(1)
    show ?thesis by (simp add: wf_process_def)
  qed (use assms in simp)
next
  case (Finish k)
  show ?thesis
  proof (cases "s' = s")
    case False
    with assms(3) Finish obtain d where d: "daemons s k = Some d" "d_phase d = Stopping"
      "daemon_round denv k StopEvent (d\<lparr>d_phase := Stopped\<rparr>) s = Ret s'"
      by (auto split: option.splits if_splits)
    let ?p = "reset ((d_proxy d)\<lparr>messagelogs := shared_logs s\<rparr>)"
    from d have s': "s' = s\<lparr>shared_logs := messagelogs ?p, daemons := (daemons s)(k \<mapsto> d\<lparr>d_phase := Stopped, d_proxy := ?p\<rparr>)\<rparr>"
      by (simp add: daemon_round_def)
    have "good_daemon d" "daemon_view (app s) \<noteq> Some (k, d_network d, d_connector d)"
      using assms(1) d by (auto simp: wf_process_def good_daemons_def)
    moreover have "\<nexists>net dc. daemon_view (app s) = Some (k, net, dc)"
      using assms(1) d by (fastforce simp: wf_process_def good_daemons_def)
    ultimately show ?thesis using assms(1) d s'
      by (auto simp: wf_process_def good_daemons_def good_daemon_def tracked_reset wired_reset)
  qed (use assms in simp)
qed

lemma process_start_good: "\<exists>s. process_start menv denv fs st = Ret s \<and> wf_process s \<and> shared_logs s = st"
  by (simp add: process_start_def main_start_def wf_process_def wf_main_def daemon_view_def good_daemons_def)

lemma process_reachable_good: "process_reachable menv denv wenv xsrfKey fs st s \<Longrightarrow> wf_process s"
proof (induction rule: process_reachable.induct)
  case (start s)
  then show ?case using process_start_good [of menv denv fs st] by auto
next
  case (advance s ev s')
  then show ?case by (blast intro: process_step_good)
qed

section \<open>Runs of the process\<close>

lemma process_run_reachable:
  "process_reachable menv denv wenv xsrfKey fs st s \<Longrightarrow> list_all (requested wenv xsrfKey) evs \<Longrightarrow>
     process_run menv denv evs s = Ret s' \<Longrightarrow> process_reachable menv denv wenv xsrfKey fs st s'"
proof (induction evs arbitrary: s)
  case (Cons ev evs)
  from Cons.prems(3) obtain s1 where s1: "process_step menv denv ev s = Ret s1" "process_run menv denv evs s1 = Ret s'"
    by (auto elim: andThen.elims)
  from Cons.prems(2) have "requested wenv xsrfKey ev" by simp
  from Cons.IH [OF process_reachable.advance [OF Cons.prems(1) this s1(1)]] Cons.prems(2) s1(2) show ?case by simp
qed simp

text \<open>Only a round of a daemon changes the logs.\<close>

fun daemon_event :: "process_event \<Rightarrow> bool" where
  "daemon_event (DaemonRecv k ev) = True"
| "daemon_event ev = False"

lemma Finish_logs: "process_step menv denv (Finish k) s = Ret s' \<Longrightarrow> shared_logs s' = shared_logs s"
  by (auto simp: daemon_round_def split: option.splits if_splits)

lemma process_step_quiet:
  assumes "wf_process s" and "requested wenv xsrfKey ev" and "\<not> daemon_event ev"
  shows "\<exists>s'. process_step menv denv ev s = Ret s' \<and> wf_process s' \<and> shared_logs s' = shared_logs s"
proof (cases ev)
  case (Backend bev)
  with main_step_good [OF assms(1), of wenv xsrfKey bev menv denv] assms(2) show ?thesis by auto
next
  case (Finish k)
  have "\<exists>s'. process_step menv denv ev s = Ret s'"
    using Finish by (auto simp: daemon_round_def split: option.split)
  with Finish Finish_logs process_step_good [OF assms(1,2)] show ?thesis by blast
qed (use assms(3) in simp)

lemma process_run_quiet:
  "wf_process s \<Longrightarrow> list_all (requested wenv xsrfKey) evs \<Longrightarrow> list_all (\<lambda>ev. \<not> daemon_event ev) evs \<Longrightarrow>
     \<exists>s'. process_run menv denv evs s = Ret s' \<and> wf_process s' \<and> shared_logs s' = shared_logs s"
proof (induction evs arbitrary: s)
  case (Cons ev evs)
  then have "requested wenv xsrfKey ev" "\<not> daemon_event ev" by simp_all
  from process_step_quiet [OF Cons.prems(1) this] obtain s1
    where "process_step menv denv ev s = Ret s1" "wf_process s1" "shared_logs s1 = shared_logs s" by blast
  with Cons.IH [of s1] Cons.prems show ?case by simp
qed simp

text \<open>The messages of the server that the daemons can take.\<close>

fun acceptable :: "(message \<Rightarrow> bool) \<Rightarrow> process_event \<Rightarrow> bool" where
  "acceptable keeps (DaemonRecv k ev) \<longleftrightarrow> harmless ev \<and> kept keeps ev"
| "acceptable keeps ev \<longleftrightarrow> True"

definition all_daemons :: "('s, 'c) store_ops \<Rightarrow> nat \<Rightarrow> ('s, 'c) daemon_env \<Rightarrow> bool" where
  "all_daemons ops n denv \<longleftrightarrow> (\<forall>k net dc. store (denv k net dc) = ops \<and> n \<le> fuel (denv k net dc))"

context log_store begin

abbreviation small_logs where
  "small_logs B s \<equiv> inv s \<and> logs_within contents B s \<and> quiet_logs (contents s)"

lemma process_step_returns:
  assumes "all_daemons ops n denv" and "B < n" and "wf_process s" and "small_logs B (shared_logs s)"
    and "requested wenv xsrfKey ev" and "acceptable keeps ev"
  shows "\<exists>s'. process_step menv denv ev s = Ret s' \<and> wf_process s' \<and> small_logs (Suc B) (shared_logs s')"
proof -
  have grown: "small_logs (Suc B) (shared_logs s)"
    using assms(4) logs_within_mono [of contents B "shared_logs s" "Suc B"] by simp
  have "\<exists>s'. process_step menv denv ev s = Ret s' \<and> small_logs (Suc B) (shared_logs s')"
  proof (cases ev)
    case (Backend bev)
    with main_step_good [OF assms(3), of wenv xsrfKey bev menv denv] assms(5) grown show ?thesis by auto
  next
    case (DaemonRecv k rev)
    have "\<exists>s'. daemon_round denv k rev d s = Ret s' \<and> small_logs (Suc B) (shared_logs s')" for d
    proof -
      let ?env = "denv k (d_network d) (d_connector d)" and ?p = "(d_proxy d)\<lparr>messagelogs := shared_logs s\<rparr>"
      have e: "store ?env = ops" "B < fuel ?env" using assms(1,2) by (auto simp: all_daemons_def intro: less_le_trans)
      have p: "small B ?p" using assms(4) by simp
      have "returns (Run_step ?env rev ?p)" "ensures (Run_step ?env rev ?p) (small (Suc B))"
        using returns_round [OF e(1) p e(2)] small_round [OF e(1) p] assms(6) DaemonRecv by auto
      then show ?thesis by (auto simp: returns_def ensures_def daemon_round_def)
    qed
    with DaemonRecv grown show ?thesis by (auto split: option.split)
  next
    case (Finish k)
    then show ?thesis using grown by (auto simp: daemon_round_def split: option.split)
  qed
  with process_step_good [OF assms(3,5)] show ?thesis by blast
qed

lemma process_run_returns:
  "all_daemons ops n denv \<Longrightarrow> B + length evs < n \<Longrightarrow> wf_process s \<Longrightarrow> small_logs B (shared_logs s) \<Longrightarrow>
   list_all (requested wenv xsrfKey) evs \<Longrightarrow> list_all (acceptable keeps) evs \<Longrightarrow>
     \<exists>s'. process_run menv denv evs s = Ret s' \<and> wf_process s' \<and> small_logs (B + length evs) (shared_logs s')"
proof (induction evs arbitrary: B s)
  case (Cons ev evs)
  have "B < n" using Cons.prems(2) by simp
  from process_step_returns [OF Cons.prems(1) this Cons.prems(3,4)] Cons.prems(5,6) obtain s1
    where "process_step menv denv ev s = Ret s1" "wf_process s1" "small_logs (Suc B) (shared_logs s1)" by fastforce
  with Cons.IH [of "Suc B" s1] Cons.prems show ?case by auto
qed simp

end

context reliable_store begin

text \<open>
  A message that the running daemon receives is written to its client or is in the log of its
  target, whatever the loop does afterwards.
\<close>

lemma process_message_not_lost:
  assumes "all_daemons ops n denv" and "wf_process s" and "inv (shared_logs s)"
    and "daemons s k = Some d" and "d_phase d = Running" and "chan (server (d_proxy d)) \<noteq> None"
    and "keeps m" and "Validate m = None" and "Command m \<in> {''PRIVMSG'', ''NOTICE''}"
  shows "\<exists>s1 d1. process_step menv denv (DaemonRecv k (ServerRecv (Some m))) s = Ret s1 \<and> wf_process s1
    \<and> daemons s1 k = Some d1
    \<and> ((\<exists>h. rwc (client (d_proxy d)) = Some h \<and> trace (d_proxy d1) = trace (d_proxy d) @ [Wrote h m True]
           \<and> contents (shared_logs s1) = contents (shared_logs s))
      \<or> contents (shared_logs s1) =
          (contents (shared_logs s))(Params m ! 0 := contents (shared_logs s) (Params m ! 0) @ [m]))"
proof -
  let ?env = "denv k (d_network d) (d_connector d)"
  define p where "p = (d_proxy d)\<lparr>messagelogs := shared_logs s, tick := Suc (tick (d_proxy d)),
    server := updateDeadlines (clock ?env (tick (d_proxy d))) (server (d_proxy d))\<rparr>"
  have "store ?env = ops" using assms(1) by (simp add: all_daemons_def)
  from server_message_not_lost [OF this, of p m] assms(3,7-9) obtain p' where
    p': "handleServerEvent ?env (Some m) p = Ret p'"
    "(\<exists>h. rwc (client p) = Some h \<and> trace p' = trace p @ [Wrote h m True]
           \<and> contents (messagelogs p') = contents (messagelogs p))
      \<or> contents (messagelogs p') =
          (contents (messagelogs p))(Params m ! 0 := contents (messagelogs p) (Params m ! 0) @ [m])"
    by (auto simp: p_def)
  have p: "messagelogs p = shared_logs s" "client p = client (d_proxy d)" "trace p = trace (d_proxy d)"
    by (simp_all add: p_def)
  let ?s = "s\<lparr>shared_logs := messagelogs p', daemons := (daemons s)(k \<mapsto> d\<lparr>d_proxy := p'\<rparr>)\<rparr>"
  have "daemon_round denv k (ServerRecv (Some m)) d s = Ret ?s"
    using p'(1) by (simp add: daemon_round_def time_Now_def p_def)
  then have step: "process_step menv denv (DaemonRecv k (ServerRecv (Some m))) s = Ret ?s"
    using assms(4-6) by simp
  moreover have "wf_process ?s" by (rule process_step_good [OF assms(2) _ step]) simp
  ultimately show ?thesis using p'(2) unfolding p by (intro exI [of _ ?s] exI [of _ "d\<lparr>d_proxy := p'\<rparr>"]) simp
qed

end

end
