(* ===== verification/Sandstorm_Network.thy ===== *)
theory Sandstorm_Network
  imports Sandstorm_Process
begin

text \<open>
  What the loop of one daemon keeps, every daemon of the app keeps, whatever the others do. With
  the dialers of \<open>Net_Dialer\<close> below the daemons this shows where their connections come from.
\<close>

section \<open>From one daemon to all of them\<close>

text \<open>An invariant of the loop that holds at the start and does not depend on the logs, which other
  daemons change too.\<close>

locale daemon_invariant = proxy_invariant +
  assumes initial: "I env (NewProxy st)"
    and other_logs: "I env p \<Longrightarrow> I env (p\<lparr>messagelogs := l\<rparr>)"
begin

definition everywhere :: "('a, 'b) daemon_env \<Rightarrow> 'a process \<Rightarrow> bool" where
  "everywhere denv s \<longleftrightarrow>
     (\<forall>k d. daemons s k = Some d \<longrightarrow> I (denv k (d_network d) (d_connector d)) (d_proxy d))"

lemma daemon_round_everywhere:
  assumes "everywhere denv s" and "I (denv k (d_network d) (d_connector d)) (d_proxy d)"
    and "daemon_round denv k ev d s = Ret s'"
  shows "everywhere denv s'"
proof -
  obtain p where p: "Run_step (denv k (d_network d) (d_connector d)) ev ((d_proxy d)\<lparr>messagelogs := shared_logs s\<rparr>) = Ret p"
    "s' = s\<lparr>shared_logs := messagelogs p, daemons := (daemons s)(k \<mapsto> d\<lparr>d_proxy := p\<rparr>)\<rparr>"
    using assms(3) by (auto simp: daemon_round_def elim: andThen.elims)
  have "I (denv k (d_network d) (d_connector d)) p"
    by (rule ensuresD [OF keep_round [OF other_logs [OF assms(2)]] p(1)])
  with assms(1) p(2) show ?thesis by (auto simp: everywhere_def)
qed

lemma perform_everywhere:
  assumes "everywhere denv s" and "perform denv act s = Ret s'"
  shows "everywhere denv s'"
proof (cases act)
  case (SentConn k conn)
  with assms obtain d where d: "daemons s k = Some d" "daemon_round denv k (ClientConn conn) d s = Ret s'"
    by (auto split: option.splits if_splits)
  with assms(1) show ?thesis by (intro daemon_round_everywhere [OF assms(1) _ d(2)]) (auto simp: everywhere_def)
qed (use assms initial in \<open>auto simp: everywhere_def Proxy_Stop_def split: option.splits if_splits\<close>)

lemma perform_all_everywhere:
  "everywhere denv s \<Longrightarrow> perform_all denv acts s = Ret s' \<Longrightarrow> everywhere denv s'"
  by (induction acts arbitrary: s) (auto simp: andThen_Ret_iff dest: perform_everywhere)

lemma process_step_everywhere:
  assumes "everywhere denv s" and "process_step menv denv ev s = Ret s'"
  shows "everywhere denv s'"
proof (cases ev)
  case (Backend bev)
  with assms obtain st acts where "perform_all denv acts (s\<lparr>app := st\<rparr>) = Ret s'"
    by (auto simp: main_step_def elim: andThen.elims)
  moreover have "everywhere denv (s\<lparr>app := st\<rparr>)" using assms(1) by (simp add: everywhere_def)
  ultimately show ?thesis by (rule perform_all_everywhere [rotated])
next
  case (DaemonRecv k rev)
  show ?thesis
  proof (cases "s' = s")
    case False
    with assms(2) DaemonRecv obtain d where d: "daemons s k = Some d" "daemon_round denv k rev d s = Ret s'"
      by (auto split: option.splits if_splits)
    with assms(1) show ?thesis by (intro daemon_round_everywhere [OF assms(1) _ d(2)]) (auto simp: everywhere_def)
  qed (use assms in simp)
next
  case (Finish k)
  show ?thesis
  proof (cases "s' = s")
    case False
    with assms(2) Finish obtain d where d: "daemons s k = Some d"
      "daemon_round denv k StopEvent (d\<lparr>d_phase := Stopped\<rparr>) s = Ret s'"
      by (auto split: option.splits if_splits)
    with assms(1) show ?thesis by (intro daemon_round_everywhere [OF assms(1) _ d(2)]) (auto simp: everywhere_def)
  qed (use assms in simp)
qed

lemma process_keeps:
  assumes "process_reachable menv denv wenv xsrfKey fs st s" and "daemons s k = Some d"
  shows "I (denv k (d_network d) (d_connector d)) (d_proxy d)"
proof -
  from assms(1) have "everywhere denv s"
  proof induction
    case (start s)
    then obtain app_st where a: "perform_all denv (actions app_st) \<lparr>app = app_st, shared_logs = st, daemons = Map.empty\<rparr> = Ret s"
      by (auto simp: process_start_def elim: andThen.elims)
    show ?case by (rule perform_all_everywhere [OF _ a]) (simp add: everywhere_def)
  next
    case (advance s ev s')
    then show ?case by (blast intro: process_step_everywhere)
  qed
  with assms(2) show ?thesis by (simp add: everywhere_def)
qed

end

interpretation wired_daemons: daemon_invariant "\<lambda>env. wired"
  by unfold_locales (simp_all add: good_NewProxy)

interpretation tracked_daemons: daemon_invariant "\<lambda>env. tracked"
  by unfold_locales (simp_all add: good_NewProxy)

interpretation wf_daemons: daemon_invariant "\<lambda>env. wf_proxy"
  by unfold_locales (simp_all add: wf_proxy_def NewProxy_def)

section \<open>Where the connections to the server come from\<close>

text \<open>Every transport a proxy got from its connector is one that \<open>Connect\<close> returned.\<close>

definition dialled :: "('s, 'c) env \<Rightarrow> 's proxy \<Rightarrow> bool" where
  "dialled env p \<longleftrightarrow> (\<forall>h. Dialed (Some h) \<in> set (trace p) \<longrightarrow> (\<exists>n. dial env n = Inr h))"

lemma dialled_dropClient: "dialled env p \<Longrightarrow> dialled env (dropClient p)"
  by (auto simp: dialled_def dropClient_def shutdown_client_def shutdown_server_def shutdown_def Let_def)

lemma dialled_reset: "dialled env p \<Longrightarrow> dialled env (reset p)"
  by (auto simp: dialled_def reset_def shutdown_client_def shutdown_server_def shutdown_def Let_def)

lemma dialled_accept_client:
  assumes "dialled env p" shows "dialled env (accept_client env h p)"
proof -
  define q where "q = (dropClient p)\<lparr>tick := Suc (tick p),
    client := conn_setup h (backlog env (Suc (tick p))) (clock env (tick p)) (snd (shutdown (client p))),
    trace := trace (dropClient p) @ [Accepted h]\<rparr>"
  have q: "dialled env q" using dialled_dropClient [OF assms] by (simp add: dialled_def q_def)
  show ?thesis
  proof (rule accept_client_cases [where p = p and env = env and h = h, folded q_def])
    fix e assume a: "accept_client env h p = dropClient (q\<lparr>tick := Suc (tick q), trace := trace q @ [Dialed None]\<rparr>)"
    have "dialled env (q\<lparr>tick := Suc (tick q), trace := trace q @ [Dialed None]\<rparr>)" using q by (simp add: dialled_def)
    with a show ?thesis by (simp only: dialled_dropClient)
  next
    fix s assume "dial env (tick q) = Inr s"
      and "accept_client env h p = q\<lparr>tick := Suc (Suc (tick q)), trace := trace q @ [Dialed (Some s)],
        server := conn_setup s (backlog env (Suc (Suc (tick q)))) (clock env (Suc (tick q))) (server q)\<rparr>"
    with q show ?thesis by (auto simp: dialled_def)
  qed (use q in simp)
qed

interpretation dialling: daemon_invariant dialled
  by unfold_locales
    (simp_all add: dialled_dropClient dialled_reset dialled_accept_client, auto simp: dialled_def NewProxy_def)

text \<open>
  \<open>Connect\<close> through the connector of a daemon: the transport is named by the connection of the
  dialer at the bottom. \<open>nenv n\<close> is the network at the time of the call.
\<close>

definition via_connector :: "(nat \<Rightarrow> net_env) \<Rightarrow> dialer_connector \<Rightarrow> ('s, 'c) env \<Rightarrow> ('s, 'c) env" where
  "via_connector nenv dc env =
     env\<lparr>dial := (\<lambda>n. case fst (DialerConnector_Connect (nenv n) dc []) of
                        Inl err \<Rightarrow> Inl err
                      | Inr conn \<Rightarrow> Inr (raw_of conn))\<rparr>"

text \<open>With TLS configured, a connection to the server has passed a handshake for the configured host.\<close>

lemma Connect_config_verified:
  assumes "cfg_TLS cfg" and "plain_host (cfg_Host cfg)"
    and "DialerConnector_Connect nenv (config_connector cfg) [] = (Inr conn, tr)"
  shows "raw_dial nenv 0 ''tcp'' (ServerConfig_String cfg) = Inr (raw_of conn)
    \<and> handshake_err nenv 1 (cfg_Host cfg) (Raw (raw_of conn)) = None"
  using assms(1,3) ServerConfig_address [OF assms(2)]
  by (auto simp: DialerConnector_Connect_def config_connector_def split: sum.splits prod.splits option.splits)

end
