(* ===== verification/Commands.thy ===== *)
theory Commands
  imports Net_Dialer Irc_Message
begin

text \<open>
  The commands: \<open>cmd/irc-idler\<close>, the daemon outside of Sandstorm, with the \<open>AcceptLoop\<close> of
  \<open>proxy/proxy.go\<close>, and \<open>misc/pingpong-inspector\<close>, a tool that shows what a peer sends and
  answers its pings.

  What the calls to the outside return (the level parser of the logging library, opening the
  database, listening, accepting, reading, writing) is given to the definitions. The endless
  \<open>AcceptLoop\<close> is a function of the results of the calls it waits for. The two goroutines of the
  inspector interleave call by call: every read, lock and write of either is a step of its own.
\<close>

section \<open>cmd/irc-idler\<close>

record idler_flags =
  fl_laddr :: string
  fl_raddr :: string
  fl_dbpath :: string
  fl_loglevel :: string
  fl_useTLS :: bool

definition default_flags :: idler_flags where
  "default_flags =
     \<lparr>fl_laddr = '':6667'', fl_raddr = [], fl_dbpath = '':memory:'', fl_loglevel = ''info'', fl_useTLS = False\<rparr>"

record idler_env =
  ParseLevel :: "string \<Rightarrow> error + nat"
  sql_Open :: "string \<Rightarrow> error option"
  db_Ping :: "string \<Rightarrow> error option"
  net_Listen :: "string \<Rightarrow> error option"

text \<open>The process ends with status 1, or serves: at which address, with which database and
  which connector.\<close>

datatype idler_outcome =
    BadLevel string
  | Fatal error
  | Serving string string dialer_connector

definition idler_main :: "idler_env \<Rightarrow> idler_flags \<Rightarrow> idler_outcome" where
  "idler_main env fl =
     (case ParseLevel env (fl_loglevel fl) of
        Inl err \<Rightarrow> BadLevel (fl_loglevel fl)
      | Inr level \<Rightarrow>
     (case sql_Open env (fl_dbpath fl) of
        Some err \<Rightarrow> Fatal err
      | None \<Rightarrow>
     (case db_Ping env (fl_dbpath fl) of
        Some err \<Rightarrow> Fatal err
      | None \<Rightarrow>
     (let dialer = (if fl_useTLS fl then TLSDialer BaseDialer else BaseDialer) in
      case net_Listen env (fl_laddr fl) of
        Some err \<Rightarrow> Fatal err
      | None \<Rightarrow>
          Serving (fl_laddr fl) (fl_dbpath fl)
            \<lparr>dc_Dialer = dialer, dc_Network = ''tcp'', dc_Addr = fl_raddr fl\<rparr>))))"

datatype accept_action = Slept | SentTo nat

fun AcceptLoop :: "(error + nat) list \<Rightarrow> accept_action list" where
  "AcceptLoop [] = []"
| "AcceptLoop (Inl err # accepts) = Slept # AcceptLoop accepts"
| "AcceptLoop (Inr conn # accepts) = SentTo conn # AcceptLoop accepts"

lemma AcceptLoop_forwards_all:
  "[c. SentTo c \<leftarrow> AcceptLoop accepts] = [c. Inr c \<leftarrow> accepts]"
  by (induction accepts rule: AcceptLoop.induct) auto

section \<open>misc/pingpong-inspector\<close>

datatype inspector_mode = UsageError | ClientMode string | ServerMode string

definition inspector_main :: "string \<Rightarrow> string \<Rightarrow> inspector_mode" where
  "inspector_main laddr raddr =
     (if raddr = [] \<and> laddr = [] \<or> raddr \<noteq> [] \<and> laddr \<noteq> [] then UsageError
      else if laddr = [] then ClientMode raddr
      else ServerMode laddr)"

text \<open>
  The two loops run as goroutines, so their calls interleave. A goroutine is at one of these
  points: in \<open>ReadMessage\<close>; in \<open>WriteMessage\<close> before \<open>lock.Lock\<close> returns; in \<open>WriteTo\<close> under the
  lock, with the byte strings it still has to hand to \<open>Write\<close>, how many bytes of the first of
  them the writer has taken, and the named results of \<open>WriteTo\<close>; or in \<open>checkFatal\<close> with an error.
\<close>

datatype goroutine = PingPong | DumbCopy

datatype inspector_writer = PeerWriter | StdoutWriter

datatype pc =
    Reading
  | Locking inspector_writer message
  | Writing inspector_writer message "string list" nat "int \<times> error option"
  | Failing error

text \<open>The bodies of the two loops, from the results of \<open>ReadMessage\<close> to the call of \<open>WriteMessage\<close>.\<close>

fun pingPong :: "error + message \<Rightarrow> pc" where
  "pingPong (Inl err) = Failing err"
| "pingPong (Inr msg) =
     (if Command msg = ''PING'' then Locking PeerWriter (msg\<lparr>Command := ''PONG''\<rparr>)
      else Locking StdoutWriter msg)"

fun dumbCopy :: "error + message \<Rightarrow> pc" where
  "dumbCopy (Inl err) = Failing err"
| "dumbCopy (Inr msg) = Locking PeerWriter msg"

fun loop_body :: "goroutine \<Rightarrow> error + message \<Rightarrow> pc" where
  "loop_body PingPong = pingPong"
| "loop_body DumbCopy = dumbCopy"

text \<open>The calls of \<open>Write\<close> that \<open>WriteTo\<close> makes, in order.\<close>

definition write_calls :: "message \<Rightarrow> string list" where
  "write_calls m =
     (if Prefix m \<noteq> [] then [[COLON] @ Prefix m @ [SP]] else []) @ [Command m]
     @ (if length (Params m) \<noteq> 0
        then map ((@) [SP]) (butlast (Params m)) @ [last_param_text (last (Params m))] else [])
     @ [[CR, LF]]"

lemma WriteTo_calls: "WriteTo wr m w = fold (emit wr) (write_calls m) ((0, None), w)"
  by (simp add: WriteTo_def write_calls_def Let_def fold_map comp_def)

lemma fold_emit_buffer_calls:
  "fold (emit buffer_Write) cs ((n, None), b) = ((n + int (length (concat cs)), None), b @ concat cs)"
  by (induction cs arbitrary: n b) (simp_all add: emit_buffer)

lemma write_calls_nonempty: "write_calls m \<noteq> []"
  by (simp add: write_calls_def)

lemma concat_write_calls: "concat (write_calls m) = String m"
  by (simp add: String_def WriteTo_calls fold_emit_buffer_calls)

text \<open>
  The events: a call of \<open>ReadMessage\<close> returns; the lock of the writer is taken; the writer takes
  some bytes; a call of \<open>Write\<close> returns, without an error only when all bytes were taken
  (\<open>io.Writer\<close>); the lock is released and \<open>WriteMessage\<close> returns; \<open>os.Exit\<close> ends the process.
\<close>

datatype io_event =
    ReadReturns "error + message"
  | LockTaken
  | Takes nat
  | WriteReturns "error option"
  | Unlocked
  | Exits

record inspector =
  pcs :: "goroutine \<Rightarrow> pc"
  lock :: "inspector_writer \<Rightarrow> goroutine option"
  taken :: "inspector_writer \<Rightarrow> string"
  exited :: bool

definition goto :: "goroutine \<Rightarrow> pc \<Rightarrow> inspector \<Rightarrow> inspector" where
  "goto g pc st = st\<lparr>pcs := (pcs st)(g := pc)\<rparr>"

fun goroutine_step :: "goroutine \<Rightarrow> io_event \<Rightarrow> pc \<Rightarrow> inspector \<Rightarrow> inspector option" where
  "goroutine_step g (ReadReturns r) Reading st = Some (goto g (loop_body g r) st)"
| "goroutine_step g LockTaken (Locking w m) st =
     (if lock st w = None
      then Some (goto g (Writing w m (write_calls m) 0 (0, None)) st\<lparr>lock := (lock st)(w := Some g)\<rparr>)
      else None)"
| "goroutine_step g (Takes n) (Writing w m (c # cs) k res) st =
     (if k + n \<le> length c
      then Some (goto g (Writing w m (c # cs) (k + n) res) st
             \<lparr>taken := (taken st)(w := taken st w @ take n (drop k c))\<rparr>)
      else None)"
| "goroutine_step g (WriteReturns e) (Writing w m (c # cs) k res) st =
     (if e = None \<and> k < length c then None
      else Some (goto g (Writing w m cs 0 (checkErr res (int k, e))) st))"
| "goroutine_step g Unlocked (Writing w m [] k (n, err)) st =
     Some (goto g (case err of None \<Rightarrow> Reading | Some e \<Rightarrow> Failing e) st\<lparr>lock := (lock st)(w := None)\<rparr>)"
| "goroutine_step g Exits (Failing e) st = Some (st\<lparr>exited := True\<rparr>)"
| "goroutine_step g ev pc st = None"

text \<open>
  \<open>mainLoop\<close>: both loops started, and what happens to them in any order until the process ends.
  No sequence of events leaves a loop, so \<open>conn.Close\<close> is not reached, and \<open>server\<close> stays with the
  first connection it accepts.
\<close>

definition inspector_start :: inspector where
  "inspector_start =
     \<lparr>pcs = (\<lambda>g. Reading), lock = (\<lambda>w. None), taken = (\<lambda>w. []), exited = False\<rparr>"

fun inspector_steps :: "(goroutine \<times> io_event) list \<Rightarrow> inspector \<Rightarrow> inspector option" where
  "inspector_steps [] st = Some st"
| "inspector_steps ((g, ev) # evs) st =
     (if exited st then None
      else case goroutine_step g ev (pcs st g) st of None \<Rightarrow> None | Some st \<Rightarrow> inspector_steps evs st)"

definition mainLoop :: "(goroutine \<times> io_event) list \<Rightarrow> inspector option" where
  "mainLoop evs = inspector_steps evs inspector_start"

text \<open>The whole commands: ended by \<open>checkFatal\<close>, waiting for a connection, or in \<open>mainLoop\<close>.\<close>

datatype inspector_status = Exit1 | Waiting | InMainLoop "inspector option"

definition inspector_client :: "error + nat \<Rightarrow> (goroutine \<times> io_event) list \<Rightarrow> inspector_status" where
  "inspector_client dialed evs =
     (case dialed of Inl err \<Rightarrow> Exit1 | Inr conn \<Rightarrow> InMainLoop (mainLoop evs))"

fun accept_loop :: "(error + nat) list \<Rightarrow> (goroutine \<times> io_event) list \<Rightarrow> inspector_status" where
  "accept_loop [] evs = Waiting"
| "accept_loop (Inl err # accepts) evs = accept_loop accepts evs"
| "accept_loop (Inr conn # accepts) evs = InMainLoop (mainLoop evs)"

definition inspector_server :: "error option \<Rightarrow> (error + nat) list \<Rightarrow> (goroutine \<times> io_event) list
    \<Rightarrow> inspector_status" where
  "inspector_server listened accepts evs = (if listened \<noteq> None then Exit1 else accept_loop accepts evs)"

subsection \<open>What is written\<close>

text \<open>What a goroutine has read, what it owes a writer for that, and what it has not yet finished writing.\<close>

definition reads_of :: "goroutine \<Rightarrow> (goroutine \<times> io_event) list \<Rightarrow> (error + message) list" where
  "reads_of g evs = [r. (g', ReadReturns r) \<leftarrow> evs, g' = g]"

definition peer_replies :: "message list \<Rightarrow> message list" where
  "peer_replies ms = [m\<lparr>Command := ''PONG''\<rparr>. m \<leftarrow> ms, Command m = ''PING'']"

definition messages_read :: "(error + message) list \<Rightarrow> message list" where
  "messages_read rs = [m. Inr m \<leftarrow> rs]"

fun owed :: "inspector_writer \<Rightarrow> goroutine \<Rightarrow> (error + message) list \<Rightarrow> message list" where
  "owed PeerWriter PingPong rs = peer_replies (messages_read rs)"
| "owed StdoutWriter PingPong rs = [m \<leftarrow> messages_read rs. Command m \<noteq> ''PING'']"
| "owed PeerWriter DumbCopy rs = messages_read rs"
| "owed StdoutWriter DumbCopy rs = []"

fun in_hand :: "inspector_writer \<Rightarrow> pc \<Rightarrow> message list" where
  "in_hand w (Locking w' m) = (if w' = w then [m] else [])"
| "in_hand w (Writing w' m cs k res) = (if w' = w then [m] else [])"
| "in_hand w pc = []"

text \<open>The part of the line under the lock that the writer has taken, when every \<open>Write\<close> is complete.\<close>

fun cut_at :: "string \<Rightarrow> pc \<Rightarrow> bool" where
  "cut_at part (Writing w m cs k res) \<longleftrightarrow> snd res = None \<and> k \<le> length (concat cs) \<and> (cs = [] \<longrightarrow> k = 0)
     \<and> (cs \<noteq> [] \<longrightarrow> k \<le> length (hd cs)) \<and> String m = part @ drop k (concat cs)"
| "cut_at part pc \<longleftrightarrow> False"

definition whole_writes :: "(goroutine \<times> io_event) list \<Rightarrow> bool" where
  "whole_writes evs \<longleftrightarrow> (\<forall>(g, ev) \<in> set evs. \<forall>e. ev \<noteq> WriteReturns (Some e))"

lemma whole_writes_snoc [simp]:
  "whole_writes (evs @ [(g, ev)]) \<longleftrightarrow> whole_writes evs \<and> (\<forall>e. ev \<noteq> WriteReturns (Some e))"
  by (auto simp: whole_writes_def)

lemma reads_of_snoc [simp]:
  "reads_of g [] = []"
  "reads_of g (evs @ [(g', ReadReturns r)]) = reads_of g evs @ (if g' = g then [r] else [])"
  "(\<And>r. ev \<noteq> ReadReturns r) \<Longrightarrow> reads_of g (evs @ [(g', ev)]) = reads_of g evs"
  by (auto simp: reads_of_def split: io_event.split)

lemma owed_snoc:
  "owed w g (rs @ [r]) = owed w g rs @ in_hand w (loop_body g r)"
  by (cases w; cases g; cases r) (auto simp: messages_read_def peer_replies_def)

lemma inspector_steps_append:
  "inspector_steps (evs @ evs') st =
     (case inspector_steps evs st of None \<Rightarrow> None | Some st \<Rightarrow> inspector_steps evs' st)"
  by (induction evs st rule: inspector_steps.induct) (auto split: option.split)

text \<open>
  The invariant: \<open>ms w\<close> lists the messages written to \<open>w\<close> and by whom. A writer's lock is held
  by the goroutine that is writing to it.
\<close>

definition held :: "inspector \<Rightarrow> bool" where
  "held st \<longleftrightarrow> (\<forall>w g. lock st w = Some g \<longleftrightarrow> (\<exists>m cs k res. pcs st g = Writing w m cs k res))"

definition replies_kept :: "(goroutine \<times> io_event) list \<Rightarrow> (inspector_writer \<Rightarrow> (goroutine \<times> message) list)
    \<Rightarrow> inspector \<Rightarrow> bool" where
  "replies_kept evs ms st \<longleftrightarrow>
     (\<forall>w g. [m. (g', m) \<leftarrow> ms w, g' = g] @ in_hand w (pcs st g) = owed w g (reads_of g evs))"

definition errors_only_read :: "(goroutine \<times> io_event) list \<Rightarrow> inspector \<Rightarrow> bool" where
  "errors_only_read evs st \<longleftrightarrow>
     (\<forall>g w m cs k res. pcs st g = Writing w m cs k res \<longrightarrow> snd res = None)
     \<and> (\<forall>g. (\<exists>e. pcs st g = Failing e) \<longleftrightarrow> (\<exists>e. Inl e \<in> set (reads_of g evs)))
     \<and> (exited st \<longrightarrow> (\<exists>g e. pcs st g = Failing e))"

definition lines_whole :: "(inspector_writer \<Rightarrow> (goroutine \<times> message) list) \<Rightarrow> inspector \<Rightarrow> bool" where
  "lines_whole ms st \<longleftrightarrow>
     (\<forall>w. \<exists>part. taken st w = concat (map (String \<circ> snd) (ms w)) @ part
        \<and> (case lock st w of None \<Rightarrow> part = [] | Some g \<Rightarrow> cut_at part (pcs st g)))"

definition written_after :: "goroutine \<Rightarrow> io_event \<Rightarrow> pc
    \<Rightarrow> (inspector_writer \<Rightarrow> (goroutine \<times> message) list) \<Rightarrow> inspector_writer \<Rightarrow> (goroutine \<times> message) list" where
  "written_after g ev pc ms =
     (case (ev, pc) of (Unlocked, Writing w m cs k res) \<Rightarrow> ms(w := ms w @ [(g, m)]) | _ \<Rightarrow> ms)"

lemma goto_simps [simp]:
  "pcs (goto g pc st) = (pcs st)(g := pc)" "lock (goto g pc st) = lock st"
  "taken (goto g pc st) = taken st" "exited (goto g pc st) = exited st"
  by (simp_all add: goto_def)

lemma loop_body_not_writing [simp]: "loop_body g r \<noteq> Writing w m cs k res"
  "loop_body g r \<noteq> Reading"
  by (cases g; cases r; simp)+

lemma loop_body_failing [simp]: "loop_body g r = Failing e \<longleftrightarrow> r = Inl e"
  by (cases g; cases r; simp)

lemma checkErr_none: "snd res = None \<Longrightarrow> snd (checkErr res x) = None"
  by (cases res; cases x) simp

text \<open>The steps a goroutine can make, as rules.\<close>

lemma goroutine_step_cases:
  assumes "goroutine_step g ev pc st = Some st'"
  obtains (read) r where "ev = ReadReturns r" "pc = Reading" "st' = goto g (loop_body g r) st"
    | (locked) w m where "ev = LockTaken" "pc = Locking w m" "lock st w = None"
        "st' = goto g (Writing w m (write_calls m) 0 (0, None)) st\<lparr>lock := (lock st)(w := Some g)\<rparr>"
    | (takes) n w m c cs k res where "ev = Takes n" "pc = Writing w m (c # cs) k res" "k + n \<le> length c"
        "st' = goto g (Writing w m (c # cs) (k + n) res) st\<lparr>taken := (taken st)(w := taken st w @ take n (drop k c))\<rparr>"
    | (returned) e w m c cs k res where "ev = WriteReturns e" "pc = Writing w m (c # cs) k res"
        "e = None \<Longrightarrow> length c \<le> k" "st' = goto g (Writing w m cs 0 (checkErr res (int k, e))) st"
    | (unlocked) w m k n err where "ev = Unlocked" "pc = Writing w m [] k (n, err)"
        "st' = goto g (case err of None \<Rightarrow> Reading | Some e \<Rightarrow> Failing e) st\<lparr>lock := (lock st)(w := None)\<rparr>"
    | (exits) e where "ev = Exits" "pc = Failing e" "st' = st\<lparr>exited := True\<rparr>"
  using assms
  by (cases "(g, ev, pc, st)" rule: goroutine_step.cases) (force split: if_splits)+

lemma writing_holder:
  assumes h: "held st" and p: "pcs st g = Writing w m cs k res"
  shows "lock st w = Some g" and "v \<noteq> w \<Longrightarrow> lock st v \<noteq> Some g"
proof -
  show "lock st w = Some g" using h p unfolding held_def by blast
  show "v \<noteq> w \<Longrightarrow> lock st v \<noteq> Some g" using h p unfolding held_def by (metis pc.inject(2))
qed

lemma holder_unique:
  "held st \<Longrightarrow> pcs st g = Writing w m cs k res \<Longrightarrow> pcs st g' = Writing w m' cs' k' res' \<Longrightarrow> g' = g"
  using writing_holder(1) [of st g w m cs k res] writing_holder(1) [of st g' w m' cs' k' res'] by simp

fun writes_to :: "pc \<Rightarrow> inspector_writer \<Rightarrow> bool" where
  "writes_to (Writing v m cs k res) w \<longleftrightarrow> v = w"
| "writes_to pc w \<longleftrightarrow> False"

lemma writes_to_iff: "writes_to pc w \<longleftrightarrow> (\<exists>m cs k res. pc = Writing w m cs k res)"
  by (cases pc) auto

lemma held_iff: "held st \<longleftrightarrow> (\<forall>w g. lock st w = Some g \<longleftrightarrow> writes_to (pcs st g) w)"
  by (simp only: held_def writes_to_iff)

lemma held_other:
  assumes "held st" and "lock st' = lock st" and "pcs st' = (pcs st)(g := pc)"
    and "\<And>w. writes_to pc w = writes_to (pcs st g) w"
  shows "held st'"
  using assms by (simp add: held_iff)

lemma writes_to_loop_body [simp]: "\<not> writes_to (loop_body g r) w"
  by (simp add: writes_to_iff)

lemma held_step:
  assumes h: "held st" and s: "goroutine_step g ev (pcs st g) st = Some st'"
  shows "held st'"
  using s
proof (cases rule: goroutine_step_cases)
  case (read r)
  then show ?thesis by (intro held_other [OF h, of st' g "loop_body g r"]) simp_all
next
  case (locked w m)
  have "\<not> writes_to (pcs st g') w" for g' using h locked(3) by (metis held_iff option.distinct(1))
  then show ?thesis using h locked by (simp add: held_iff)
next
  case (takes n w m c cs k res)
  then show ?thesis by (intro held_other [OF h, of st' g "Writing w m (c # cs) (k + n) res"]) simp_all
next
  case (returned e w m c cs k res)
  then show ?thesis by (intro held_other [OF h, of st' g "Writing w m cs 0 (checkErr res (int k, e))"]) simp_all
next
  case (unlocked w m k n err)
  have "writes_to (pcs st g') w \<Longrightarrow> g' = g" for g'
    using holder_unique [OF h unlocked(2)] by (auto simp: writes_to_iff)
  moreover have "\<not> writes_to (case err of None \<Rightarrow> Reading | Some e \<Rightarrow> Failing e) v" for v
    by (cases err) simp_all
  ultimately show ?thesis using h unlocked by (auto simp: held_iff)
next
  case (exits e)
  then show ?thesis using h by (simp add: held_iff)
qed

lemma errors_step:
  assumes a: "errors_only_read evs st" "\<not> exited st" and s: "goroutine_step g ev (pcs st g) st = Some st'"
  shows "errors_only_read (evs @ [(g, ev)]) st'"
proof -
  have f: "(\<exists>e. pcs st g = Failing e) = (\<exists>e. Inl e \<in> set (reads_of g evs))"
    and n: "\<And>w m cs k res. pcs st g = Writing w m cs k res \<Longrightarrow> snd res = None"
    using a by (auto simp: errors_only_read_def)
  from s show ?thesis
  proof (cases rule: goroutine_step_cases)
    case (read r)
    then show ?thesis using a f by (auto simp: errors_only_read_def)
  next
    case (returned e w m c cs k res)
    have "snd (checkErr res (int k, e)) = None" using n [OF returned(2)] by (rule checkErr_none)
    then show ?thesis using returned a f by (auto simp: errors_only_read_def)
  next
    case (unlocked w m k n err)
    then show ?thesis using n [OF unlocked(2)] a f by (auto simp: errors_only_read_def)
  qed (use a f in \<open>auto simp: errors_only_read_def\<close>)
qed

lemma replies_kept_step:
  assumes a: "replies_kept evs ms st" and s: "goroutine_step g ev (pcs st g) st = Some st'"
  shows "replies_kept (evs @ [(g, ev)]) (written_after g ev (pcs st g) ms) st'"
proof -
  have f: "[m. (g', m) \<leftarrow> ms w, g' = g] @ in_hand w (pcs st g) = owed w g (reads_of g evs)" for w
    using a by (simp add: replies_kept_def)
  from s show ?thesis
  proof (cases rule: goroutine_step_cases)
    case (read r)
    then show ?thesis using a f by (auto simp: replies_kept_def written_after_def owed_snoc)
  next
    case (unlocked w m k n err)
    have "[m. (g', m) \<leftarrow> ms w, g' = g] @ [m] = owed w g (reads_of g evs)"
      using f [of w] unlocked by simp
    moreover have "v \<noteq> w \<Longrightarrow> [m. (g', m) \<leftarrow> ms v, g' = g] = owed v g (reads_of g evs)" for v
      using f [of v] unlocked by simp
    ultimately show ?thesis using unlocked a by (auto simp: replies_kept_def written_after_def split: option.splits)
  qed (use a f in \<open>auto simp: replies_kept_def written_after_def\<close>)
qed

lemma lines_other:
  assumes "lines_whole ms st" and "lock st' = lock st" and "taken st' = taken st"
    and "\<And>w g'. lock st w = Some g' \<Longrightarrow> pcs st' g' = pcs st g'"
  shows "lines_whole ms st'"
  unfolding lines_whole_def
proof
  fix w
  obtain part where "taken st w = concat (map (String \<circ> snd) (ms w)) @ part"
    "case lock st w of None \<Rightarrow> part = [] | Some g \<Rightarrow> cut_at part (pcs st g)"
    using assms(1) unfolding lines_whole_def by blast
  then show "\<exists>part. taken st' w = concat (map (String \<circ> snd) (ms w)) @ part
      \<and> (case lock st' w of None \<Rightarrow> part = [] | Some g \<Rightarrow> cut_at part (pcs st' g))"
    using assms(2-4) by (auto split: option.splits)
qed

text \<open>A step of the holder of the lock of \<open>w\<close>, seen from every writer.\<close>

lemma lines_at:
  assumes l: "lines_whole ms st" and "\<And>v. v \<noteq> w \<Longrightarrow> lock st' v = lock st v \<and> taken st' v = taken st v \<and> ms' v = ms v"
    and "\<And>v g'. v \<noteq> w \<Longrightarrow> lock st v = Some g' \<Longrightarrow> pcs st' g' = pcs st g'"
    and "\<And>part. taken st w = concat (map (String \<circ> snd) (ms w)) @ part \<Longrightarrow>
      (case lock st w of None \<Rightarrow> part = [] | Some g \<Rightarrow> cut_at part (pcs st g)) \<Longrightarrow>
      \<exists>part. taken st' w = concat (map (String \<circ> snd) (ms' w)) @ part
        \<and> (case lock st' w of None \<Rightarrow> part = [] | Some g \<Rightarrow> cut_at part (pcs st' g))"
  shows "lines_whole ms' st'"
  unfolding lines_whole_def
proof
  fix v
  obtain part where p: "taken st v = concat (map (String \<circ> snd) (ms v)) @ part"
    "case lock st v of None \<Rightarrow> part = [] | Some g \<Rightarrow> cut_at part (pcs st g)"
    using l unfolding lines_whole_def by blast
  show "\<exists>part. taken st' v = concat (map (String \<circ> snd) (ms' v)) @ part
      \<and> (case lock st' v of None \<Rightarrow> part = [] | Some g \<Rightarrow> cut_at part (pcs st' g))"
  proof (cases "v = w")
    case True
    then show ?thesis using p assms(4) by blast
  next
    case False
    then show ?thesis using p assms(2,3) [of v] by (auto split: option.splits)
  qed
qed

lemma lines_step:
  assumes l: "lines_whole ms st" and h: "held st" and e: "errors_only_read evs st"
    and s: "goroutine_step g ev (pcs st g) st = Some st'" and n: "\<And>e. ev \<noteq> WriteReturns (Some e)"
  shows "lines_whole (written_after g ev (pcs st g) ms) st'"
  using s
proof (cases rule: goroutine_step_cases)
  case (read r)
  with h have "\<And>w. lock st w \<noteq> Some g" by (auto simp: held_def)
  with read show ?thesis by (auto simp: written_after_def intro!: lines_other [OF l])
next
  case (locked w m)
  with h have "\<And>v. lock st v \<noteq> Some g" by (auto simp: held_def)
  with locked l show ?thesis
    using write_calls_nonempty [of m]
    by (auto simp: written_after_def concat_write_calls intro!: lines_at [of ms st w])
next
  case (takes n w m c cs k res)
  note w = writing_holder [OF h takes(2)]
  have d: "drop k c = take n (drop k c) @ drop (k + n) c"
    by (metis append_take_drop_id drop_drop add.commute)
  show ?thesis
    by (rule lines_at [OF l, of w]) (use takes w d in \<open>auto simp: written_after_def\<close>)
next
  case (returned e w m c cs k res)
  note w = writing_holder [OF h returned(2)]
  show ?thesis
    by (rule lines_at [OF l, of w]) (use returned w n in \<open>auto simp: written_after_def checkErr_none\<close>)
next
  case (unlocked w m k n err)
  note w = writing_holder [OF h unlocked(2)]
  show ?thesis
    by (rule lines_at [OF l, of w]) (use unlocked w in \<open>auto simp: written_after_def\<close>)
next
  case (exits e)
  with l show ?thesis by (auto simp: written_after_def intro: lines_other)
qed

lemma inspector_invariant:
  assumes "inspector_steps evs inspector_start = Some st"
  shows "held st \<and> errors_only_read evs st \<and> (\<exists>ms. replies_kept evs ms st \<and> (whole_writes evs \<longrightarrow> lines_whole ms st))"
  using assms
proof (induction evs arbitrary: st rule: rev_induct)
  case Nil
  have "replies_kept [] (\<lambda>w. []) inspector_start" "lines_whole (\<lambda>w. []) inspector_start"
  proof -
    have "owed w g [] = []" for w g by (cases w; cases g) (simp_all add: messages_read_def peer_replies_def)
    then show "replies_kept [] (\<lambda>w. []) inspector_start" by (simp add: replies_kept_def inspector_start_def)
    show "lines_whole (\<lambda>w. []) inspector_start" by (simp add: lines_whole_def inspector_start_def)
  qed
  with Nil show ?case by (auto simp: held_def errors_only_read_def inspector_start_def)
next
  case (snoc x evs)
  obtain g ev where x: "x = (g, ev)" by force
  obtain st1 where st1: "inspector_steps evs inspector_start = Some st1" "\<not> exited st1"
      "goroutine_step g ev (pcs st1 g) st1 = Some st"
    using snoc.prems by (auto simp: x inspector_steps_append split: option.splits if_splits)
  from snoc.IH [OF st1(1)] obtain ms where i: "held st1" "errors_only_read evs st1" "replies_kept evs ms st1"
    "whole_writes evs \<longrightarrow> lines_whole ms st1" by blast
  show ?case unfolding x
    using held_step [OF i(1) st1(3)] errors_step [OF i(2) st1(2,3)] replies_kept_step [OF i(3) st1(3)]
      lines_step [OF _ i(1,2) st1(3)] i(4) by auto
qed

text \<open>What a writer has taken is whole lines and, at most, the beginning of one line in hand.\<close>

lemma inspector_output:
  assumes "mainLoop evs = Some st"
  shows "\<exists>ms part.
    (\<forall>g. [m. (g', m) \<leftarrow> ms, g' = g] @ in_hand w (pcs st g) = owed w g (reads_of g evs))
    \<and> (whole_writes evs \<longrightarrow> taken st w = concat (map (String \<circ> snd) ms) @ part
        \<and> (part \<noteq> [] \<longrightarrow> (\<exists>g m. in_hand w (pcs st g) = [m] \<and> (\<exists>rest. String m = part @ rest))))"
proof -
  from inspector_invariant [OF assms [unfolded mainLoop_def]] obtain ms where
    i: "held st" "replies_kept evs ms st" "whole_writes evs \<longrightarrow> lines_whole ms st" by blast
  obtain part where p: "whole_writes evs \<longrightarrow> taken st w = concat (map (String \<circ> snd) (ms w)) @ part
      \<and> (case lock st w of None \<Rightarrow> part = [] | Some g \<Rightarrow> cut_at part (pcs st g))"
    using i(3) unfolding lines_whole_def by blast
  have "\<exists>m. in_hand w (pcs st g) = [m] \<and> (\<exists>rest. String m = part @ rest)"
    if "lock st w = Some g" "cut_at part (pcs st g)" for g
    using that(2) i(1) that(1) by (cases "pcs st g") (auto simp: held_iff)
  with p i(2) show ?thesis
    by (intro exI [of _ "ms w"] exI [of _ part]) (auto simp: replies_kept_def split: option.splits)
qed

lemma inspector_ends:
  assumes "mainLoop evs = Some st" and "exited st"
  shows "\<exists>g e. Inl e \<in> set (reads_of g evs)"
  using inspector_invariant [OF assms(1) [unfolded mainLoop_def]] assms(2)
  unfolding errors_only_read_def by blast

end
