(* ===== verification/Scenario.thy ===== *)
theory Scenario
  imports Proxy_Sequences Sandstorm_Network Commands
begin

text \<open>
  A small concrete world for the instances of the properties: the store in memory, transports
  that take every message, a user \<open>alice\<close> in the channel \<open>#s\<close> with \<open>bob\<close>, and one message
  for her in the log.
\<close>

definition demo_unread :: message where
  "demo_unread = \<lparr>Prefix = ''bob!b@host'', Command = ''PRIVMSG'', Params = [''#s'', ''still there?'']\<rparr>"

definition demo_env :: "(eph_store, eph_cursor) env" where
  "demo_env =
     \<lparr>store = eph_ops, write_err = (\<lambda>n. None), dial = (\<lambda>n. Inr 100), clock = int, backlog = (\<lambda>n. [demo_unread]),
      range_order = (\<lambda>n xs. xs), fuel = 100\<rparr>"

definition demo_join :: message where
  "demo_join = \<lparr>Prefix = ''alice!al@home'', Command = ''JOIN'', Params = [''#s'']\<rparr>"

definition demo_me :: client_id where
  "demo_me = \<lparr>Flag = [], Nick = ''alice'', User = ''al'', Host = ''home''\<rparr>"

definition demo_chan :: channel_state where
  "demo_chan = \<lparr>Topic = ''Welcome'', users = [(''alice'', True), (''bob'', True)]\<rparr>"

definition demo_session :: session where
  "demo_session =
     \<lparr>ClientID = demo_me, Handshake = \<lparr>haveNick = True, haveUser = True, haveMOTD = True\<rparr>,
      channels = [(''#s'', demo_chan)]\<rparr>"

definition demo_msg :: message where
  "demo_msg = \<lparr>Prefix = ''bob!b@host'', Command = ''PRIVMSG'', Params = [''#s'', ''hello there'']\<rparr>"

definition demo_conn :: "handle \<Rightarrow> session \<Rightarrow> connection" where
  "demo_conn h s =
     \<lparr>rwc = Some h, chan = Some h, Session = s, DropDeadline = 0, PingDeadline = 0, PingSent = False, unread = []\<rparr>"

text \<open>Nobody is at home; then the same with a client that is registered, and one that is not.\<close>

definition demo_idle :: "eph_store proxy" where
  "demo_idle =
     \<lparr>client = emptyConnection, server = demo_conn 100 demo_session,
      messagelogs = \<lparr>log_channels = [(''#s'', [demo_msg])]\<rparr>, preLogSession = demo_session,
      haveMsgCache = True, cache_yourhost = ''Your host'', cache_created = ''created'',
      cache_myinfo = [''irc'', ''1'', ''o'', ''n''], serverPrefix = ''irc.example'', tick = 5, trace = []\<rparr>"

definition demo_online :: "eph_store proxy" where
  "demo_online = demo_idle\<lparr>client := demo_conn 7 (demo_session\<lparr>channels := []\<rparr>)\<rparr>"

definition demo_joined :: "eph_store proxy" where
  "demo_joined = demo_idle\<lparr>client := demo_conn 7 demo_session\<rparr>"

definition demo_greeting :: "eph_store proxy" where
  "demo_greeting = demo_idle\<lparr>client := demo_conn 7
     (NewSession\<lparr>Handshake := \<lparr>haveNick = True, haveUser = False, haveMOTD = False\<rparr>\<rparr>)\<rparr>"

lemmas demo_defs = demo_env_def demo_me_def demo_chan_def demo_session_def demo_msg_def demo_conn_def
  demo_idle_def demo_online_def demo_joined_def demo_greeting_def

text \<open>What the instances need to know of it.\<close>

lemma demo_env_simps [simp]:
  "store demo_env = eph_ops" "write_err demo_env n = None" "range_order demo_env n xs = xs"
  "fuel demo_env = 100" "all_written demo_env" "dial demo_env n = Inr 100" "clock demo_env n = int n"
  by (simp_all add: demo_env_def all_written_def)

lemma demo_session_simps [simp]:
  "Done (Handshake demo_session)" "wf_session demo_session" "ClientID demo_session = demo_me"
  "HaveChannel demo_session ''#s''" "\<not> HaveChannel (demo_session\<lparr>channels := []\<rparr>) name"
  by (simp_all add: demo_session_def demo_chan_def Done_def wf_session_def wf_channels_def wf_channel_def
      HaveChannel_def Channels_HaveChannel_def)

lemma demo_conn_simps [simp]:
  "rwc (demo_conn h s) = Some h" "chan (demo_conn h s) = Some h" "Session (demo_conn h s) = s"
  "\<not> IsClosed (demo_conn h s)" "\<not> PingSent (demo_conn h s)"
  by (simp_all add: demo_conn_def IsClosed_def)

lemma demo_proxy_simps [simp]:
  "client demo_idle = emptyConnection" "client demo_online = demo_conn 7 (demo_session\<lparr>channels := []\<rparr>)"
  "client demo_joined = demo_conn 7 demo_session"
  "server demo_idle = demo_conn 100 demo_session" "server demo_online = demo_conn 100 demo_session"
  "server demo_joined = demo_conn 100 demo_session" "server demo_greeting = demo_conn 100 demo_session"
  "preLogSession demo_online = demo_session" "trace demo_online = []" "trace demo_idle = []"
  "trace demo_joined = []" "trace demo_greeting = []" "haveMsgCache demo_greeting"
  "rwc (client demo_greeting) = Some 7"
  by (simp_all add: demo_idle_def demo_online_def demo_joined_def demo_greeting_def)

lemma demo_logs [simp]:
  "eph_contents (messagelogs demo_idle) = (\<lambda>name. if name = ''#s'' then [demo_msg] else [])"
  "messagelogs demo_online = messagelogs demo_idle" "messagelogs demo_joined = messagelogs demo_idle"
  "messagelogs demo_greeting = messagelogs demo_idle"
  by (auto simp: demo_defs eph_contents_def fun_eq_iff)

lemma demo_msg_simps [simp]:
  "Validate demo_msg = None" "Command demo_msg = ''PRIVMSG''" "Params demo_msg = [''#s'', ''hello there'']"
  "params_present demo_msg"
  by (simp_all add: demo_msg_def Validate_None params_present_def)

lemma demo_replayable [simp]: "replayable (\<lambda>s. True) eph_contents 100 (messagelogs demo_idle)"
  by (simp add: replayable_def)

text \<open>The proxy after its first client connected is reachable.\<close>

lemma demo_reachable: "reachable demo_env eph_NewStore (accept_client demo_env 7 (NewProxy eph_NewStore))"
proof (rule reachable.advance [OF reachable.start])
  show "step demo_env (NewProxy eph_NewStore) (accept_client demo_env 7 (NewProxy eph_NewStore))"
    by (rule step.event [of "ClientConn 7"]) simp_all
qed

text \<open>The first message of a client.\<close>

definition demo_nick :: message where
  "demo_nick = msg_of ''NICK'' [''al'']"

text \<open>The Sandstorm app: a server on port 6697, one token that is valid, files that can be
  written.\<close>

definition demo_config :: server_config where
  "demo_config = \<lparr>cfg_Host = ''irc.example'', cfg_Port = 6697, cfg_TLS = True\<rparr>"

definition demo_web :: web_env where
  "demo_web =
     \<lparr>xsrf_Valid = (\<lambda>token key user act. token = ''t''), xsrf_Generate = (\<lambda>key user act. ''t''),
      ClaimRequest = (\<lambda>token. Inr (Inr 3))\<rparr>"

definition demo_main :: main_env where
  "demo_main =
     \<lparr>rand_Read = Inr (replicate 16 CHR ''x''), ConnectAPI_err = None, open_err = None, ping_err = None,
      read_err = (\<lambda>path. None), file_err = (\<lambda>n path. None),
      api_Save = (\<lambda>cap. Inr (Inr ''cap'')), api_Restore = (\<lambda>token. Inr 3)\<rparr>"

definition demo_settings :: request where
  "demo_settings = PostSettings None (Inr \<lparr>Config = demo_config, XSRFToken = ''t''\<rparr>)"

definition demo_net :: net_env where
  "demo_net = \<lparr>raw_dial = (\<lambda>n network addr. Inr (100 + n)), handshake_err = (\<lambda>n host conn. None)\<rparr>"

lemmas demo_app_defs = demo_config_def demo_web_def demo_main_def demo_settings_def demo_net_def

lemma demo_requests [simp]:
  "request_events demo_web key demo_settings = [SetServerConfig demo_config]"
  "request_events demo_web key (PostNetworkCap (''tok'', None)) = [IpNetworkCap 3]"
  by (simp_all add: demo_app_defs post_settings_def form_Validate_def post_network_cap_def read_limited_def)

text \<open>The app as it starts for the first time, and after the settings were posted.\<close>

definition demo_app :: main_state where
  "demo_app =
     \<lparr>serverConfig = zero_config, daemon = None, daemonClientConns = None, ipNetwork = None,
      files = (\<lambda>path. None), next_daemon = 0, actions = []\<rparr>"

definition demo_app_set :: main_state where
  "demo_app_set = demo_app\<lparr>serverConfig := demo_config, files := (files demo_app)(serverConfigFile := Some (projr (json_Marshal demo_config))),
     actions := [WroteFile serverConfigFile True]\<rparr>"

lemma demo_app_start: "main_start demo_main (\<lambda>path. None) = Ret demo_app"
  by (simp add: main_start_def loadServerConfig_def ReadFile_def demo_app_defs demo_app_def zero_config_def)

lemma demo_app_round: "main_round demo_main (SetServerConfig demo_config) demo_app = Ret demo_app_set"
  by (simp add: saveServerConfig_def WriteFile_def demo_main_def demo_app_def demo_app_set_def json_Marshal_def)

lemma demo_app_reachable:
  "main_reachable demo_main demo_web key (\<lambda>path. None) demo_app_set"
  by (rule main_reachable.round [OF main_reachable.start [OF demo_app_start] _ demo_app_round, of _ _ demo_settings]) simp

lemma demo_app_network:
  "\<exists>st. main_round demo_main (IpNetworkCap 3) demo_app_set = Ret st \<and> daemon st = Some 0
     \<and> main_reachable demo_main demo_web key (\<lambda>path. None) st"
proof -
  have "\<exists>st. main_round demo_main (IpNetworkCap 3) demo_app_set = Ret st \<and> daemon st = Some 0"
    by (simp add: saveIpNetwork_def WriteFile_def newDaemon_def demo_main_def demo_app_def demo_app_set_def
        demo_config_def Let_def)
  then obtain st where st: "main_round demo_main (IpNetworkCap 3) demo_app_set = Ret st" "daemon st = Some 0" by blast
  have "IpNetworkCap 3 \<in> set (request_events demo_web key (PostNetworkCap (''tok'', None)))"
    by (simp del: request_events.simps)
  from main_reachable.round [OF demo_app_reachable this st(1)] st show ?thesis by blast
qed

text \<open>The process of the app: every daemon meets the world of \<open>demo_env\<close>, and dials on \<open>demo_net\<close>.\<close>

definition demo_daemons :: "(eph_store, eph_cursor) daemon_env" where
  "demo_daemons = (\<lambda>k net dc. via_connector (\<lambda>n. demo_net) dc demo_env)"

definition demo_boot :: "process_event list" where
  "demo_boot = [Backend (SetServerConfig demo_config), Backend (IpNetworkCap 3), Backend (NewClient 9)]"

definition demo_restart :: "process_event list" where
  "demo_restart = [Backend (SetServerConfig demo_config), Finish 0, Backend (NewClient 10)]"

definition demo_process :: "eph_store process res" where
  "demo_process = andThen (process_start demo_main demo_daemons (\<lambda>path. None) eph_NewStore)
     (process_run demo_main demo_daemons demo_boot)"

lemma demo_all_daemons [simp]: "all_daemons eph_ops 100 demo_daemons"
  by (simp add: all_daemons_def demo_daemons_def via_connector_def)

lemma demo_dial [simp]: "dial (demo_daemons k net (config_connector demo_config)) n = Inr 100"
proof -
  have "SplitHostPort (ServerConfig_String demo_config) = Inr (''irc.example'', dec_digits 6697)"
    using ServerConfig_address [of demo_config] by (simp add: demo_config_def plain_host_def)
  moreover have "cfg_TLS demo_config" by (simp add: demo_config_def)
  ultimately show ?thesis
    by (simp add: demo_daemons_def via_connector_def DialerConnector_Connect_def config_connector_def demo_net_def)
qed

lemma demo_requested [simp]:
  "requested demo_web key (Backend (SetServerConfig demo_config))" "requested demo_web key (Backend (IpNetworkCap 3))"
  "requested demo_web key (Backend (NewClient conn))"
  by (rule requestedI [of _ _ _ demo_settings], simp del: request_events.simps,
    rule requestedI [of _ _ _ "PostNetworkCap (''tok'', None)"], simp del: request_events.simps,
    rule requestedI [of _ _ _ "GetConnect conn"], simp)

lemma demo_events_requested [simp]:
  "list_all (requested demo_web key) demo_boot" "list_all (requested demo_web key) demo_restart"
  by (simp_all add: demo_boot_def demo_restart_def del: requested.simps(1))

definition demo_app_online :: main_state where
  "demo_app_online = demo_app_set\<lparr>files := (files demo_app_set)(ipNetworkCapFile := Some ''cap''),
     daemon := Some 0, daemonClientConns := Some 0, ipNetwork := Some 3, next_daemon := 1,
     actions := actions demo_app_set @ [WroteFile ipNetworkCapFile True, StartedDaemon 0 3 (config_connector demo_config)]\<rparr>"

lemma demo_app_round2: "main_round demo_main (IpNetworkCap 3) demo_app_set = Ret demo_app_online"
  by (simp add: saveIpNetwork_def WriteFile_def newDaemon_def Let_def demo_app_online_def demo_app_set_def
      demo_app_def demo_main_def demo_config_def)

lemma demo_process_runs:
  "\<exists>s d. demo_process = Ret s \<and> process_reachable demo_main demo_daemons demo_web ''key'' (\<lambda>path. None) eph_NewStore s
    \<and> daemons s 0 = Some d \<and> d_phase d = Running \<and> chan (server (d_proxy d)) = Some 100
    \<and> trace (d_proxy d) = [Accepted 9, Dialed (Some 100)] \<and> serverConfig (app s) = demo_config"
proof -
  let ?s0 = "\<lparr>app = demo_app, shared_logs = eph_NewStore, daemons = Map.empty\<rparr>"
  have s0: "process_start demo_main demo_daemons (\<lambda>path. None) eph_NewStore = Ret ?s0"
    by (simp add: process_start_def demo_app_start) (simp add: demo_app_def)
  let ?s1 = "?s0\<lparr>app := demo_app_set\<rparr>"
  have s1: "main_step demo_main demo_daemons (SetServerConfig demo_config) ?s0 = Ret ?s1"
    by (simp add: main_step_def demo_app_round del: main_round.simps) (simp add: demo_app_def demo_app_set_def)
  let ?d = "\<lparr>d_phase = Running, d_network = 3, d_connector = config_connector demo_config, d_proxy = NewProxy eph_NewStore\<rparr>"
  let ?s2 = "?s0\<lparr>app := demo_app_online, daemons := [0 \<mapsto> ?d]\<rparr>"
  have s2: "main_step demo_main demo_daemons (IpNetworkCap 3) ?s1 = Ret ?s2"
    by (simp add: main_step_def demo_app_round2 del: main_round.simps) (simp add: demo_app_online_def demo_app_set_def)
  let ?p = "accept_client (demo_daemons 0 3 (config_connector demo_config)) 9 ((NewProxy eph_NewStore)\<lparr>messagelogs := eph_NewStore\<rparr>)"
  let ?s3 = "?s2\<lparr>app := demo_app_online\<lparr>actions := actions demo_app_online @ [SentConn 0 9]\<rparr>,
    daemons := [0 \<mapsto> ?d\<lparr>d_proxy := ?p\<rparr>]\<rparr>"
  have "main_step demo_main demo_daemons (NewClient 9) ?s2 = Ret ?s3"
    by (simp add: main_step_def demo_app_online_def daemon_round_def)
  with s0 s1 s2 have run: "process_run demo_main demo_daemons demo_boot ?s0 = Ret ?s3" by (simp add: demo_boot_def)
  with s0 have "demo_process = Ret ?s3" by (simp add: demo_process_def)
  moreover have "process_reachable demo_main demo_daemons demo_web ''key'' (\<lambda>path. None) eph_NewStore ?s3"
    by (rule process_run_reachable [OF process_reachable.start [OF s0] demo_events_requested(1) run])
  moreover have "chan (server ?p) = Some 100" "trace ?p = [Accepted 9, Dialed (Some 100)]"
    by (simp add: accept_client_def Let_def time_Now_def Connect_def NewProxy_def)
      (simp add: accept_client_def Let_def time_Now_def Connect_def NewProxy_def dropClient_def
        shutdown_client_def shutdown_server_def shutdown_def IsClosed_def)
  moreover have "serverConfig demo_app_online = demo_config" by (simp add: demo_app_online_def demo_app_set_def)
  ultimately show ?thesis by (intro exI [of _ ?s3] exI [of _ "?d\<lparr>d_proxy := ?p\<rparr>"]) simp
qed

section \<open>An inspector that ends while it writes\<close>

text \<open>A PING is read, and of its answer the command is out when the standard input ends.\<close>

definition demo_cut :: "(goroutine \<times> io_event) list" where
  "demo_cut =
     [(PingPong, ReadReturns (Inr (msg_of ''PING'' [''x'']))), (PingPong, LockTaken), (PingPong, Takes 4),
      (PingPong, WriteReturns None), (DumbCopy, ReadReturns (Inl EOF)), (DumbCopy, Exits)]"

end
