(* ===== verification/Further_Facts.thy ===== *)
theory Further_Facts
  imports Scenario Numeric_Replies
begin

text \<open>
  Facts about single operations that the properties of the root theory do not repeat: one event
  of a client or a server, one message, one call of a store. Each comes with an instance in the
  world of \<open>Scenario\<close>.
\<close>

section \<open>The handlers return\<close>

text \<open>
  No event of the client can crash the daemon, valid message, invalid message or closed
  connection: the handler returns. The store may fail in any way its contract allows; the logs
  hold messages with their parameters, as the proxy leaves them.
\<close>

lemma client_events_return:
  assumes "log_store ops good contents cgood pending fails keeps" and "store env = ops"
    and "replayable good contents (fuel env) (messagelogs p)"
  shows "\<exists>p'. handleClientEvent env ev p = Ret p'"
  using log_store.returns_client_event [OF assms] by (simp add: returns_def)

lemma client_events_return_witness:
  "\<exists>p'. handleClientEvent demo_env (Some (msg_of ''JOIN'' [''#s''])) demo_online = Ret p'"
  using client_events_return [OF eph.log_store_axioms, where env = demo_env and p = demo_online] by simp

text \<open>
  Of the events of the server only a KICK or a PART without parameters can crash the daemon;
  every other one is handled to the end.
\<close>

lemma server_events_return:
  assumes "log_store ops good contents cgood pending fails keeps" and "store env = ops"
    and "replayable good contents (fuel env) (messagelogs p)"
    and "\<And>m. ev = Some m \<Longrightarrow> Command m \<in> {''KICK'', ''PART''} \<Longrightarrow> Params m \<noteq> []"
  shows "\<exists>p'. handleServerEvent env ev p = Ret p'"
  using log_store.returns_server_event [OF assms] by (simp add: returns_def)

lemma server_events_return_witness:
  "\<exists>p'. handleServerEvent demo_env (Some demo_msg) demo_online = Ret p'"
  using server_events_return [OF eph.log_store_axioms, where env = demo_env and p = demo_online
      and ev = "Some demo_msg"] by simp

section \<open>More of the handlers\<close>

text \<open>
  A PING of the server is answered with a PONG of the same parameters, and never reaches the
  client or a log. If the answer cannot be written, both connections are closed.
\<close>

lemma server_ping_answered:
  assumes "Command m = ''PING''" and "length (Params m) \<le> 15" and "rwc (server p) = Some hs"
  shows "\<exists>p'. handleServerEvent env (Some m) p = Ret p' \<and> messagelogs p' = messagelogs p
    \<and> (if write_err env (tick p) = None
       then client p' = client p
         \<and> trace p' = trace p @ [Wrote hs \<lparr>Prefix = [], Command = ''PONG'', Params = Params m\<rparr> True]
       else IsClosed (client p') \<and> IsClosed (server p'))"
proof -
  have v: "Validate m = None" using assms(1,2) by (simp add: Validate_None min_params_of_def minParams_def)
  have "m\<lparr>Prefix := [], Command := ''PONG''\<rparr> = \<lparr>Prefix = [], Command = ''PONG'', Params = Params m\<rparr>"
    by (cases m) simp
  moreover have "Session_UpdateFromServer (server_session p) m = Ret ((server_session p)\<lparr>Handshake :=
      Handshake_UpdateFromServer (Handshake (server_session p)) m\<rparr>)"
    using assms(1) by (intro Session_update_other_channels) simp
  ultimately show ?thesis using v assms(1,3)
    by (auto simp: handleServerEvent_def handle_server_command_def do_sendServer_def sendServer_def write_to_def)
qed

lemma server_ping_answered_witness:
  "\<exists>p'. handleServerEvent demo_env (Some (msg_of ''PING'' [''x''])) demo_joined = Ret p'
    \<and> trace p' = [Wrote 100 (msg_of ''PONG'' [''x'']) True]"
  using server_ping_answered [where m = "msg_of ''PING'' [''x'']" and p = demo_joined and env = demo_env and hs = 100]
  by auto

lemma join_of_joined:
  assumes "Command m = ''JOIN''" and "Params m = name # rest" and "length (Params m) \<le> 15"
    and "Done (Handshake (client_session p))" and "HaveChannel (client_session p) name"
  shows "handleClientEvent env (Some m) p = Ret p"
proof -
  have v: "Validate m = None" using assms(1-3) by (simp add: Validate_None)
  have same: "p\<lparr>client := (client p)\<lparr>Session := Session_UpdateFromClient (client_session p) m\<rparr>\<rparr> = p"
    using assms(4) by (simp add: Session_UpdateFromClient_def)
  show ?thesis using assms unfolding handleClientEvent_valid [OF v refl] same by simp
qed

text \<open>
  A JOIN for a channel the client is recorded to be in is dropped without a word: a client
  that rejoins twice is sent the channel, and its log, once.
\<close>

lemma repeated_join_ignored:
  assumes "Command m = ''JOIN''" and "Params m = name # rest" and "length (Params m) \<le> 15"
    and "Done (Handshake (client_session p))" and "HaveChannel (client_session p) name"
  shows "handleClientEvent env (Some m) p = Ret p"
  using assms by (rule join_of_joined)

lemma repeated_join_ignored_witness:
  "handleClientEvent demo_env (Some (msg_of ''JOIN'' [''#s''])) demo_joined = Ret demo_joined"
  by (rule repeated_join_ignored [where name = "''#s''" and rest = "[]"]) simp_all

text \<open>
  The log gets the message at its end or not at all, and only a message of \<open>logged_commands\<close>
  under its first parameter; no other log, no connection and no transport is touched.
\<close>

lemma logging_frame:
  assumes "log_store ops good contents cgood pending fails keeps" and "store env = ops"
    and "good (messagelogs p)" and "keeps m" and "logMessage env m p = Ret p'"
  shows "p' = p\<lparr>messagelogs := messagelogs p'\<rparr>
    \<and> (contents (messagelogs p') = contents (messagelogs p)
       \<or> Command m \<in> set logged_commands
         \<and> contents (messagelogs p') =
             (contents (messagelogs p))(Params m ! 0 := contents (messagelogs p) (Params m ! 0) @ [m]))"
  using ensuresD [OF log_store.logMessage_contents [OF assms(1-4)] assms(5)] by auto

lemma logging_frame_witness:
  "\<exists>p'. logMessage demo_env demo_msg demo_idle = Ret p'
    \<and> (eph_contents (messagelogs p') ''#t'' = [] \<and> client p' = emptyConnection)"
proof -
  obtain p' where "logMessage demo_env demo_msg demo_idle = Ret p'"
    using eph.logMessage_appends [where env = demo_env and p = demo_idle and m = demo_msg]
    by (auto simp: logged_commands_def)
  moreover from logging_frame [OF eph.log_store_axioms, where env = demo_env and p = demo_idle and m = demo_msg and p' = p']
    this have "p' = demo_idle\<lparr>messagelogs := messagelogs p'\<rparr>" "eph_contents (messagelogs p') ''#t'' = []"
    by auto
  moreover from this(1) have "client p' = client (demo_idle\<lparr>messagelogs := messagelogs p'\<rparr>)" by (rule arg_cong)
  then have "client p' = emptyConnection" by simp
  ultimately show ?thesis by blast
qed

section \<open>Messages and channels\<close>

text \<open>
  \<open>Len\<close> is the number of bytes that \<open>String\<close> produces, and these are the line of the message and
  the line end.
\<close>

lemma length_exact: "Len m = length (String m) \<and> String m = line_text m @ [CR, LF]"
  by (simp add: Len_eq String_eq)

text \<open>
  \<open>Eq\<close> decides equality of messages.
\<close>

lemma Eq_decides: "Eq m1 m2 \<longleftrightarrow> m1 = m2"
  by (rule Eq_iff)

text \<open>
  An empty line ends the stream: it is reported as the end of the file, and the messages after it
  are never delivered, so the peer is treated as gone.
\<close>

lemma blank_line_ends_stream:
  assumes "list_all storable ms"
  shows "ReadAll (NewReader (concat (map String ms) @ [CR, LF] @ rest) e) = ms"
proof -
  have "ReadAll (NewReader ([CR, LF] @ rest) e) = []" by (rule ReadAll_error [OF ReadMessage_blank])
  then show ?thesis using assms ReadAll_append [of ms "[CR, LF] @ rest" e] by (simp add: list_all_iff)
qed

lemma blank_line_ends_stream_witness:
  "ReadAll (NewReader ([CR, LF] @ String (msg_of ''QUIT'' [])) EOF) = []"
  using blank_line_ends_stream [of "[]" "String (msg_of ''QUIT'' [])" EOF] by simp

text \<open>
  A line of 511 bytes that ends in a bare line feed is accepted, but its text is one byte too
  long for the store to read back.
\<close>

lemma long_line_not_storable:
  fixes m defines "m \<equiv> msg_of ''PRIVMSG'' [''#s'', replicate 500 CHR ''a'']"
  shows "ReadMessage (NewReader (line_text m @ LF # rest) e) = (Inr m, NewReader rest e)
    \<and> ParseMessage (String m) = Inl ErrTooLong"
proof -
  have ok: "wire_ok m" by (simp add: m_def wire_ok_def command_ok_def)
  have t: "line_text m = ''PRIVMSG #s '' @ replicate 499 CHR ''a'' @ [CHR ''a'']"
    using replicate_add [of 499 1 "CHR ''a''"]
    by (simp add: m_def line_text_def prefix_text_def last_param_text_def)
  have len: "length (line_text m) = 511" by (simp add: t)
  have lf: "LF \<notin> set (line_text m)" by (simp add: t)
  have "dropCR (line_text m) = line_text m" by (simp add: t dropCR_def)
  with Scan_line [OF lf, of rest e] len parse_line_text [OF ok]
  have 1: "ReadMessage (NewReader (line_text m @ LF # rest) e) = (Inr m, NewReader rest e)"
    by (simp add: ReadMessage_def MaxMessageLen_def)
  have "take 512 (String m) = line_text m @ [CR]" by (simp add: String_eq len)
  with lf Scan_too_long [of "String m" EOF] len
  have "Scan (NewReader (String m) EOF) =
      (None, \<lparr>scan_input = line_text m @ [CR], reader_err = EOF, scan_err = Some ErrTooLong\<rparr>)"
    by (simp add: MaxMessageLen_def String_eq)
  then have "ParseMessage (String m) = Inl ErrTooLong"
    by (simp add: ParseMessage_def ReadMessage_def scanner_Err_def)
  with 1 show ?thesis by blast
qed

text \<open>
  A KICK takes the one who kicks out of the channel, and leaves the victim in it.
\<close>

lemma kick_removes_kicker:
  assumes "Command m = ''KICK''" and "Params m = [name, victim]" and "ParseClientID (Prefix m) = Inr i"
    and "Nick i \<noteq> victim" and "Channels_UpdateFromServer chans m = Ret chans'"
  shows "Nick i \<notin> in_channel (roster_of chans') name
    \<and> (victim \<in> in_channel (roster_of chans') name \<longleftrightarrow> victim \<in> in_channel (roster_of chans) name)"
  using assms roster_refines [OF assms(5)]
  by (auto simp: roster_step_def Let_def in_channel_def prefix_nick_def)

lemma kick_removes_kicker_witness:
  "\<exists>chans'. Channels_UpdateFromServer [(''#s'', demo_chan)]
      \<lparr>Prefix = ''alice'', Command = ''KICK'', Params = [''#s'', ''bob'']\<rparr> = Ret chans'
    \<and> ''alice'' \<notin> in_channel (roster_of chans') ''#s''"
proof -
  let ?m = "\<lparr>Prefix = ''alice'', Command = ''KICK'', Params = [''#s'', ''bob'']\<rparr>"
  have "params_present ?m" by (simp add: params_present_def)
  then obtain chans' where c: "Channels_UpdateFromServer [(''#s'', demo_chan)] ?m = Ret chans'"
    using Channels_update_Ret by blast
  have i: "ParseClientID ''alice'' = Inr \<lparr>Flag = [], Nick = ''alice'', User = [], Host = []\<rparr>" by code_simp
  from kick_removes_kicker [OF _ _ _ _ c, where name = "''#s''" and victim = "''bob''", simplified, OF i] c
  show ?thesis by auto
qed

section \<open>Stores and tables\<close>

text \<open>
  In the store in memory, the messages logged to a channel are what a replay delivers after those
  that were there, in order, up to the end of the log.
\<close>

lemma memory_store_replays:
  "\<exists>s' c. log_all eph_ops s name ms = Some s' \<and> eph_Replay s' name = (Inr c, s')
    \<and> read_cursor eph_ops (Suc (length (eph_contents s name @ ms))) c = (eph_contents s name @ ms, Some EOF)"
proof -
  obtain s' where s': "log_all eph_ops s name ms = Some s'" using eph.log_all_ok [where s = s and ms = ms and name = name] by (auto simp: list_all_iff)
  obtain c where c: "eph_Replay s' name = (Inr c, s')"
    by (cases "map_of (log_channels s') name") (simp_all add: eph_Replay_def)
  then have "op_Replay eph_ops s' name = (Inr c, s')" by (simp add: eph_ops_def)
  from eph.replay_cursor [OF _ this] eph.log_all_contents [OF _ _ s']
  have "eph_pending c = eph_contents s name @ ms" by (simp add: list_all_iff)
  with eph.read_cursor_pending [of c "Suc (length (eph_contents s name @ ms))"]
  have "read_cursor eph_ops (Suc (length (eph_contents s name @ ms))) c = (eph_contents s name @ ms, Some EOF)"
    by (simp del: read_cursor.simps)
  with s' c show ?thesis by blast
qed

text \<open>
  The codes of the table ascend, and only two entries share the code of the next one:
  RPL_STATSHLINE, as the RFC has it, and ERR_NOTEXTTOSEND, whose successor ERR_NOTOPLEVEL
  is 413 in the RFC.
\<close>

lemma numeric_table:
  "ascending_codes numeric_replies \<and> shared_codes numeric_replies = [''RPL_STATSHLINE'', ''ERR_NOTEXTTOSEND'']"
  by (rule conjI; code_simp)

section \<open>Clients and settings\<close>

text \<open>
  A registered client's message goes to the server as it is, except PING, PONG, QUIT and JOIN,
  which the proxy treats itself; the client's side does not change.
\<close>

lemma registered_forwarded:
  assumes "Validate m = None" and "Done (Handshake (client_session p))"
    and "Command m \<notin> {''PING'', ''PONG'', ''QUIT'', ''JOIN''}"
    and "rwc (server p) = Some hs" and "write_err env (tick p) = None"
  shows "\<exists>p'. handleClientEvent env (Some m) p = Ret p'
    \<and> trace p' = trace p @ [Wrote hs m True] \<and> client p' = client p \<and> messagelogs p' = messagelogs p"
proof -
  have same: "p\<lparr>client := (client p)\<lparr>Session := Session_UpdateFromClient (client_session p) m\<rparr>\<rparr> = p"
    using assms(2) by (simp add: Session_UpdateFromClient_def)
  show ?thesis using assms(2-5) unfolding handleClientEvent_valid [OF assms(1) refl] same
    by (simp add: do_sendServer_def sendServer_def write_to_def)
qed

lemma registered_forwarded_witness:
  "\<exists>p'. handleClientEvent demo_env (Some demo_msg) demo_joined = Ret p' \<and> trace p' = [Wrote 100 demo_msg True]"
  using registered_forwarded [where m = demo_msg and p = demo_joined and env = demo_env and hs = 100] by auto

text \<open>
  A new client replaces the old one. Afterwards it is connected with a fresh session and the
  server is connected, untouched when it was connected and registered; or dialling the server
  failed and both sides are closed.
\<close>

lemma client_accepted:
  assumes "reachable env st p"
  shows "(rwc (client (accept_client env h p)) = Some h
      \<and> client_session (accept_client env h p) = NewSession
      \<and> \<not> IsClosed (server (accept_client env h p))
      \<and> (\<not> IsClosed (server p) \<and> Done (Handshake (server_session p)) \<longrightarrow>
           server (accept_client env h p) = server p))
    \<or> (IsClosed (client (accept_client env h p)) \<and> IsClosed (server (accept_client env h p))
      \<and> (\<exists>n e. dial env n = Inl e))"
proof -
  have "wired p" using wiring.reachable_keeps [OF assms wired_NewProxy] .
  then show ?thesis
    by (cases rule: accept_client_cases [where p = p and env = env and h = h]) (auto split: if_splits)
qed

lemma client_accepted_witness:
  "rwc (client (accept_client demo_env 8 (accept_client demo_env 7 (NewProxy eph_NewStore)))) = Some 8"
  using client_accepted [OF demo_reachable, of 8] by auto

text \<open>
  The loop of the app never dies and never hangs on one of its own channels: every event that a
  request can send is handled. The connection of a client is handed to the daemon that runs, or
  closed at once if there is none.
\<close>

lemma clients_handed_over:
  assumes "main_reachable env wenv xsrfKey fs st" and "ev \<in> set (request_events wenv xsrfKey req)"
  shows "(\<exists>st'. main_round env ev st = Ret st')
    \<and> main_round env (NewClient conn) st =
        Ret (st\<lparr>actions := actions st @ [case daemon st of None \<Rightarrow> ClosedConn conn | Some k \<Rightarrow> SentConn k conn]\<rparr>)"
proof -
  have wf: "wf_main st" by (rule main_reachable_wf [OF assms(1)])
  then have "daemon st \<noteq> None \<Longrightarrow> daemonClientConns st = daemon st" by (simp add: wf_main_def)
  moreover have "\<exists>st'. main_round env ev st = Ret st'" using main_round_wf [OF wf assms(2), of env] by blast
  ultimately show ?thesis by (auto split: option.split)
qed

lemma clients_handed_over_witness:
  "\<exists>st. main_round demo_main (NewClient 9) st = Ret (st\<lparr>actions := actions st @ [SentConn 0 9]\<rparr>)
    \<and> (\<exists>st'. main_round demo_main (IpNetworkCap 3) st = Ret st')"
proof -
  obtain st where st: "main_reachable demo_main demo_web ''key'' (\<lambda>path. None) st" "daemon st = Some 0"
    using demo_app_network by blast
  with clients_handed_over [OF st(1), of "IpNetworkCap 3" "PostNetworkCap (''tok'', None)" 9]
  show ?thesis by (intro exI [of _ st]) (simp del: main_round.simps request_events.simps)
qed

text \<open>
  The address made from a configuration is taken apart again into the host, whatever colons it
  has, and the digits of the port: so the host that TLS verifies is the one configured. The host
  must be free of brackets.
\<close>

lemma server_address:
  assumes "plain_host (cfg_Host s)"
  shows "\<exists>port. SplitHostPort (ServerConfig_String s) = Inr (cfg_Host s, port)
    \<and> dec_value port = unat (cfg_Port s) \<and> set port \<subseteq> set ''0123456789''"
  using ServerConfig_address [OF assms] dec_digits_set by (auto simp: digit_chars_def)

lemma server_address_witness:
  "\<exists>port. SplitHostPort (ServerConfig_String \<lparr>cfg_Host = ''2001:db8::1'', cfg_Port = 194, cfg_TLS = False\<rparr>)
      = Inr (''2001:db8::1'', port) \<and> dec_value port = 194"
  using server_address [of "\<lparr>cfg_Host = ''2001:db8::1'', cfg_Port = 194, cfg_TLS = False\<rparr>"]
  by (auto simp: plain_host_def)

section \<open>Errors of a write, the keep-alive, a restart\<close>

text \<open>
  The keep-alive of a client, in full. A client that has not answered a PING in time is
  dropped; one that has been silent is sent a PING and given the deadline; otherwise nothing
  happens but a look at the clock.
\<close>

lemma keep_alive:
  assumes "rwc (client p) = Some h" and "chan (client p) = Some h" and "write_err env (Suc (tick p)) = None"
  shows "\<exists>p'. check_client env p = Ret p' \<and>
    (let now = clock env (tick p); c = client p in
     if PingSent c \<and> DropDeadline c < now
     then IsClosed (client p') \<and> (\<exists>as. trace p' = trace p @ [Closed h, Drained h (unread (client p))] @ as)
     else if \<not> PingSent c \<and> PingDeadline c < now
     then trace p' = trace p @ [Wrote h (msg_of ''PING'' [''irc-idler'']) True]
       \<and> PingSent (client p') \<and> DropDeadline (client p') = now + pingTime \<and> rwc (client p') = Some h
     else p' = p\<lparr>tick := Suc (tick p)\<rparr>)"
proof -
  define q where "q = p\<lparr>tick := Suc (tick p)\<rparr>"
  have q: "rwc (client q) = Some h" "write_err env (tick q) = None" "\<not> IsClosed (client p)"
    using assms by (simp_all add: q_def IsClosed_def)
  obtain cs ps where s: "sendClient env (msg_of ''PING'' [''irc-idler'']) q = Ret (None, q\<lparr>tick := Suc (tick q),
      trace := trace q @ [Wrote h (msg_of ''PING'' [''irc-idler'']) True],
      client := (client q)\<lparr>Session := cs\<rparr>, preLogSession := ps\<rparr>)"
    using sendClient_written [OF q(1,2) params_present_sent(5)] .
  have d: "\<exists>as. trace (dropClient q) = trace p @ [Closed h, Drained h (unread (client p))] @ as"
    using assms(1,2) by (auto simp: dropClient_def Let_def shutdown_def IsClosed_def q_def)
  show ?thesis using q(3) s d
    by (auto simp: check_client_def checkTimeout_def time_Now_def Let_def do_sendClient_def q_def [symmetric])
      (auto simp: q_def assms(1))
qed

lemma keep_alive_witness:
  "\<exists>p'. check_client demo_env demo_joined = Ret p'
    \<and> trace p' = [Wrote 7 (msg_of ''PING'' [''irc-idler'']) True]"
proof -
  have "PingDeadline (client demo_joined) < clock demo_env (tick demo_joined)"
    by (simp add: demo_defs)
  with keep_alive [where p = demo_joined and env = demo_env and h = 7] show ?thesis by auto
qed

text \<open>
  \<open>WriteMessage\<close> reports success for every writer, also for one whose every \<open>Write\<close> fails:
  \<open>checkErr\<close> keeps a new error only when it has one already. With this writer the proxy never
  sees a failed write.
\<close>

lemma write_errors_swallowed: "fst (WriteMessage wr m w) = None"
  by (rule WriteMessage_no_error)

text \<open>
  Restarting the app's daemon loses no message. A PRIVMSG or NOTICE that the running daemon
  receives from the server is written to its client, or it is in the log of its target, and stays
  there, while new settings, networks and clients come in and the old daemon shuts down.
\<close>

lemma message_survives_restart:
  assumes "reliable_store ops good contents cgood pending fails keeps" and "all_daemons ops n denv"
    and "process_reachable menv denv wenv xsrfKey fs st s" and "good (shared_logs s)"
    and "daemons s k = Some d" and "d_phase d = Running" and "chan (server (d_proxy d)) \<noteq> None"
    and "keeps m" and "Validate m = None" and "Command m \<in> {''PRIVMSG'', ''NOTICE''}"
    and "list_all (requested wenv xsrfKey) evs" and "list_all (\<lambda>ev. \<not> daemon_event ev) evs"
  shows "\<exists>s1 d1 s2. process_step menv denv (DaemonRecv k (ServerRecv (Some m))) s = Ret s1
    \<and> daemons s1 k = Some d1 \<and> process_run menv denv evs s1 = Ret s2
    \<and> ((\<exists>h. rwc (client (d_proxy d)) = Some h \<and> trace (d_proxy d1) = trace (d_proxy d) @ [Wrote h m True])
      \<or> contents (shared_logs s2) =
          (contents (shared_logs s))(Params m ! 0 := contents (shared_logs s) (Params m ! 0) @ [m]))"
proof -
  have wf: "wf_process s" by (rule process_reachable_good [OF assms(3)])
  from reliable_store.process_message_not_lost [OF assms(1,2) wf assms(4-10), of menv]
  obtain s1 d1 where s1: "process_step menv denv (DaemonRecv k (ServerRecv (Some m))) s = Ret s1" "wf_process s1"
    "daemons s1 k = Some d1"
    "(\<exists>h. rwc (client (d_proxy d)) = Some h \<and> trace (d_proxy d1) = trace (d_proxy d) @ [Wrote h m True])
      \<or> contents (shared_logs s1) =
          (contents (shared_logs s))(Params m ! 0 := contents (shared_logs s) (Params m ! 0) @ [m])"
    by blast
  from process_run_quiet [OF s1(2) assms(11,12), of menv denv] s1 show ?thesis by force
qed

lemma message_survives_restart_witness:
  "\<exists>s s1 d1 s2. demo_process = Ret s
    \<and> process_step demo_main demo_daemons (DaemonRecv 0 (ServerRecv (Some demo_msg))) s = Ret s1
    \<and> daemons s1 0 = Some d1 \<and> process_run demo_main demo_daemons demo_restart s1 = Ret s2
    \<and> ((\<exists>h. last (trace (d_proxy d1)) = Wrote h demo_msg True)
      \<or> eph_contents (shared_logs s2) ''#s'' = eph_contents (shared_logs s) ''#s'' @ [demo_msg])"
proof -
  obtain s d where s: "demo_process = Ret s" "daemons s 0 = Some d" "d_phase d = Running"
    "chan (server (d_proxy d)) = Some 100"
    and r: "process_reachable demo_main demo_daemons demo_web ''key'' (\<lambda>path. None) eph_NewStore s"
    using demo_process_runs by blast
  have e: "chan (server (d_proxy d)) \<noteq> None" "list_all (\<lambda>ev. \<not> daemon_event ev) demo_restart"
    using s(4) by (simp_all add: demo_restart_def)
  from message_survives_restart [OF eph.reliable_store_axioms demo_all_daemons r _ s(2,3) e(1) _ _ _
      demo_events_requested(2) e(2), of demo_msg]
  obtain s1 d1 s2 where "process_step demo_main demo_daemons (DaemonRecv 0 (ServerRecv (Some demo_msg))) s = Ret s1"
    "daemons s1 0 = Some d1" "process_run demo_main demo_daemons demo_restart s1 = Ret s2"
    "(\<exists>h. trace (d_proxy d1) = trace (d_proxy d) @ [Wrote h demo_msg True])
      \<or> eph_contents (shared_logs s2) ''#s'' = eph_contents (shared_logs s) ''#s'' @ [demo_msg]"
    by auto
  with s(1) show ?thesis by fastforce
qed

text \<open>
  What was parsed prints as the same text, except when a separator had nothing after it: the
  text after the flag ends in an at sign or has an exclamation mark just before it.
\<close>

lemma client_id_printed_back:
  assumes "ParseClientID text = Inr i"
  shows "ClientID_String i = text \<longleftrightarrow> \<not> lossy (drop (length (Flag i)) text)"
  using assms by (rule print_parse_iff)

lemma client_id_printed_back_witness:
  "ClientID_String demo_me = ''alice!al@home'' \<longleftrightarrow> \<not> lossy ''alice!al@home''"
proof -
  have "ParseClientID ''alice!al@home'' = Inr demo_me" by (simp add: demo_me_def) code_simp
  from client_id_printed_back [OF this] show ?thesis by (simp add: demo_me_def)
qed

text \<open>
  A last parameter that begins with a colon is changed by being forwarded: the smiley that the
  server sent arrives without its eyes.
\<close>

lemma smiley_corrupted:
  "fst (ReadMessage (NewReader (''PRIVMSG #s ::)'' @ [CR, LF]) EOF)) = Inr (msg_of ''PRIVMSG'' [''#s'', '':)''])
    \<and> ParseMessage (String (msg_of ''PRIVMSG'' [''#s'', '':)''])) = Inr (msg_of ''PRIVMSG'' [''#s'', '')''])"
  by code_simp

text \<open>
  \<open>reset\<close> leaves the session behind the logs as it was: after a new connection to the server the users of
  a channel that a rejoining client is told are still those of the old connection.
\<close>

lemma names_survive_reset:
  "preLogState (accept_client env h (reset p)) name = preLogState p name"
  by (rule accept_client_cases [where p = "reset p" and env = env and h = h]) (simp_all add: preLogState_def)

lemma names_survive_reset_witness:
  "members (preLogState (accept_client demo_env 8 (reset demo_joined)) ''#s'') = {''alice'', ''bob''}"
  unfolding names_survive_reset
  by (auto simp: demo_defs preLogState_def GetChannel_def Channels_GetChannel_def members_def HaveUser_def
      split: if_splits)

text \<open>
  What the server sent and the daemon has not yet received when it is stopped is thrown away: the
  logs stay as they are and nothing more is written, to anyone.
\<close>

lemma stop_discards_unread:
  assumes "reachable env st p" and "rwc (server p) = Some h"
  shows "\<exists>q as. Run_step env StopEvent p = Ret q \<and> messagelogs q = messagelogs p
    \<and> trace q = trace p @ as @ [Closed h, Drained h (unread (server p))]
    \<and> list_all (\<lambda>a. case a of Wrote h' m ok \<Rightarrow> False | _ \<Rightarrow> True) as"
proof -
  have "wired p" using wiring.reachable_keeps [OF assms(1) wired_NewProxy] .
  then have "chan (server p) = Some h" using assms(2) by (simp add: wired_def)
  then show ?thesis using assms(2)
    by (auto simp: reset_def shutdown_def IsClosed_def intro!: exI)
qed

lemma stop_discards_unread_witness:
  "\<exists>p q. Run demo_env [ClientConn 7] (NewProxy eph_NewStore) = Ret p \<and> Run_step demo_env StopEvent p = Ret q
    \<and> messagelogs q = messagelogs p \<and> Drained 100 [demo_unread] \<in> set (trace q)"
proof -
  let ?p = "accept_client demo_env 7 (NewProxy eph_NewStore)"
  have "case Run demo_env [ClientConn 7] (NewProxy eph_NewStore) of Fail f \<Rightarrow> False
    | Ret p \<Rightarrow> rwc (server p) = Some 100 \<and> unread (server p) = [demo_unread]" by code_simp
  then have "rwc (server ?p) = Some 100" "unread (server ?p) = [demo_unread]" by simp_all
  with stop_discards_unread [OF demo_reachable, of 100] show ?thesis by auto
qed

end
