(* ===== verification/Filters.thy ===== *)
theory Filters
  imports Irc_Message
begin

text \<open>
  \<open>irc/filters/filters.go\<close>: three goroutines that stand between channels of messages. Each is a
  step function over the events its \<open>select\<close> statements can receive; an event that the
  goroutine does not wait for in its state cannot happen, and the step is \<open>None\<close>. A receive from
  a closed channel yields a nil message, written \<open>None\<close>, and reading its \<open>Command\<close> panics.
\<close>

section \<open>RateLimit\<close>

datatype rate_event =
    TickerFired                    \<comment> \<open>\<open><-ticker.C\<close>\<close>
  | SrcRecv "message option"       \<comment> \<open>\<open>msg, ok := <-src\<close>, \<open>None\<close> when it is closed\<close>

datatype rate_phase =
    Selecting                      \<comment> \<open>at the \<open>select\<close>\<close>
  | AwaitingTick                   \<comment> \<open>at the inner \<open><-ticker.C\<close>\<close>
  | Returned                       \<comment> \<open>\<open>dst\<close> closed\<close>

record rate_state =
  left_quota :: int
  copied :: "message list"
  rate_phase :: rate_phase

text \<open>\<open>initQuota\<close> is not used.\<close>

definition RateLimit_start :: "int \<Rightarrow> int \<Rightarrow> rate_state" where
  "RateLimit_start initQuota maxQuota = \<lparr>left_quota = maxQuota, copied = [], rate_phase = Selecting\<rparr>"

definition clamp :: "int \<Rightarrow> int \<Rightarrow> int" where
  "clamp maxQuota l = (if l > maxQuota then maxQuota else l)"

definition RateLimit_step :: "int \<Rightarrow> rate_event \<Rightarrow> rate_state \<Rightarrow> rate_state option" where
  "RateLimit_step maxQuota ev s =
     (case rate_phase s of
        Selecting \<Rightarrow>
          (let l = clamp maxQuota (left_quota s) in
           case ev of
             TickerFired \<Rightarrow> Some (s\<lparr>left_quota := l + 1\<rparr>)
           | SrcRecv None \<Rightarrow> Some (s\<lparr>left_quota := l, rate_phase := Returned\<rparr>)
           | SrcRecv (Some msg) \<Rightarrow>
               Some (s\<lparr>copied := copied s @ [msg], left_quota := l - 1,
                       rate_phase := (if l - 1 = 0 then AwaitingTick else Selecting)\<rparr>))
      | AwaitingTick \<Rightarrow>
          (if ev = TickerFired then Some (s\<lparr>left_quota := left_quota s + 1, rate_phase := Selecting\<rparr>)
           else None)
      | Returned \<Rightarrow> None)"

fun RateLimit_run :: "int \<Rightarrow> rate_event list \<Rightarrow> rate_state \<Rightarrow> rate_state option" where
  "RateLimit_run maxQuota [] s = Some s"
| "RateLimit_run maxQuota (ev # evs) s =
     (case RateLimit_step maxQuota ev s of
        None \<Rightarrow> None
      | Some s' \<Rightarrow> RateLimit_run maxQuota evs s')"

fun received :: "rate_event list \<Rightarrow> message list" where
  "received [] = []"
| "received (SrcRecv (Some m) # evs) = m # received evs"
| "received (ev # evs) = received evs"

definition ticks :: "rate_event list \<Rightarrow> nat" where
  "ticks evs = length (filter (\<lambda>ev. ev = TickerFired) evs)"

lemma ticks_simps [simp]: "ticks [] = 0" "ticks (TickerFired # evs) = Suc (ticks evs)"
  "ticks (SrcRecv m # evs) = ticks evs"
  by (simp_all add: ticks_def)

text \<open>What is received is copied: in order, nothing lost, nothing twice.\<close>

lemma rate_copies: "RateLimit_run q evs s = Some s' \<Longrightarrow> copied s' = copied s @ received evs"
proof (induction evs arbitrary: s)
  case (Cons ev evs)
  then obtain s1 where s1: "RateLimit_step q ev s = Some s1" "RateLimit_run q evs s1 = Some s'"
    by (auto split: option.splits)
  from s1(1) have "copied s1 @ received evs = copied s @ received (ev # evs)"
    by (auto simp: RateLimit_step_def Let_def split: rate_phase.splits rate_event.splits option.splits if_splits)
  with Cons.IH [OF s1(2)] show ?case by simp
qed simp

text \<open>The quota never gets negative, and what may still be sent without a tick is at most the maximum.\<close>

definition rate_ok :: "rate_state \<Rightarrow> bool" where
  "rate_ok s \<longleftrightarrow> (rate_phase s = Selecting \<longrightarrow> 1 \<le> left_quota s) \<and> (rate_phase s = AwaitingTick \<longrightarrow> left_quota s = 0)"

lemma rate_ok_step: "1 \<le> q \<Longrightarrow> rate_ok s \<Longrightarrow> RateLimit_step q ev s = Some s' \<Longrightarrow> rate_ok s'"
  by (auto simp: RateLimit_step_def rate_ok_def clamp_def Let_def
      split: rate_phase.splits rate_event.splits option.splits if_splits)

lemma rate_ok_run: "1 \<le> q \<Longrightarrow> rate_ok s \<Longrightarrow> RateLimit_run q evs s = Some s' \<Longrightarrow> rate_ok s'"
  by (induction evs arbitrary: s) (auto dest: rate_ok_step split: option.splits)

lemma rate_window:
  "1 \<le> q \<Longrightarrow> rate_ok s \<Longrightarrow> RateLimit_run q evs s = Some s' \<Longrightarrow>
     int (length (received evs)) \<le> clamp q (left_quota s) + int (ticks evs) \<or> rate_phase s = Returned"
proof (induction evs arbitrary: s)
  case (Cons ev evs)
  then obtain s1 where s1: "RateLimit_step q ev s = Some s1" "RateLimit_run q evs s1 = Some s'"
    by (auto split: option.splits)
  have ok: "rate_ok s1" using rate_ok_step [OF Cons.prems(1,2) s1(1)] .
  have fin: "received evs = []" if "rate_phase s1 = Returned"
    using s1(2) that by (cases evs) (auto simp: RateLimit_step_def)
  from Cons.IH [OF Cons.prems(1) ok s1(2)] s1(1) Cons.prems(1,2) fin show ?case
    by (auto simp: RateLimit_step_def Let_def clamp_def rate_ok_def
        split: rate_phase.splits rate_event.splits option.splits if_splits)
next
  case Nil
  then show ?case by (cases "rate_phase s") (auto simp: clamp_def rate_ok_def)
qed

text \<open>Without a positive maximum there is no limit.\<close>

lemma rate_unlimited:
  "left_quota s \<le> 0 \<Longrightarrow> q \<le> 0 \<Longrightarrow> rate_phase s = Selecting \<Longrightarrow>
     \<exists>s'. RateLimit_run q (map (SrcRecv \<circ> Some) ms) s = Some s'"
proof (induction ms arbitrary: s)
  case (Cons m ms)
  then show ?case by (auto simp: RateLimit_step_def Let_def clamp_def)
qed simp

section \<open>AutoPong\<close>

datatype pong_event =
    PongCancelled                  \<comment> \<open>\<open><-ctx.Done()\<close>\<close>
  | PongIn "message option"        \<comment> \<open>\<open>msg := <-in\<close>\<close>
  | PongSent                       \<comment> \<open>\<open>dest <- msg\<close> is taken\<close>

datatype dest = Forward | Reply

record pong_state =
  pong_pending :: "(dest \<times> message) option"   \<comment> \<open>at the inner \<open>select\<close>\<close>
  pong_forwarded :: "message list"
  pong_replied :: "message list"
  pong_returned :: bool

definition AutoPong_start :: pong_state where
  "AutoPong_start = \<lparr>pong_pending = None, pong_forwarded = [], pong_replied = [], pong_returned = False\<rparr>"

definition AutoPong_step :: "pong_event \<Rightarrow> pong_state \<Rightarrow> pong_state res option" where
  "AutoPong_step ev s =
     (if pong_returned s then None
      else case ev of
        PongCancelled \<Rightarrow> Some (Ret (s\<lparr>pong_returned := True\<rparr>))
      | PongIn m \<Rightarrow>
          (if pong_pending s \<noteq> None then None
           else case m of
             None \<Rightarrow> Some (Fail Panic)
           | Some msg \<Rightarrow>
               Some (Ret (s\<lparr>pong_pending :=
                 Some (if Command msg = ''PING'' then (Reply, msg\<lparr>Command := ''PONG''\<rparr>)
                       else (Forward, msg))\<rparr>)))
      | PongSent \<Rightarrow>
          (case pong_pending s of
             None \<Rightarrow> None
           | Some (Forward, msg) \<Rightarrow>
               Some (Ret (s\<lparr>pong_pending := None, pong_forwarded := pong_forwarded s @ [msg]\<rparr>))
           | Some (Reply, msg) \<Rightarrow>
               Some (Ret (s\<lparr>pong_pending := None, pong_replied := pong_replied s @ [msg]\<rparr>))))"

fun AutoPong_run :: "pong_event list \<Rightarrow> pong_state \<Rightarrow> pong_state res option" where
  "AutoPong_run [] s = Some (Ret s)"
| "AutoPong_run (ev # evs) s =
     (case AutoPong_step ev s of
        None \<Rightarrow> None
      | Some (Fail f) \<Rightarrow> Some (Fail f)
      | Some (Ret s') \<Rightarrow> AutoPong_run evs s')"

fun pong_received :: "pong_event list \<Rightarrow> message list" where
  "pong_received [] = []"
| "pong_received (PongIn (Some m) # evs) = m # pong_received evs"
| "pong_received (ev # evs) = pong_received evs"

text \<open>What is still to be sent on a channel, in the state between the two \<open>select\<close>s.\<close>

definition pong_on :: "dest \<Rightarrow> pong_state \<Rightarrow> message list" where
  "pong_on d s = (case pong_pending s of Some (d', m) \<Rightarrow> if d' = d then [m] else [] | None \<Rightarrow> [])"

text \<open>Each message goes to one of the two channels, PINGs as PONGs to \<open>reply\<close>, in order.\<close>

lemma pong_routes:
  "AutoPong_run evs s = Some (Ret s') \<Longrightarrow>
     pong_forwarded s' @ pong_on Forward s' =
       pong_forwarded s @ pong_on Forward s @ filter (\<lambda>m. Command m \<noteq> ''PING'') (pong_received evs)
     \<and> pong_replied s' @ pong_on Reply s' =
       pong_replied s @ pong_on Reply s
         @ map (\<lambda>m. m\<lparr>Command := ''PONG''\<rparr>) (filter (\<lambda>m. Command m = ''PING'') (pong_received evs))"
proof (induction evs arbitrary: s)
  case (Cons ev evs)
  then obtain s1 where s1: "AutoPong_step ev s = Some (Ret s1)" "AutoPong_run evs s1 = Some (Ret s')"
    by (auto split: option.splits res.splits)
  have "pong_forwarded s1 @ pong_on Forward s1 @ filter (\<lambda>m. Command m \<noteq> ''PING'') (pong_received evs) =
      pong_forwarded s @ pong_on Forward s @ filter (\<lambda>m. Command m \<noteq> ''PING'') (pong_received (ev # evs))
    \<and> pong_replied s1 @ pong_on Reply s1
        @ map (\<lambda>m. m\<lparr>Command := ''PONG''\<rparr>) (filter (\<lambda>m. Command m = ''PING'') (pong_received evs)) =
      pong_replied s @ pong_on Reply s
        @ map (\<lambda>m. m\<lparr>Command := ''PONG''\<rparr>) (filter (\<lambda>m. Command m = ''PING'') (pong_received (ev # evs)))"
    using s1(1) by (cases ev) (auto simp: AutoPong_step_def pong_on_def split: if_splits option.splits dest.splits)
  with Cons.IH [OF s1(2)] show ?case by simp
qed simp

section \<open>AutoPing\<close>

text \<open>
  A timer is running, or has put its value in its channel, or that value was received and the
  timer was not reset. \<open>Stop\<close> is false in the last two states; receiving then blocks forever in the
  last one (\<open>Stuck\<close>).
\<close>

datatype timer = Armed | Expired | Emptied

datatype ping_event =
    PingCancelled                  \<comment> \<open>\<open><-ctx.Done()\<close>\<close>
  | PingIn "message option"        \<comment> \<open>\<open>msg := <-in\<close>\<close>
  | TimerExpires                   \<comment> \<open>the run-time puts the value in \<open>timer.C\<close>\<close>
  | TimerRecv                      \<comment> \<open>\<open><-timer.C\<close>\<close>
  | PingSendTaken                  \<comment> \<open>the message offered to \<open>forward\<close> or \<open>reply\<close> is taken\<close>

datatype ping_phase =
    Idle                           \<comment> \<open>at the outer \<open>select\<close>\<close>
  | Forwarding message
  | Pinging                        \<comment> \<open>offering a PING to \<open>reply\<close>\<close>
  | Stuck
  | PingReturned
  | Disconnected                   \<comment> \<open>returned after \<open>disconnect()\<close>\<close>

record ping_state =
  ping_sent :: bool
  timer :: timer
  ping_phase :: ping_phase
  ping_forwarded :: "message list"
  ping_replied :: "message list"

definition AutoPing_start :: ping_state where
  "AutoPing_start = \<lparr>ping_sent = False, timer = Armed, ping_phase = Idle, ping_forwarded = [], ping_replied = []\<rparr>"

definition AutoPing_in :: "message option \<Rightarrow> ping_state \<Rightarrow> ping_state res" where
  "AutoPing_in m s =
     (if timer s = Emptied then Ret (s\<lparr>ping_phase := Stuck\<rparr>)
      else
        let s = s\<lparr>timer := Armed, ping_sent := False\<rparr> in
        case m of
          None \<Rightarrow> Fail Panic
        | Some msg \<Rightarrow>
            (if Command msg = ''PONG'' then Ret s else Ret (s\<lparr>ping_phase := Forwarding msg\<rparr>)))"

definition AutoPing_step :: "ping_event \<Rightarrow> ping_state \<Rightarrow> ping_state res option" where
  "AutoPing_step ev s =
     (case ev of
        TimerExpires \<Rightarrow> (if timer s = Armed then Some (Ret (s\<lparr>timer := Expired\<rparr>)) else None)
      | PingCancelled \<Rightarrow>
          (case ping_phase s of
             Idle \<Rightarrow> Some (Ret (s\<lparr>ping_phase := PingReturned\<rparr>))
           | Forwarding msg \<Rightarrow> Some (Ret (s\<lparr>ping_phase := PingReturned\<rparr>))
           | Pinging \<Rightarrow> Some (Ret (s\<lparr>ping_phase := PingReturned\<rparr>))
           | _ \<Rightarrow> None)
      | PingIn m \<Rightarrow> (if ping_phase s = Idle then Some (AutoPing_in m s) else None)
      | TimerRecv \<Rightarrow>
          (if ping_phase s = Idle \<and> timer s = Expired then
             (if ping_sent s then Some (Ret (s\<lparr>timer := Emptied, ping_phase := Disconnected\<rparr>))
              else Some (Ret (s\<lparr>timer := Emptied, ping_phase := Pinging\<rparr>)))
           else None)
      | PingSendTaken \<Rightarrow>
          (case ping_phase s of
             Forwarding msg \<Rightarrow> Some (Ret (s\<lparr>ping_phase := Idle, ping_forwarded := ping_forwarded s @ [msg]\<rparr>))
           | Pinging \<Rightarrow>
               Some (Ret (s\<lparr>ping_phase := Idle, ping_replied := ping_replied s @ [msg_of ''PING'' [''ping'']],
                            timer := Armed, ping_sent := True\<rparr>))
           | _ \<Rightarrow> None))"

fun AutoPing_run :: "ping_event list \<Rightarrow> ping_state \<Rightarrow> ping_state res option" where
  "AutoPing_run [] s = Some (Ret s)"
| "AutoPing_run (ev # evs) s =
     (case AutoPing_step ev s of
        None \<Rightarrow> None
      | Some (Fail f) \<Rightarrow> Some (Fail f)
      | Some (Ret s') \<Rightarrow> AutoPing_run evs s')"

text \<open>How often the timer ran out since the last message, reading the events from the end.\<close>

fun silent_expiries :: "ping_event list \<Rightarrow> nat \<Rightarrow> nat" where
  "silent_expiries [] n = n"
| "silent_expiries (PingIn m # evs) n = silent_expiries evs 0"
| "silent_expiries (TimerRecv # evs) n = silent_expiries evs (Suc n)"
| "silent_expiries (ev # evs) n = silent_expiries evs n"

text \<open>
  The invariant: \<open>n\<close> counts the expiries since the last message. The timer is only left drained while
  a PING is offered or after the end, so \<open>timer.Stop\<close> never leaves an empty channel to be read.
\<close>

definition ping_ok :: "nat \<Rightarrow> ping_state \<Rightarrow> bool" where
  "ping_ok n s \<longleftrightarrow>
     ping_phase s \<noteq> Stuck
     \<and> (ping_phase s \<in> {Idle} \<union> range Forwarding \<longrightarrow> timer s \<noteq> Emptied)
     \<and> (ping_phase s \<in> {Idle, Pinging, Disconnected} \<union> range Forwarding \<longrightarrow>
          n = (if ping_sent s then 1 else 0) + (if ping_phase s \<in> {Pinging, Disconnected} then 1 else 0))
     \<and> (ping_phase s = Pinging \<longrightarrow> \<not> ping_sent s)
     \<and> (ping_phase s = Disconnected \<longrightarrow> ping_sent s)"

lemma ping_ok_step:
  assumes "ping_ok n s" and "AutoPing_step ev s = Some (Ret s')"
  shows "ping_ok (case ev of PingIn m \<Rightarrow> 0 | TimerRecv \<Rightarrow> Suc n | _ \<Rightarrow> n) s'"
proof (cases ev)
  case (PingIn m)
  with assms show ?thesis
    by (auto simp: AutoPing_step_def AutoPing_in_def ping_ok_def Let_def split: if_splits option.splits)
next
  case PingCancelled
  with assms show ?thesis by (auto simp: AutoPing_step_def ping_ok_def split: ping_phase.splits)
next
  case TimerExpires
  with assms show ?thesis by (auto simp: AutoPing_step_def ping_ok_def split: if_splits)
next
  case TimerRecv
  with assms show ?thesis by (auto simp: AutoPing_step_def ping_ok_def split: if_splits)
next
  case PingSendTaken
  with assms show ?thesis by (auto simp: AutoPing_step_def ping_ok_def split: ping_phase.splits)
qed

lemma ping_ok_run:
  "ping_ok n s \<Longrightarrow> AutoPing_run evs s = Some (Ret s') \<Longrightarrow> ping_ok (silent_expiries evs n) s'"
proof (induction evs arbitrary: n s)
  case (Cons ev evs)
  then obtain s1 where s1: "AutoPing_step ev s = Some (Ret s1)" "AutoPing_run evs s1 = Some (Ret s')"
    by (auto split: option.splits res.splits)
  from Cons.IH [OF ping_ok_step [OF Cons.prems(1) s1(1)] s1(2)] show ?case by (cases ev) auto
qed simp

text \<open>Everything but PONGs is forwarded, in order.\<close>

definition ping_in_flight :: "ping_state \<Rightarrow> message list" where
  "ping_in_flight s = (case ping_phase s of Forwarding m \<Rightarrow> [m] | _ \<Rightarrow> [])"

fun ping_received :: "ping_event list \<Rightarrow> message list" where
  "ping_received [] = []"
| "ping_received (PingIn (Some m) # evs) = m # ping_received evs"
| "ping_received (ev # evs) = ping_received evs"

definition ping_forwards :: "message list \<Rightarrow> ping_state \<Rightarrow> bool" where
  "ping_forwards ms s \<longleftrightarrow>
     (if ping_phase s = PingReturned then \<exists>rest. ms = ping_forwarded s @ rest
      else ms = ping_forwarded s @ ping_in_flight s)"

lemma ping_forwards_step:
  assumes "ping_forwards ms s" and "AutoPing_step ev s = Some (Ret s')" and "ping_phase s' \<noteq> Stuck"
  shows "ping_forwards (ms @ (case ev of PingIn (Some m) \<Rightarrow> if Command m = ''PONG'' then [] else [m] | _ \<Rightarrow> [])) s'"
proof (cases ev)
  case (PingIn m)
  with assms show ?thesis
    by (auto simp: AutoPing_step_def AutoPing_in_def ping_forwards_def ping_in_flight_def Let_def
        split: if_splits option.splits)
next
  case PingCancelled
  with assms show ?thesis
    by (auto simp: AutoPing_step_def ping_forwards_def ping_in_flight_def split: ping_phase.splits)
next
  case TimerExpires
  with assms show ?thesis by (auto simp: AutoPing_step_def ping_forwards_def ping_in_flight_def split: if_splits)
next
  case TimerRecv
  with assms show ?thesis by (auto simp: AutoPing_step_def ping_forwards_def ping_in_flight_def split: if_splits)
next
  case PingSendTaken
  with assms show ?thesis
    by (auto simp: AutoPing_step_def ping_forwards_def ping_in_flight_def split: ping_phase.splits)
qed

lemma ping_forwards_run:
  "ping_ok n s \<Longrightarrow> ping_forwards ms s \<Longrightarrow> AutoPing_run evs s = Some (Ret s') \<Longrightarrow>
     ping_forwards (ms @ filter (\<lambda>m. Command m \<noteq> ''PONG'') (ping_received evs)) s'"
proof (induction evs arbitrary: n s ms)
  case (Cons ev evs)
  then obtain s1 where s1: "AutoPing_step ev s = Some (Ret s1)" "AutoPing_run evs s1 = Some (Ret s')"
    by (auto split: option.splits res.splits)
  have ok: "ping_ok (case ev of PingIn m \<Rightarrow> 0 | TimerRecv \<Rightarrow> Suc n | _ \<Rightarrow> n) s1"
    using ping_ok_step [OF Cons.prems(1) s1(1)] .
  then have "ping_phase s1 \<noteq> Stuck" by (simp add: ping_ok_def)
  from Cons.IH [OF ok ping_forwards_step [OF Cons.prems(2) s1(1) this] s1(2)] show ?case
    by (cases ev) (auto split: option.splits if_splits)
qed simp

end
