(* ===== verification/Irc_Transport.thy ===== *)
theory Irc_Transport
  imports Irc_Reader
begin

text \<open>
  \<open>irc/message.go\<close>: the constructors that put a \<open>Reader\<close>, a \<open>Writer\<close> and a \<open>Closer\<close> together over one
  connection. This is what \<open>DialerConnector\<close>, \<open>AcceptLoop\<close> and the Sandstorm loop give the daemon as its
  transports. An embedded field is a field, and each promoted method a definition.
\<close>

section \<open>Transports\<close>

text \<open>The connection below (\<open>io.ReadWriteCloser\<close>): the bytes that come in with the error after the last of
  them, and what \<open>Write\<close> and \<open>Close\<close> do to its state.\<close>

record 'w io_conn =
  conn_Read :: "string \<times> error"
  conn_Write :: "'w writer"
  conn_Close :: "'w \<Rightarrow> error option \<times> 'w"

record 'w ioWriter =
  iow_w :: "'w writer"

record 'w ioReadWriter =
  rw_Reader :: scanner
  rw_Writer :: "'w ioWriter"

record 'w ioReadWriteCloser =
  rwc_ReadWriter :: "'w ioReadWriter"
  rwc_Closer :: "'w \<Rightarrow> error option \<times> 'w"

definition NewWriter :: "'w writer \<Rightarrow> 'w ioWriter" where
  "NewWriter w = \<lparr>iow_w = w\<rparr>"

definition NewReadWriter :: "'w io_conn \<Rightarrow> 'w ioReadWriter" where
  "NewReadWriter rw =
     \<lparr>rw_Reader = NewReader (fst (conn_Read rw)) (snd (conn_Read rw)), rw_Writer = NewWriter (conn_Write rw)\<rparr>"

definition NewReadWriteCloser :: "'w io_conn \<Rightarrow> 'w ioReadWriteCloser" where
  "NewReadWriteCloser c = \<lparr>rwc_ReadWriter = NewReadWriter c, rwc_Closer = conn_Close c\<rparr>"

text \<open>The methods promoted from the embedded fields.\<close>

definition rwc_ReadMessage :: "'w ioReadWriteCloser \<Rightarrow> (error + message) \<times> 'w ioReadWriteCloser" where
  "rwc_ReadMessage t =
     (let (r, sc) = ReadMessage (rw_Reader (rwc_ReadWriter t))
      in (r, t\<lparr>rwc_ReadWriter := (rwc_ReadWriter t)\<lparr>rw_Reader := sc\<rparr>\<rparr>))"

definition rwc_WriteMessage :: "'w ioReadWriteCloser \<Rightarrow> message \<Rightarrow> 'w \<Rightarrow> error option \<times> 'w" where
  "rwc_WriteMessage t m w = WriteMessage (iow_w (rw_Writer (rwc_ReadWriter t))) m w"

definition rwc_Close :: "'w ioReadWriteCloser \<Rightarrow> 'w \<Rightarrow> error option \<times> 'w" where
  "rwc_Close t w = rwc_Closer t w"

section \<open>Reading and writing through it\<close>

lemma written_through: "rwc_WriteMessage (NewReadWriteCloser c) m w = WriteMessage (conn_Write c) m w"
  by (simp add: rwc_WriteMessage_def NewReadWriteCloser_def NewReadWriter_def NewWriter_def)

lemma read_from_conn:
  "fst (rwc_ReadMessage (NewReadWriteCloser c)) = fst (ReadMessage (NewReader (fst (conn_Read c)) (snd (conn_Read c))))"
  by (simp add: rwc_ReadMessage_def NewReadWriteCloser_def NewReadWriter_def split: prod.split)

text \<open>A connection that takes nothing: the write reports success and has written nothing.\<close>

definition dead_writer :: "'w writer \<Rightarrow> bool" where
  "dead_writer wr \<longleftrightarrow> (\<forall>w bs. \<exists>e. wr w bs = ((0, Some e), w))"

lemma dead_emit: "dead_writer wr \<Longrightarrow> snd (emit wr bs st) = snd st"
  by (cases st; cases "fst st") (metis (no_types, lifting) dead_writer_def emit.simps prod.collapse snd_conv split_beta)

lemma dead_fold: "dead_writer wr \<Longrightarrow> snd (fold (\<lambda>p. emit wr (f p)) ps st) = snd st"
  by (induction ps arbitrary: st) (simp_all add: dead_emit)

lemma dead_WriteMessage: "dead_writer wr \<Longrightarrow> WriteMessage wr m w = (None, w)"
proof -
  assume d: "dead_writer wr"
  have "snd (WriteTo wr m w) = w"
    using dead_emit [OF d] dead_fold [OF d, of "\<lambda>p. SP # p"] by (simp add: WriteTo_def Let_def)
  then have "snd (WriteMessage wr m w) = w" by (auto simp: WriteMessage_def Let_def split: prod.splits)
  with WriteMessage_no_error [of wr m w] show ?thesis by (simp add: prod_eq_iff)
qed

end
