(* ===== verification/Proxy_Transport.thy ===== *)
theory Proxy_Transport
  imports Irc_Transport Proxy_Log
begin

text \<open>
  The daemon over the repository's own transports. The daemon decides between sending and logging
  by the error of \<open>WriteMessage\<close>, but the writer of \<open>irc/message.go\<close> never returns one. So while the
  daemon has not noticed that its client is gone, what it sends there is lost.
\<close>

text \<open>
  The environment whose \<open>n\<close>-th interaction, if it is a write, is the write of \<open>msgs n\<close> through the
  transport made from \<open>conns n\<close>, which is in the state \<open>ws n\<close>.
\<close>

definition over_conns ::
  "(nat \<Rightarrow> 'w io_conn) \<Rightarrow> (nat \<Rightarrow> message) \<Rightarrow> (nat \<Rightarrow> 'w) \<Rightarrow> ('s, 'c) env \<Rightarrow> ('s, 'c) env" where
  "over_conns conns msgs ws env =
     env\<lparr>write_err := (\<lambda>n. fst (rwc_WriteMessage (NewReadWriteCloser (conns n)) (msgs n) (ws n)))\<rparr>"

lemma over_conns_simps [simp]:
  "write_err (over_conns conns msgs ws env) n = None"
  "store (over_conns conns msgs ws env) = store env" "fuel (over_conns conns msgs ws env) = fuel env"
  by (simp_all add: over_conns_def written_through WriteMessage_no_error)

text \<open>A message for a channel the client has joined is never logged, whatever becomes of it.\<close>

lemma joined_never_logged:
  assumes "Validate m = None" and "Command m \<in> {''PRIVMSG'', ''NOTICE''}" and "rwc (client p) = Some h"
    and "HaveChannel (client_session p) (Params m ! 0) \<or> IsMe (client_session p) (Params m ! 0)"
  shows "\<exists>p'. handleServerEvent (over_conns conns msgs ws env) (Some m) p = Ret p'
    \<and> trace p' = trace p @ [Wrote h m True] \<and> messagelogs p' = messagelogs p"
proof -
  let ?env = "over_conns conns msgs ws env"
  obtain q where q: "client q = client p" "messagelogs q = messagelogs p" "trace q = trace p" "tick q = tick p"
    and h: "handleServerEvent ?env (Some m) p =
      (if HaveChannel (client_session p) (Params m ! 0) \<or> IsMe (client_session p) (Params m ! 0)
       then sendClient_or_log ?env m q else logMessage ?env m q)"
    using handle_user_message [OF assms(1,2)] .
  have w: "rwc (client q) = Some h" "write_err ?env (tick q) = None" using assms(3) q by simp_all
  obtain cs ps where "sendClient ?env m q = Ret (None, q\<lparr>tick := Suc (tick q), trace := trace q @ [Wrote h m True],
      client := (client q)\<lparr>Session := cs\<rparr>, preLogSession := ps\<rparr>)"
    using sendClient_written [OF w user_message_params(2) [OF assms(1,2)]] .
  with h q assms(4) show ?thesis by (simp add: sendClient_or_log_def)
qed

text \<open>And a replay empties the log of its channel.\<close>

context reliable_store begin

lemma replay_always_clears:
  assumes "store env = ops" and "inv (messagelogs p)" and "rwc (client p) = Some h"
    and "list_all params_present (contents (messagelogs p) name)"
    and "length (contents (messagelogs p) name) < fuel env"
  shows "\<exists>p'. replayLog (over_conns conns msgs ws env) name p = Ret p'
    \<and> contents (messagelogs p') = (contents (messagelogs p))(name := [])"
  using replayLog_delivers [of "over_conns conns msgs ws env" p h name] assms by auto

end

end
