(* ===== verification/Proxy_Silence.thy ===== *)
theory Proxy_Silence
  imports Proxy_Total
begin

text \<open>
  Peers that fall silent are noticed. While only the ticker is ready, a connection gets its PING
  when its deadline has passed and is closed when the next one has; so after some ticks both
  sides are closed, whichever writes fail on the way.
\<close>

section \<open>One tick\<close>

text \<open>What a tick at the time \<open>now\<close> makes of the keep-alive of a connection that stays open.\<close>

definition ticked :: "int \<Rightarrow> connection \<Rightarrow> connection \<Rightarrow> bool" where
  "ticked now c c' \<longleftrightarrow>
     (if PingSent c then now \<le> DropDeadline c \<and> PingSent c' \<and> DropDeadline c' = DropDeadline c
      else if PingDeadline c < now then PingSent c' \<and> DropDeadline c' = now + pingTime
      else \<not> PingSent c' \<and> PingDeadline c' = PingDeadline c)"

lemma tick_sendClient:
  assumes "do_sendClient env m p = Ret q"
  shows "tick p \<le> tick q \<and> (server q = server p \<or> IsClosed (server q))
    \<and> (IsClosed (client q) \<or> (\<exists>s. client q = (client p)\<lparr>Session := s\<rparr>))"
proof -
  obtain e where e: "sendClient env m p = Ret (e, q)" using assms by (auto simp: do_sendClient_def andThen_Ret_iff)
  show ?thesis
  proof (cases "rwc (client p)")
    case None
    with e show ?thesis by (auto simp: sendClient_def IsClosed_def)
  next
    case (Some h)
    show ?thesis
    proof (cases "write_err env (tick p)")
      case (Some x)
      with \<open>rwc (client p) = Some h\<close> e show ?thesis by (auto simp: sendClient_failed)
    next
      case None
      with Some e show ?thesis by (auto simp: sendClient_def write_to_def andThen_Ret_iff)
    qed
  qed
qed

lemma tick_sendServer:
  assumes "do_sendServer env m p = Ret q"
  shows "tick p \<le> tick q \<and> (client q = client p \<or> IsClosed (client q))
    \<and> (IsClosed (server q) \<or> (\<exists>s. server q = (server p)\<lparr>Session := s\<rparr>))"
proof (cases "rwc (server p)")
  case None
  with assms show ?thesis by (auto simp: do_sendServer_def sendServer_def IsClosed_def)
next
  case (Some h)
  with assms show ?thesis
    by (cases "write_err env (tick p)") (auto simp: do_sendServer_def sendServer_def write_to_def)
qed

lemma tick_check_client:
  assumes "\<not> IsClosed (client p)"
  obtains q where "check_client env p = Ret q" "tick p < tick q" "server q = server p \<or> IsClosed (server q)"
    "IsClosed (client q) \<or> ticked (clock env (tick p)) (client p) (client q)"
proof -
  define p1 where "p1 = p\<lparr>tick := Suc (tick p)\<rparr>"
  obtain q1 where q1: "do_sendClient env (msg_of ''PING'' [''irc-idler'']) p1 = Ret q1"
    using do_sendClient_returns [OF params_present_sent(5)] by blast
  note t = tick_sendClient [OF q1]
  show thesis
  proof (cases "PingSent (client p) \<and> DropDeadline (client p) < clock env (tick p)")
    case True
    then show thesis using assms
      by (intro that [of "dropClient p1"]) (auto simp: check_client_def checkTimeout_def time_Now_def p1_def)
  next
    case False
    let ?q = "client_update (\<lambda>c. c\<lparr>PingSent := True, DropDeadline := clock env (tick p) + pingTime\<rparr>) q1"
    show thesis
    proof (cases "PingSent (client p) \<or> \<not> PingDeadline (client p) < clock env (tick p)")
      case True
      with False assms show thesis
        by (intro that [of p1]) (auto simp: check_client_def checkTimeout_def time_Now_def p1_def ticked_def)
    next
      case neither: False
      with False assms q1 t show thesis
        by (intro that [of ?q]) (auto simp: check_client_def checkTimeout_def time_Now_def Let_def p1_def [symmetric],
          auto simp: p1_def ticked_def)
    qed
  qed
qed

lemma tick_check_server:
  assumes "\<not> IsClosed (server p)"
  obtains q where "check_server env p = Ret q" "tick p < tick q" "client q = client p \<or> IsClosed (client q)"
    "IsClosed (server q) \<or> ticked (clock env (tick p)) (server p) (server q)"
proof -
  define p1 where "p1 = p\<lparr>tick := Suc (tick p)\<rparr>"
  obtain q1 where q1: "do_sendServer env (msg_of ''PING'' [''irc-idler'']) p1 = Ret q1"
    using do_sendServer_returns by blast
  note t = tick_sendServer [OF q1]
  show thesis
  proof (cases "PingSent (server p) \<and> DropDeadline (server p) < clock env (tick p)")
    case True
    then show thesis using assms
      by (intro that [of "reset p1"]) (auto simp: check_server_def checkTimeout_def time_Now_def p1_def)
  next
    case False
    let ?q = "server_update (\<lambda>c. c\<lparr>PingSent := True, DropDeadline := clock env (tick p) + pingTime\<rparr>) q1"
    show thesis
    proof (cases "PingSent (server p) \<or> \<not> PingDeadline (server p) < clock env (tick p)")
      case True
      with False assms show thesis
        by (intro that [of p1]) (auto simp: check_server_def checkTimeout_def time_Now_def p1_def ticked_def)
    next
      case neither: False
      with False assms q1 t show thesis
        by (intro that [of ?q]) (auto simp: check_server_def checkTimeout_def time_Now_def Let_def p1_def [symmetric],
          auto simp: p1_def ticked_def)
    qed
  qed
qed

section \<open>Ticks close what is silent\<close>

text \<open>\<open>n\<close> rounds in which nothing but the ticker is ready.\<close>

abbreviation tick_rounds :: "('s, 'c) env \<Rightarrow> nat \<Rightarrow> 's proxy \<Rightarrow> 's proxy res" where
  "tick_rounds env n p \<equiv> Run env (replicate n Tick) p"

lemma ticks_add: "tick_rounds env (n + k) p = andThen (tick_rounds env n p) (tick_rounds env k)"
proof (induction n arbitrary: p)
  case (Suc n)
  then show ?case by (cases "Run_step env Tick p") simp_all
qed simp

text \<open>The clock goes on.\<close>

definition clock_runs :: "('s, 'c) env \<Rightarrow> bool" where
  "clock_runs env \<longleftrightarrow> mono (clock env) \<and> (\<forall>t. \<exists>n. t < clock env n)"

text \<open>A phase \<open>G\<close> that goes on only while the clock shows at most \<open>t\<close> ends after some ticks.\<close>

lemma ticks_until:
  assumes runs: "clock_runs env"
    and step: "\<And>p. G p \<Longrightarrow> \<exists>q. Run_step env Tick p = Ret q
      \<and> (F q \<or> G q \<and> tick p < tick q \<and> clock env (tick p) \<le> t)"
    and "G p"
  shows "\<exists>n q. tick_rounds env n p = Ret q \<and> F q"
proof -
  obtain K where K: "t < clock env K" using runs by (auto simp: clock_runs_def)
  show ?thesis using \<open>G p\<close>
  proof (induction "K - tick p" arbitrary: p rule: less_induct)
    case less
    from step [OF less.prems] obtain q where q: "Run_step env Tick p = Ret q"
      "F q \<or> G q \<and> tick p < tick q \<and> clock env (tick p) \<le> t" by blast
    have "\<exists>n q'. tick_rounds env n q = Ret q' \<and> F q'"
    proof (cases "F q")
      case True
      then show ?thesis by (intro exI [of _ 0]) simp
    next
      case False
      with q(2) have g: "G q" "tick p < tick q" "clock env (tick p) \<le> t" by auto
      have "tick p < K"
      proof (rule ccontr)
        assume "\<not> tick p < K"
        then have "clock env K \<le> clock env (tick p)" using runs by (simp add: clock_runs_def monoD)
        with K g(3) show False by simp
      qed
      with g less.hyps [OF _ g(1)] show ?thesis by simp
    qed
    then obtain n q' where "tick_rounds env n q = Ret q'" "F q'" by blast
    with q(1) show ?case by (intro exI [of _ "Suc n"]) simp
  qed
qed

text \<open>
  So a connection that every tick leaves closed or \<open>ticked\<close> is closed after some ticks. \<open>J\<close> is what
  the ticks keep meanwhile.
\<close>

lemma ticks_close:
  fixes conn :: "'s proxy \<Rightarrow> connection" and J :: "'s proxy \<Rightarrow> bool"
  assumes runs: "clock_runs env"
    and step: "\<And>p. J p \<Longrightarrow> \<not> IsClosed (conn p) \<Longrightarrow> \<exists>q. Run_step env Tick p = Ret q \<and> J q \<and> tick p < tick q
      \<and> (IsClosed (conn q) \<or> ticked (clock env (tick p)) (conn p) (conn q))"
    and "J p"
  shows "\<exists>n q. tick_rounds env n p = Ret q \<and> J q \<and> IsClosed (conn q)"
proof -
  let ?shut = "\<lambda>q. J q \<and> IsClosed (conn q)"
  have waiting: "\<exists>n q. tick_rounds env n p = Ret q \<and> ?shut q" if "J p" "PingSent (conn p)" "\<not> IsClosed (conn p)" for p
  proof (rule ticks_until [OF runs, where t = "DropDeadline (conn p)"
        and G = "\<lambda>q. J q \<and> PingSent (conn q) \<and> \<not> IsClosed (conn q) \<and> DropDeadline (conn q) = DropDeadline (conn p)"])
    fix r assume "J r \<and> PingSent (conn r) \<and> \<not> IsClosed (conn r) \<and> DropDeadline (conn r) = DropDeadline (conn p)"
    with step [of r] show "\<exists>q. Run_step env Tick r = Ret q \<and> (?shut q \<or>
        (J q \<and> PingSent (conn q) \<and> \<not> IsClosed (conn q) \<and> DropDeadline (conn q) = DropDeadline (conn p))
        \<and> tick r < tick q \<and> clock env (tick r) \<le> DropDeadline (conn p))"
      by (fastforce simp: ticked_def)
  qed (use that in simp)
  have idle: "\<exists>n q. tick_rounds env n p = Ret q \<and> J q \<and> (IsClosed (conn q) \<or> PingSent (conn q))"
    if "J p" "\<not> PingSent (conn p)" "\<not> IsClosed (conn p)" for p
  proof (rule ticks_until [OF runs, where t = "PingDeadline (conn p)"
        and G = "\<lambda>q. J q \<and> \<not> PingSent (conn q) \<and> \<not> IsClosed (conn q) \<and> PingDeadline (conn q) = PingDeadline (conn p)"])
    fix r assume "J r \<and> \<not> PingSent (conn r) \<and> \<not> IsClosed (conn r) \<and> PingDeadline (conn r) = PingDeadline (conn p)"
    with step [of r] show "\<exists>q. Run_step env Tick r = Ret q \<and> (J q \<and> (IsClosed (conn q) \<or> PingSent (conn q)) \<or>
        (J q \<and> \<not> PingSent (conn q) \<and> \<not> IsClosed (conn q) \<and> PingDeadline (conn q) = PingDeadline (conn p))
        \<and> tick r < tick q \<and> clock env (tick r) \<le> PingDeadline (conn p))"
      by (fastforce simp: ticked_def split: if_splits)
  qed (use that in simp)
  have shut: "\<exists>n q. tick_rounds env n p = Ret q \<and> ?shut q" if "J p" "IsClosed (conn p)" for p
    using that by (intro exI [of _ 0]) simp
  show ?thesis
  proof (cases "IsClosed (conn p) \<or> PingSent (conn p)")
    case True
    with waiting shut \<open>J p\<close> show ?thesis by blast
  next
    case False
    with idle [OF \<open>J p\<close>] obtain n q where q: "tick_rounds env n p = Ret q" "J q" "IsClosed (conn q) \<or> PingSent (conn q)" by blast
    with waiting shut obtain k q' where "tick_rounds env k q = Ret q'" "?shut q'" by blast
    with q(1) show ?thesis by (intro exI [of _ "n + k"]) (simp add: ticks_add)
  qed
qed

section \<open>Both sides\<close>

lemma tick_client_open:
  assumes "\<not> IsClosed (client p)"
  shows "\<exists>q. Run_step env Tick p = Ret q \<and> True \<and> tick p < tick q
    \<and> (IsClosed (client q) \<or> ticked (clock env (tick p)) (client p) (client q))"
proof -
  obtain q where q: "check_client env p = Ret q" "tick p < tick q"
    "IsClosed (client q) \<or> ticked (clock env (tick p)) (client p) (client q)"
    by (rule tick_check_client [OF assms])
  show ?thesis
  proof (cases "IsClosed (server q)")
    case True
    with q show ?thesis by (intro exI [of _ q]) (simp add: check_server_def checkTimeout_def)
  next
    case False
    obtain r where "check_server env q = Ret r" "tick q < tick r" "client r = client q \<or> IsClosed (client r)"
      by (rule tick_check_server [OF False])
    with q show ?thesis by (intro exI [of _ r]) auto
  qed
qed

lemma tick_server_open:
  assumes "IsClosed (client p)" and "\<not> IsClosed (server p)"
  shows "\<exists>q. Run_step env Tick p = Ret q \<and> IsClosed (client q) \<and> tick p < tick q
    \<and> (IsClosed (server q) \<or> ticked (clock env (tick p)) (server p) (server q))"
proof -
  obtain q where q: "check_server env p = Ret q" "tick p < tick q" "client q = client p \<or> IsClosed (client q)"
    "IsClosed (server q) \<or> ticked (clock env (tick p)) (server p) (server q)"
    by (rule tick_check_server [OF assms(2)])
  with assms(1) show ?thesis by (intro exI [of _ q]) (auto simp: check_client_def checkTimeout_def)
qed

lemma ticks_closed:
  assumes "IsClosed (client p)" and "IsClosed (server p)" shows "tick_rounds env n p = Ret p"
  using assms by (induction n) (simp_all add: check_client_def check_server_def checkTimeout_def)

lemma silence_closes:
  assumes "clock_runs env"
  shows "\<exists>N q. IsClosed (client q) \<and> IsClosed (server q) \<and> (\<forall>n\<ge>N. tick_rounds env n p = Ret q)"
proof -
  have "\<exists>n q. tick_rounds env n p = Ret q \<and> True \<and> IsClosed (client q)"
    by (rule ticks_close [OF assms, where conn = client and J = "\<lambda>p. True"]) (use tick_client_open in blast)+
  then obtain n q where q: "tick_rounds env n p = Ret q" "IsClosed (client q)" by blast
  have "\<exists>n r. tick_rounds env n q = Ret r \<and> IsClosed (client r) \<and> IsClosed (server r)"
    by (rule ticks_close [OF assms, where conn = server and J = "\<lambda>p. IsClosed (client p)"])
      (use tick_server_open q(2) in blast)+
  then obtain k r where r: "tick_rounds env k q = Ret r" "IsClosed (client r)" "IsClosed (server r)" by blast
  have "tick_rounds env j p = Ret r" if "n + k \<le> j" for j
  proof -
    from that obtain i where "j = (n + k) + i" using le_iff_add by auto
    with q(1) r show ?thesis by (simp add: ticks_add ticks_closed)
  qed
  with r show ?thesis by blast
qed

end
