(* ===== verification/Proxy_Backends.thy ===== *)
theory Proxy_Backends
  imports Proxy_Total
begin

text \<open>
  The daemon does the same on every store. Two runs in the same world, on two stores that meet the
  contract and report no error, go through the same states but for the stores themselves: every
  operation of the daemon keeps the relation \<open>sim\<close>, and returns or panics on both sides alike. The
  locale is interpreted on the two backends of the repository.
\<close>

section \<open>Results that correspond\<close>

fun sim_res :: "('a \<Rightarrow> 'b \<Rightarrow> bool) \<Rightarrow> 'a res \<Rightarrow> 'b res \<Rightarrow> bool" where
  "sim_res R (Ret x) (Ret y) \<longleftrightarrow> R x y"
| "sim_res R (Fail e) (Fail f) \<longleftrightarrow> e = f"
| "sim_res R r r' \<longleftrightarrow> False"

lemma sim_res_andThen:
  assumes "sim_res R r r'" and "\<And>x y. R x y \<Longrightarrow> sim_res S (f x) (g y)"
  shows "sim_res S (andThen r f) (andThen r' g)"
  using assms by (cases r; cases r') auto

lemma sim_res_bind: "(\<And>x. sim_res S (f x) (g x)) \<Longrightarrow> sim_res S (andThen r f) (andThen r g)"
  by (cases r) auto

lemma sim_res_if:
  "b = b' \<Longrightarrow> (b' \<Longrightarrow> sim_res R x x') \<Longrightarrow> (\<not> b' \<Longrightarrow> sim_res R y y') \<Longrightarrow>
     sim_res R (if b then x else y) (if b' then x' else y')"
  by simp

section \<open>Proxies that differ in their logs only\<close>

definition same_but_logs :: "'s proxy \<Rightarrow> 't proxy \<Rightarrow> bool" where
  "same_but_logs p q \<longleftrightarrow>
     client p = client q \<and> server p = server q \<and> preLogSession p = preLogSession q
     \<and> haveMsgCache p = haveMsgCache q \<and> cache_yourhost p = cache_yourhost q \<and> cache_created p = cache_created q
     \<and> cache_myinfo p = cache_myinfo q \<and> serverPrefix p = serverPrefix q \<and> tick p = tick q \<and> trace p = trace q"

definition same_world :: "('s, 'c) env \<Rightarrow> ('t, 'd) env \<Rightarrow> bool" where
  "same_world env env' \<longleftrightarrow> write_err env = write_err env' \<and> dial env = dial env' \<and> clock env = clock env' \<and> backlog env = backlog env'
     \<and> range_order env = range_order env' \<and> fuel env = fuel env'"

text \<open>Two stores that meet the contract and report no error.\<close>

locale two_stores =
  a: reliable_store ops inv contents cinv pending fails keeps +
  b: reliable_store ops' inv' contents' cinv' pending' fails' keeps'
  for ops :: "('s, 'c) store_ops" and inv contents cinv pending fails keeps
    and ops' :: "('t, 'd) store_ops" and inv' contents' cinv' pending' fails' keeps'
begin

definition sim :: "'s proxy \<Rightarrow> 't proxy \<Rightarrow> bool" where
  "sim p q \<longleftrightarrow> same_but_logs p q \<and> inv (messagelogs p) \<and> inv' (messagelogs q)
     \<and> contents (messagelogs p) = contents' (messagelogs q)"

definition sim_err :: "error option \<times> 's proxy \<Rightarrow> error option \<times> 't proxy \<Rightarrow> bool" where
  "sim_err x y \<longleftrightarrow> fst x = fst y \<and> sim (snd x) (snd y)"

definition worlds :: "('s, 'c) env \<Rightarrow> ('t, 'd) env \<Rightarrow> bool" where
  "worlds env env' \<longleftrightarrow> same_world env env' \<and> store env = ops \<and> store env' = ops'"

lemma sim_err_pair [simp]: "sim_err (e, p) (e', q) \<longleftrightarrow> e = e' \<and> sim p q"
  by (simp add: sim_err_def)

lemma sim_fields:
  assumes "sim p q"
  shows "client p = client q" "server p = server q" "preLogSession p = preLogSession q"
    "haveMsgCache p = haveMsgCache q" "cache_yourhost p = cache_yourhost q" "cache_created p = cache_created q"
    "cache_myinfo p = cache_myinfo q" "serverPrefix p = serverPrefix q" "tick p = tick q" "trace p = trace q"
    "welcome_messages p = welcome_messages q"
  using assms by (auto simp: sim_def same_but_logs_def welcome_messages_def Let_def)

lemma sim_updates:
  assumes "sim p q"
  shows "sim (p\<lparr>client := c\<rparr>) (q\<lparr>client := c\<rparr>)" "sim (p\<lparr>server := c\<rparr>) (q\<lparr>server := c\<rparr>)"
    "sim (p\<lparr>preLogSession := x\<rparr>) (q\<lparr>preLogSession := x\<rparr>)" "sim (p\<lparr>haveMsgCache := b\<rparr>) (q\<lparr>haveMsgCache := b\<rparr>)"
    "sim (p\<lparr>cache_yourhost := t\<rparr>) (q\<lparr>cache_yourhost := t\<rparr>)" "sim (p\<lparr>cache_created := t\<rparr>) (q\<lparr>cache_created := t\<rparr>)"
    "sim (p\<lparr>cache_myinfo := ts\<rparr>) (q\<lparr>cache_myinfo := ts\<rparr>)" "sim (p\<lparr>serverPrefix := t\<rparr>) (q\<lparr>serverPrefix := t\<rparr>)"
    "sim (p\<lparr>tick := n\<rparr>) (q\<lparr>tick := n\<rparr>)" "sim (p\<lparr>trace := tr\<rparr>) (q\<lparr>trace := tr\<rparr>)"
  using assms by (simp_all add: sim_def same_but_logs_def)

lemma sim_drop: "sim p q \<Longrightarrow> sim (shutdown_client p) (shutdown_client q)" "sim p q \<Longrightarrow> sim (shutdown_server p) (shutdown_server q)"
  "sim p q \<Longrightarrow> sim (dropClient p) (dropClient q)" "sim p q \<Longrightarrow> sim (reset p) (reset q)"
proof -
  show c: "sim p q \<Longrightarrow> sim (shutdown_client p) (shutdown_client q)" for p q
    by (auto simp: shutdown_client_def sim_fields intro!: sim_updates split: prod.split)
  show s: "sim p q \<Longrightarrow> sim (shutdown_server p) (shutdown_server q)" for p q
    by (auto simp: shutdown_server_def sim_fields intro!: sim_updates split: prod.split)
  show "sim p q \<Longrightarrow> sim (dropClient p) (dropClient q)"
    using c [of p q] s [OF c [of p q]] by (auto simp: dropClient_def Let_def sim_fields)
  show "sim p q \<Longrightarrow> sim (reset p) (reset q)"
    using s [OF c [of p q]] by (simp add: reset_def)
qed

lemma sim_write:
  assumes "worlds env env'" and "sim p q"
  shows "sim_err (write_to env h m p) (write_to env' h m q)"
  using assms(1) sim_fields [OF assms(2)]
  by (auto simp: sim_err_def write_to_def Let_def worlds_def same_world_def intro!: sim_updates assms(2))

lemma sim_sendServer:
  assumes "worlds env env'" and "sim p q"
  shows "sim_err (sendServer env m p) (sendServer env' m q)"
proof (cases "rwc (server q)")
  case (Some h)
  obtain e p1 e' q1 where w: "write_to env h m p = (e, p1)" "write_to env' h m q = (e', q1)" by force
  with sim_write [OF assms, of h m] have "e = e'" "sim p1 q1" by (auto simp: sim_err_def)
  then show ?thesis using Some w sim_fields [OF assms(2)] sim_fields [of p1 q1]
    by (auto simp: sendServer_def sim_err_def intro!: sim_updates sim_drop split: option.split)
qed (use assms sim_fields [OF assms(2)] in \<open>simp add: sendServer_def sim_err_def\<close>)

lemma sim_sendClient:
  assumes "worlds env env'" and "sim p q"
  shows "sim_res sim_err (sendClient env m p) (sendClient env' m q)"
proof (cases "rwc (client q)")
  case (Some h)
  obtain e p1 e' q1 where w: "write_to env h m p = (e, p1)" "write_to env' h m q = (e', q1)" by force
  with sim_write [OF assms, of h m] have e: "e = e'" "sim p1 q1" by (auto simp: sim_err_def)
  have "sim_res sim_err
    (andThen (Session_UpdateFromServer (client_session p1) m) (\<lambda>cs.
     andThen (Session_UpdateFromServer (preLogSession p1) m) (\<lambda>ps.
       Ret (None, p1\<lparr>client := (client p1)\<lparr>Session := cs\<rparr>, preLogSession := ps\<rparr>))))
    (andThen (Session_UpdateFromServer (client_session q1) m) (\<lambda>cs.
     andThen (Session_UpdateFromServer (preLogSession q1) m) (\<lambda>ps.
       Ret (None, q1\<lparr>client := (client q1)\<lparr>Session := cs\<rparr>, preLogSession := ps\<rparr>))))"
    unfolding sim_fields [OF e(2)] by (intro sim_res_bind) (simp add: sim_err_def sim_updates e(2))
  then show ?thesis using Some w e sim_fields [OF assms(2)]
    by (auto simp: sendClient_def sim_err_def intro: sim_drop split: option.split)
qed (use assms sim_fields [OF assms(2)] in \<open>simp add: sendClient_def sim_err_def\<close>)

lemma sim_unless:
  assumes "sim_res sim_err r r'" and "\<And>p q. sim p q \<Longrightarrow> sim_res sim (rest p) (rest' q)"
  shows "sim_res sim (unless_error r rest) (unless_error r' rest')"
  unfolding unless_error_def
  by (rule sim_res_andThen [OF assms(1)]) (auto simp: sim_err_def assms(2))

lemma sim_do_sendClient:
  "worlds env env' \<Longrightarrow> sim p q \<Longrightarrow> sim_res sim (do_sendClient env m p) (do_sendClient env' m q)"
  unfolding do_sendClient_def by (rule sim_res_andThen [OF sim_sendClient]) (auto simp: sim_err_def)

lemma sim_do_sendServer:
  "worlds env env' \<Longrightarrow> sim p q \<Longrightarrow> sim_res sim (do_sendServer env m p) (do_sendServer env' m q)"
  using sim_sendServer [of env env' p q m] by (simp add: do_sendServer_def sim_err_def)

lemma sim_send_messages:
  "worlds env env' \<Longrightarrow> sim p q \<Longrightarrow> sim_res sim_err (send_messages env ms p) (send_messages env' ms q)"
proof (induction ms arbitrary: p q)
  case (Cons m ms)
  show ?case unfolding send_messages.simps
    by (rule sim_res_andThen [OF sim_sendClient [OF Cons.prems]]) (auto simp: sim_err_def intro!: Cons.IH [unfolded sim_err_def] Cons.prems(1))
qed (simp add: sim_err_def)

lemma sim_send_names:
  "worlds env env' \<Longrightarrow> sim p q \<Longrightarrow> sim_res sim_err (send_names env name nick us p) (send_names env' name nick us q)"
proof (induction us arbitrary: p q)
  case (Cons u us)
  have n: "sim_res sim_err
      (send_names env name nick us (p1\<lparr>client := (client p1)\<lparr>Session := put_channel (client_session p1) name
        (AddUser (snd (GetChannel (client_session p1) name)) u)\<rparr>\<rparr>))
      (send_names env' name nick us (q1\<lparr>client := (client q1)\<lparr>Session := put_channel (client_session q1) name
        (AddUser (snd (GetChannel (client_session q1) name)) u)\<rparr>\<rparr>))" if s: "sim p1 q1" for p1 q1
    unfolding sim_fields [OF s] by (intro Cons.IH Cons.prems(1) sim_updates s)
  show ?case unfolding send_names.simps Let_def sim_fields [OF Cons.prems(2)]
    by (rule sim_res_andThen [OF sim_sendClient [OF Cons.prems]])
      (use n in \<open>auto split: prod.split\<close>)
qed (simp add: sim_err_def)

section \<open>The operations on the logs\<close>

lemma sim_logs:
  "sim p q \<Longrightarrow> inv s \<Longrightarrow> inv' t \<Longrightarrow> contents s = contents' t \<Longrightarrow> sim (p\<lparr>messagelogs := s\<rparr>) (q\<lparr>messagelogs := t\<rparr>)"
  by (simp add: sim_def same_but_logs_def)

lemma sim_GetChannel:
  assumes "sim p q"
  obtains s t where "op_GetChannel ops (messagelogs p) name = (None, s)" "op_GetChannel ops' (messagelogs q) name = (None, t)"
    "inv s" "inv' t" "contents s = contents (messagelogs p)" "contents' t = contents (messagelogs p)"
proof -
  from assms have i: "inv (messagelogs p)" "inv' (messagelogs q)" "contents (messagelogs p) = contents' (messagelogs q)"
    by (simp_all add: sim_def)
  obtain e s e' t where g: "op_GetChannel ops (messagelogs p) name = (e, s)" "op_GetChannel ops' (messagelogs q) name = (e', t)"
    by force
  with a.no_error(1) [OF i(1), of name] b.no_error(1) [OF i(2), of name] have "e = None" "e' = None" by auto
  with that g a.get_channel [OF i(1) g(1)] b.get_channel [OF i(2) g(2)] i(3) show thesis by auto
qed

lemma sim_logMessage:
  assumes "worlds env env'" and "sim p q" and "keeps m" and "keeps' m"
  shows "sim_res sim (logMessage env m p) (logMessage env' m q)"
proof -
  have st: "store env = ops" "store env' = ops'" using assms(1) by (simp_all add: worlds_def)
  have i: "inv (messagelogs p)" "inv' (messagelogs q)" "contents (messagelogs p) = contents' (messagelogs q)"
    using assms(2) by (simp_all add: sim_def)
  show ?thesis
  proof (cases "Command m \<in> set logged_commands \<and> Params m \<noteq> []")
    case True
    then obtain s t where s: "logMessage env m p = Ret (p\<lparr>messagelogs := s\<rparr>)" "inv s"
        "contents s = (contents (messagelogs p))(Params m ! 0 := contents (messagelogs p) (Params m ! 0) @ [m])"
      and t: "logMessage env' m q = Ret (q\<lparr>messagelogs := t\<rparr>)" "inv' t"
        "contents' t = (contents' (messagelogs q))(Params m ! 0 := contents' (messagelogs q) (Params m ! 0) @ [m])"
      using a.logMessage_appends [OF st(1) i(1) assms(3)] b.logMessage_appends [OF st(2) i(2) assms(4)] by metis
    then show ?thesis using i(3) by (simp add: sim_logs assms(2))
  next
    case False
    then have "logMessage env m p = (if Command m \<in> set logged_commands then Fail Panic else Ret p)"
      "logMessage env' m q = (if Command m \<in> set logged_commands then Fail Panic else Ret q)"
      by (auto simp: logMessage_def logged_commands_def)
    with assms(2) show ?thesis by simp
  qed
qed

lemma sim_replay_loop:
  "worlds env env' \<Longrightarrow> sim p q \<Longrightarrow> cinv c \<Longrightarrow> cinv' d \<Longrightarrow> fails c = None \<Longrightarrow> fails' d = None \<Longrightarrow>
   pending c = pending' d \<Longrightarrow> sim_res sim (replay_loop env name n c p) (replay_loop env' name n d q)"
proof (induction n arbitrary: c d p q)
  case (Suc n)
  have st: "store env = ops" "store env' = ops'" using Suc.prems(1) by (simp_all add: worlds_def)
  show ?case
  proof (cases "pending c")
    case Nil
    have i: "inv (messagelogs p)" "inv' (messagelogs q)" "contents (messagelogs p) = contents' (messagelogs q)"
      using Suc.prems(2) by (simp_all add: sim_def)
    obtain e s e' t where c: "op_Clear ops (messagelogs p) name = (e, s)" "op_Clear ops' (messagelogs q) name = (e', t)" by force
    with a.no_error(3) [OF i(1), of name] b.no_error(3) [OF i(2), of name] have "e = None" "e' = None" by auto
    with a.clear [OF i(1) c(1)] b.clear [OF i(2) c(2)] i(3)
    have "sim (p\<lparr>messagelogs := s\<rparr>) (q\<lparr>messagelogs := t\<rparr>)" by (intro sim_logs Suc.prems(2)) auto
    moreover have "snd (op_Get ops c) = Some EOF" "snd (op_Get ops' d) = Some EOF"
      using a.get_end [of c] b.get_end [of d] Suc.prems Nil by simp_all
    ultimately show ?thesis using st c by (cases "op_Get ops c"; cases "op_Get ops' d") (auto split: option.splits)
  next
    case (Cons m ms)
    then have Cons': "pending' d = m # ms" using Suc.prems(7) by simp
    note n1 = a.next_message [OF Suc.prems(3) Cons] and n2 = b.next_message [OF Suc.prems(4) Cons']
    have "sim_res sim (unless_error (sendClient env m p) (replay_loop env name n (op_Next ops c)))
        (unless_error (sendClient env' m q) (replay_loop env' name n (op_Next ops' d)))"
      by (rule sim_unless [OF sim_sendClient [OF Suc.prems(1,2)]])
        (rule Suc.IH [OF Suc.prems(1)], use n1 n2 Suc.prems in auto)
    with st a.get_message [OF Suc.prems(3) Cons] b.get_message [OF Suc.prems(4) Cons'] show ?thesis by simp
  qed
qed simp

lemma sim_replayLog:
  assumes "worlds env env'" and "sim p q"
  shows "sim_res sim (replayLog env name p) (replayLog env' name q)"
proof -
  have st: "store env = ops" "store env' = ops'" "fuel env = fuel env'"
    using assms(1) by (simp_all add: worlds_def same_world_def)
  obtain s t where g: "op_GetChannel ops (messagelogs p) name = (None, s)" "op_GetChannel ops' (messagelogs q) name = (None, t)"
    "inv s" "inv' t" "contents s = contents (messagelogs p)" "contents' t = contents (messagelogs p)"
    by (rule sim_GetChannel [OF assms(2)])
  from a.replay_ok [OF g(3)] obtain c s2 where c: "op_Replay ops s name = (Inr c, s2)" "fails c = None" by blast
  from b.replay_ok [OF g(4)] obtain d t2 where d: "op_Replay ops' t name = (Inr d, t2)" "fails' d = None" by blast
  have "sim (p\<lparr>messagelogs := s2\<rparr>) (q\<lparr>messagelogs := t2\<rparr>)"
    using a.replay [OF g(3) c(1)] b.replay [OF g(4) d(1)] g(5,6) by (intro sim_logs assms(2)) auto
  moreover have "cinv c" "cinv' d" "pending c = pending' d"
    using a.replay_cursor [OF g(3) c(1)] b.replay_cursor [OF g(4) d(1)] c(2) d(2) g(5,6) by auto
  ultimately have "sim_res sim (replay_loop env name (fuel env) c (p\<lparr>messagelogs := s2\<rparr>))
      (replay_loop env' name (fuel env) d (q\<lparr>messagelogs := t2\<rparr>))"
    using c(2) d(2) by (intro sim_replay_loop [OF assms(1)])
  then show ?thesis using g c d st by (simp add: replayLog_def Let_def)
qed

section \<open>The handlers\<close>

lemma sim_handshake:
  assumes w: "worlds env env'" and s: "sim p q"
  shows "sim_res sim (handleHandshakeMessage env m p) (handleHandshakeMessage env' m q)"
proof -
  have n: "sim_res sim
      (let p = p1\<lparr>client := set_ClientID (ClientID (server_session p1)) (client p1)\<rparr> in do_sendServer env (msg_of ''MOTD'' []) p)
      (let p = q1\<lparr>client := set_ClientID (ClientID (server_session q1)) (client q1)\<rparr> in do_sendServer env' (msg_of ''MOTD'' []) p)"
    if s1: "sim p1 q1" for p1 q1
    unfolding Let_def sim_fields [OF s1] by (intro sim_do_sendServer w sim_updates s1)
  show ?thesis unfolding handleHandshakeMessage_def sim_fields [OF s]
    by (intro sim_res_if refl sim_do_sendServer w s sim_unless sim_send_messages n) (simp_all add: s sim_drop)
qed

lemma sim_preLog:
  "sim p q \<Longrightarrow> preLogState p name = preLogState q name"
  by (simp add: preLogState_def sim_fields)

lemma sim_rejoin:
  assumes w: "worlds env env'" and s: "sim p q"
  shows "sim_res sim (rejoinChannel env name p) (rejoinChannel env' name q)"
proof -
  let ?names = "\<lambda>env p. let p = p\<lparr>client := (client p)\<lparr>Session := fst (GetChannel (client_session p) name)\<rparr>\<rparr>;
           myNick = Nick (ClientID (server_session p));
           nicks = Users (range_order env (tick p)) (preLogState p name);
           p = p\<lparr>tick := Suc (tick p)\<rparr>
       in unless_error (send_names env name myNick nicks p) (\<lambda>p.
          unless_error (sendClient env
           \<lparr>Prefix = serverPrefix p, Command = RPL_ENDOFNAMES, Params = [myNick, name, ''End of NAMES list'']\<rparr> p)
           (replayLog env name))"
  have ord: "range_order env = range_order env'" using w by (simp add: worlds_def same_world_def)
  have e: "sim_res sim
      (unless_error (sendClient env \<lparr>Prefix = serverPrefix p1, Command = c, Params = ps\<rparr> p1) (replayLog env name))
      (unless_error (sendClient env' \<lparr>Prefix = serverPrefix q1, Command = c, Params = ps\<rparr> q1) (replayLog env' name))"
    if s1: "sim p1 q1" for p1 q1 c ps
    unfolding sim_fields [OF s1] by (intro sim_unless sim_sendClient w s1 sim_replayLog)
  have names: "sim_res sim (?names env p1) (?names env' q1)" if s1: "sim p1 q1" for p1 q1
  proof -
    have u: "sim (p1\<lparr>client := c\<rparr>) (q1\<lparr>client := c\<rparr>)" for c by (intro sim_updates s1)
    have "preLogState (p1\<lparr>client := c\<rparr>) name = preLogState (q1\<lparr>client := c\<rparr>) name" for c
      by (rule sim_preLog [OF u])
    then show ?thesis unfolding Let_def sim_fields [OF s1] ord sim_fields [OF u]
      by (simp only:) (intro sim_unless sim_send_names w e sim_updates u)
  qed
  have topic: "sim_res sim (unless_error
        (if Topic (preLogState p1 name) \<noteq> [] then sendClient env
           \<lparr>Prefix = serverPrefix p1, Command = RPL_TOPIC, Params = [ClientID_String (ClientID (client_session p1)), name,
             Topic (preLogState p1 name)]\<rparr> p1 else Ret (None, p1)) (?names env))
      (unless_error
        (if Topic (preLogState q1 name) \<noteq> [] then sendClient env'
           \<lparr>Prefix = serverPrefix q1, Command = RPL_TOPIC, Params = [ClientID_String (ClientID (client_session q1)), name,
             Topic (preLogState q1 name)]\<rparr> q1 else Ret (None, q1)) (?names env'))" if s1: "sim p1 q1" for p1 q1
    unfolding sim_fields [OF s1] sim_preLog [OF s1]
    by (intro sim_unless sim_res_if refl sim_sendClient w s1 names) (simp_all add: s1)
  show ?thesis unfolding rejoinChannel_def sim_fields [OF s]
    by (intro sim_unless sim_sendClient w s topic)
qed

lemma sim_client_event:
  assumes w: "worlds env env'" and s: "sim p q"
  shows "sim_res sim (handleClientEvent env ev p) (handleClientEvent env' ev q)"
proof (cases ev)
  case (Some m)
  let ?c = "(client q)\<lparr>Session := Session_UpdateFromClient (client_session q) m\<rparr>"
  have u: "sim (p\<lparr>client := ?c\<rparr>) (q\<lparr>client := ?c\<rparr>)" by (intro sim_updates s)
  have j: "sim_res sim (rejoinChannel env name (p\<lparr>client := ?c, preLogSession := x\<rparr>))
      (rejoinChannel env' name (q\<lparr>client := ?c, preLogSession := x\<rparr>))" for name x
    by (intro sim_rejoin w sim_updates s)
  have d: "sim_res sim (andThen (do_sendClient env e p) (\<lambda>p. Ret (dropClient p)))
      (andThen (do_sendClient env' e q) (\<lambda>p. Ret (dropClient p)))" for e
    by (rule sim_res_andThen [OF sim_do_sendClient [OF w s]]) (simp add: sim_drop)
  show ?thesis
  proof (cases "Validate m")
    case None
    show ?thesis unfolding Some handleClientEvent_def option.case None Let_def sim_fields [OF s] sim_fields [OF u]
      by (intro sim_res_if refl sim_handshake sim_do_sendClient sim_do_sendServer sim_res_bind w u)
        (use j u sim_drop(3) [OF u] in \<open>simp_all add: sim_fields [OF s]\<close>)
  qed (use d in \<open>simp add: handleClientEvent_def Some\<close>)
qed (simp add: handleClientEvent_def sim_drop s)

lemma sim_sendClient_or_log:
  assumes w: "worlds env env'" and s: "sim p q" and k: "keeps m" "keeps' m"
  shows "sim_res sim (sendClient_or_log env m p) (sendClient_or_log env' m q)"
  unfolding sendClient_or_log_def
  by (rule sim_res_andThen [OF sim_sendClient [OF w s]]) (auto intro: sim_logMessage w k split: prod.split)

lemma sim_welcome:
  assumes w: "worlds env env'" and s: "sim p q"
  shows "sim_res sim (handleWelcome env m p) (handleWelcome env' m q)"
proof -
  have n: "sim_res sim (andThen (sendClient env m p1) (\<lambda>(err, p).
        if err = None then Ret (p\<lparr>client := set_ClientID i (client p)\<rparr>) else Ret p))
      (andThen (sendClient env' m q1) (\<lambda>(err, p).
        if err = None then Ret (p\<lparr>client := set_ClientID i (client p)\<rparr>) else Ret p))" if s1: "sim p1 q1" for p1 q1 i
    by (rule sim_res_andThen [OF sim_sendClient [OF w s1]]) (auto simp: sim_fields intro: sim_updates split: prod.split)
  have u: "sim (p\<lparr>serverPrefix := Prefix m\<rparr>) (q\<lparr>serverPrefix := Prefix m\<rparr>)" by (rule sim_updates [OF s])
  then show ?thesis unfolding handleWelcome_def Let_def sim_fields [OF u]
    by (intro sim_res_bind [where r = "Param m 1"]) (auto intro!: n sim_updates sim_drop split: sum.split)
qed

lemma sim_server_command:
  assumes w: "worlds env env'" and s: "sim p q" and k: "keeps m" "keeps' m"
  shows "sim_res sim (handle_server_command env m p) (handle_server_command env' m q)"
proof -
  have replay: "sim_res sim (replayLog env (Nick (ClientID (client_session p1))) p1)
      (replayLog env' (Nick (ClientID (client_session q1))) q1)" if s1: "sim p1 q1" for p1 q1
    unfolding sim_fields [OF s1] by (rule sim_replayLog [OF w s1])
  have sent: "sim_res sim (andThen (do_sendClient env m p) f) (andThen (do_sendClient env' m q) g)"
    if "\<And>p q. sim p q \<Longrightarrow> sim_res sim (f p) (g q)" for f g
    by (rule sim_res_andThen [OF sim_do_sendClient [OF w s]]) (rule that)
  have myinfo: "sim_res sim (andThen (do_sendClient env m (p\<lparr>cache_myinfo := ts\<rparr>)) (\<lambda>p. Ret (p\<lparr>haveMsgCache := True\<rparr>)))
      (andThen (do_sendClient env' m (q\<lparr>cache_myinfo := ts\<rparr>)) (\<lambda>p. Ret (p\<lparr>haveMsgCache := True\<rparr>)))" for ts
    by (rule sim_res_andThen [OF sim_do_sendClient [OF w sim_updates(7) [OF s]]]) (simp add: sim_updates)
  show ?thesis unfolding handle_server_command_def sim_fields [OF s]
    by (intro sim_res_if refl sim_do_sendServer sim_do_sendClient sim_welcome sim_res_bind [where r = "Param m x" for x]
        sent replay myinfo sim_replayLog sim_sendClient_or_log sim_logMessage sim_updates w s k)
      (simp_all add: s)
qed

lemma sim_server_event:
  assumes w: "worlds env env'" and s: "sim p q" and k: "\<And>m. ev = Some m \<Longrightarrow> keeps m \<and> keeps' m"
  shows "sim_res sim (handleServerEvent env ev p) (handleServerEvent env' ev q)"
proof (cases ev)
  case (Some m)
  have "sim_res sim (handle_server_command env m (p\<lparr>server := c\<rparr>)) (handle_server_command env' m (q\<lparr>server := c\<rparr>))" for c
    using k [OF Some] by (intro sim_server_command w sim_updates s) simp_all
  then show ?thesis unfolding Some handleServerEvent_def option.case sim_fields [OF s]
    by (intro sim_res_if refl sim_res_bind) (simp_all add: sim_drop s)
qed (simp add: handleServerEvent_def sim_drop s)

section \<open>Rounds and runs\<close>

lemma sim_ticked: "sim p q \<Longrightarrow> sim (p\<lparr>tick := Suc (tick p)\<rparr>) (q\<lparr>tick := Suc (tick q)\<rparr>)"
  by (simp add: sim_fields sim_updates)

lemma sim_clock: "worlds env env' \<Longrightarrow> clock env = clock env'" "worlds env env' \<Longrightarrow> dial env = dial env'"
  "worlds env env' \<Longrightarrow> backlog env = backlog env'"
  by (simp_all add: worlds_def same_world_def)

lemma sim_check_client:
  assumes w: "worlds env env'" and s: "sim p q"
  shows "sim_res sim (check_client env p) (check_client env' q)"
proof -
  note t = sim_ticked [OF s]
  have "sim_res sim (andThen (do_sendClient env x (p\<lparr>tick := Suc (tick p)\<rparr>)) (\<lambda>p. Ret (client_update f p)))
      (andThen (do_sendClient env' x (q\<lparr>tick := Suc (tick q)\<rparr>)) (\<lambda>p. Ret (client_update f p)))" for x f
    by (rule sim_res_andThen [OF sim_do_sendClient [OF w t]]) (auto simp: sim_def same_but_logs_def)
  with t s show ?thesis
    by (auto simp: check_client_def checkTimeout_def time_Now_def sim_clock [OF w] sim_fields [OF s] sim_fields(9) [OF s] sim_drop)
qed

lemma sim_check_server:
  assumes w: "worlds env env'" and s: "sim p q"
  shows "sim_res sim (check_server env p) (check_server env' q)"
proof -
  note t = sim_ticked [OF s]
  have "sim_res sim (andThen (do_sendServer env x (p\<lparr>tick := Suc (tick p)\<rparr>)) (\<lambda>p. Ret (server_update f p)))
      (andThen (do_sendServer env' x (q\<lparr>tick := Suc (tick q)\<rparr>)) (\<lambda>p. Ret (server_update f p)))" for x f
    by (rule sim_res_andThen [OF sim_do_sendServer [OF w t]]) (auto simp: sim_def same_but_logs_def)
  with t s show ?thesis
    by (auto simp: check_server_def checkTimeout_def time_Now_def sim_clock [OF w] sim_fields [OF s] sim_drop)
qed

lemma sim_accept_client:
  assumes w: "worlds env env'" and s: "sim p q"
  shows "sim (accept_client env h p) (accept_client env' h q)"
proof -
  define P where "P = (dropClient p)\<lparr>tick := Suc (tick p),
    client := conn_setup h (backlog env (Suc (tick p))) (clock env (tick p)) (snd (shutdown (client p))), trace := trace (dropClient p) @ [Accepted h]\<rparr>"
  define Q where "Q = (dropClient q)\<lparr>tick := Suc (tick q),
    client := conn_setup h (backlog env' (Suc (tick q))) (clock env' (tick q)) (snd (shutdown (client q))), trace := trace (dropClient q) @ [Accepted h]\<rparr>"
  have P: "accept_client env h p = (if IsClosed (server P)
      then case Connect env P of (Inl err, p) \<Rightarrow> dropClient p
        | (Inr c, p) \<Rightarrow> (let (now, p) = time_Now env p in p\<lparr>server := conn_setup c (backlog env (tick p)) now (server p)\<rparr>) else P)"
    by (simp add: accept_client_def P_def time_Now_def Let_def)
  have Q: "accept_client env' h q = (if IsClosed (server Q)
      then case Connect env' Q of (Inl err, p) \<Rightarrow> dropClient p
        | (Inr c, p) \<Rightarrow> (let (now, p) = time_Now env' p in p\<lparr>server := conn_setup c (backlog env' (tick p)) now (server p)\<rparr>) else Q)"
    by (simp add: accept_client_def Q_def time_Now_def Let_def)
  have d: "sim (dropClient p) (dropClient q)" by (rule sim_drop(3) [OF s])
  have a: "sim P Q"
    unfolding P_def Q_def sim_clock [OF w] sim_fields [OF s] sim_fields [OF d] by (intro sim_updates d)
  show ?thesis unfolding P Q sim_fields [OF a] Connect_def time_Now_def Let_def sim_clock [OF w]
    by (auto intro!: sim_updates sim_drop a simp: sim_fields [OF a] split: sum.split)
qed

lemma sim_round:
  assumes w: "worlds env env'" and s: "sim p q" and k: "kept keeps ev" "kept keeps' ev"
  shows "sim_res sim (Run_step env ev p) (Run_step env' ev q)"
proof (cases ev)
  case (ClientRecv m)
  then show ?thesis using sim_fields [OF s] sim_clock [OF w]
    by (auto simp: time_Now_def intro!: sim_client_event w sim_updates s)
next
  case (ServerRecv m)
  moreover have "\<And>x. m = Some x \<Longrightarrow> keeps x \<and> keeps' x" using k ServerRecv by auto
  ultimately show ?thesis using sim_fields [OF s] sim_clock [OF w]
    by (auto simp: time_Now_def intro!: sim_server_event w sim_updates s)
next
  case Tick
  then show ?thesis using w s by (auto intro: sim_res_andThen [OF sim_check_client] sim_check_server)
qed (simp_all add: sim_drop sim_accept_client w s)

lemma sim_enabled: "sim p q \<Longrightarrow> enabled ev p = enabled ev q"
  by (cases ev) (simp_all add: sim_fields)

lemma sim_Run:
  "worlds env env' \<Longrightarrow> sim p q \<Longrightarrow> list_all (kept keeps) evs \<Longrightarrow> list_all (kept keeps') evs \<Longrightarrow>
     sim_res sim (Run env evs p) (Run env' evs q)"
proof (induction evs arbitrary: p q)
  case (Cons ev evs)
  have r: "sim_res sim (Run_step env ev p) (Run_step env' ev q)"
    using Cons.prems by (intro sim_round) simp_all
  have n: "sim_res sim (Run env evs p1) (Run env' evs q1)" if "sim p1 q1" for p1 q1
    using Cons.prems that by (intro Cons.IH) simp_all
  show ?case unfolding Run.simps sim_enabled [OF Cons.prems(2)]
    by (intro sim_res_if refl r sim_res_andThen [OF r n] n [OF Cons.prems(2)])
qed simp

lemma sim_start:
  "inv s \<Longrightarrow> inv' t \<Longrightarrow> contents s = contents' t \<Longrightarrow> sim (NewProxy s) (NewProxy t)"
  by (simp add: sim_def same_but_logs_def NewProxy_def)

end

section \<open>The backends of the repository\<close>

sublocale reliable_db \<subseteq> backends: two_stores eph_ops "\<lambda>_. True" eph_contents "\<lambda>_. True" eph_pending "\<lambda>_. None" "\<lambda>_. True"
  "sql_ops D" "sql_inv table" "sql_contents table" sql_cinv sql_pending sql_fails storable
  by unfold_locales

context reliable_db begin

lemma backends_run:
  assumes "table d = []" and "same_world env env'" and "store env = eph_ops" and "store env' = sql_ops D"
    and "list_all (kept storable) evs"
  shows "sim_res (\<lambda>p q. same_but_logs p q \<and> eph_contents (messagelogs p) = sql_contents table (messagelogs q))
    (Run env evs (NewProxy eph_NewStore)) (Run env' evs (NewProxy (sql_NewStore d)))"
proof -
  have "backends.worlds env env'" using assms(2-4) by (simp add: backends.worlds_def)
  moreover have "sql_inv table (sql_NewStore d)" "eph_contents eph_NewStore = sql_contents table (sql_NewStore d)"
    using assms(1) by (auto simp: sql_inv_def sql_contents_def sql_NewStore_def select_texts_def)
  then have "backends.sim (NewProxy eph_NewStore) (NewProxy (sql_NewStore d))" by (intro backends.sim_start) simp_all
  ultimately have "sim_res backends.sim (Run env evs (NewProxy eph_NewStore)) (Run env' evs (NewProxy (sql_NewStore d)))"
    using assms(5) by (intro backends.sim_Run) (simp_all add: list_all_iff)
  then show ?thesis
    by (cases "Run env evs (NewProxy eph_NewStore)"; cases "Run env' evs (NewProxy (sql_NewStore d))")
      (auto simp: backends.sim_def)
qed

end

end
