(* ===== verification/Proxy_Clean.thy ===== *)
theory Proxy_Clean
  imports Proxy_Total
begin

text \<open>
  A line stays a line. A message is clean if none of its parts holds a line feed, which is so
  for every message that \<open>ReadMessage\<close> returns. Clean is a type: of strings, messages, client
  identifiers, channels, sessions and proxies. Every operation keeps it, so whatever the proxy
  puts together from what it remembers (the welcome it plays back, the names of a channel, a
  topic, the messages of a log), it never writes a message that a peer would read as two.
\<close>

section \<open>The type\<close>

definition clean :: "string \<Rightarrow> bool" where
  "clean s \<longleftrightarrow> LF \<notin> set s"

definition clean_msg :: "message \<Rightarrow> bool" where
  "clean_msg m \<longleftrightarrow> clean (Prefix m) \<and> clean (Command m) \<and> list_all clean (Params m)"

definition clean_id :: "client_id \<Rightarrow> bool" where
  "clean_id i \<longleftrightarrow> clean (Flag i) \<and> clean (Nick i) \<and> clean (User i) \<and> clean (Host i)"

definition clean_channel :: "channel_state \<Rightarrow> bool" where
  "clean_channel c \<longleftrightarrow> clean (Topic c) \<and> list_all (\<lambda>(u, b). clean u) (users c)"

definition clean_channels :: "channels \<Rightarrow> bool" where
  "clean_channels chans \<longleftrightarrow> list_all (\<lambda>(name, c). clean_channel c) chans"

definition clean_session :: "session \<Rightarrow> bool" where
  "clean_session s \<longleftrightarrow> clean_id (ClientID s) \<and> clean_channels (channels s)"

fun clean_action :: "action \<Rightarrow> bool" where
  "clean_action (Wrote h m b) \<longleftrightarrow> clean_msg m"
| "clean_action act \<longleftrightarrow> True"

definition clean_parts :: "'s proxy \<Rightarrow> bool" where
  "clean_parts p \<longleftrightarrow>
     clean_session (client_session p) \<and> clean_session (server_session p) \<and> clean_session (preLogSession p)
     \<and> clean (cache_yourhost p) \<and> clean (cache_created p) \<and> list_all clean (cache_myinfo p)
     \<and> clean (serverPrefix p) \<and> list_all clean_action (trace p)"

definition clean_logs :: "('s \<Rightarrow> string \<Rightarrow> message list) \<Rightarrow> 's \<Rightarrow> bool" where
  "clean_logs contents s \<longleftrightarrow> (\<forall>name. list_all clean_msg (contents s name))"

section \<open>Strings, identifiers, messages\<close>

lemma clean_simps [simp]:
  "clean []" "clean (c # s) \<longleftrightarrow> c \<noteq> LF \<and> clean s" "clean (s @ t) \<longleftrightarrow> clean s \<and> clean t"
  by (auto simp: clean_def)

lemma clean_subset: "clean s \<Longrightarrow> set t \<subseteq> set s \<Longrightarrow> clean t"
  by (auto simp: clean_def)

lemma clean_take [simp]: "clean s \<Longrightarrow> clean (take n s)" "clean s \<Longrightarrow> clean (drop n s)"
  by (auto simp: clean_def dest: in_set_takeD in_set_dropD)

lemma clean_while [simp]: "clean s \<Longrightarrow> clean (takeWhile P s)" "clean s \<Longrightarrow> clean (tl (dropWhile P s))"
  using set_tl_dropWhile [of P s] by (auto simp: clean_def dest: set_takeWhileD)

lemma clean_split_on: "clean s \<Longrightarrow> list_all clean (split_on c s)"
proof (induction s)
  case (Cons x s)
  then show ?case by (cases "split_on c s") auto
qed simp

lemma clean_trim: "clean s \<Longrightarrow> clean (trim_set cs s)"
  unfolding clean_def trim_set_def by (auto dest!: set_dropWhileD)

lemma clean_last_split: "clean s \<Longrightarrow> clean (last (split_on c s))"
  using clean_split_on [of s c] by (auto simp: list_all_iff)

lemma clean_no_id [simp]: "clean_id no_client_id"
  by (simp add: clean_id_def no_client_id_def)

lemma clean_parse_nick_host:
  assumes "parse_nick_host text = Inr i" and "clean text" shows "clean_id i"
proof -
  have parts: "list_all clean (split_on AT text)" using assms(2) by (rule clean_split_on)
  have sub: "list_all clean (split_on BANG nu)" if "clean nu" for nu using that by (rule clean_split_on)
  have "clean_id i" if "split_on AT text = [nu, h]" for nu h
    using that assms parts sub [of nu]
    by (auto simp: parse_nick_host_def clean_id_def no_client_id_def split: list.splits)
  then show ?thesis using assms
    by (auto simp: parse_nick_host_def clean_id_def no_client_id_def split: list.splits)
qed

lemma clean_ParseClientID: "ParseClientID text = Inr i \<Longrightarrow> clean text \<Longrightarrow> clean_id i"
  by (auto simp: ParseClientID_def Let_def split: sum.splits if_splits prod.splits
      dest!: clean_parse_nick_host) (auto simp: clean_id_def)

lemma clean_ClientID_String: "clean_id i \<Longrightarrow> clean (ClientID_String i)"
  by (auto simp: ClientID_String_def clean_id_def Let_def)

lemma clean_Param: "clean_msg m \<Longrightarrow> Param m i = Ret s \<Longrightarrow> clean s"
  by (auto simp: clean_msg_def Param_def list_all_length split: if_splits)

lemma clean_nth [simp]: "clean_msg m \<Longrightarrow> i < length (Params m) \<Longrightarrow> clean (Params m ! i)"
  by (simp add: clean_msg_def list_all_length)

text \<open>What \<open>ReadMessage\<close> returns is clean.\<close>

lemma clean_parse_params: "clean s \<Longrightarrow> list_all clean (parse_params s)"
proof (induction "length s" arbitrary: s rule: less_induct)
  case less
  show ?case
  proof (cases s)
    case (Cons c cs)
    let ?w = "takeWhile (\<lambda>x. x \<noteq> SP) (c # cs)" and ?r = "tl (dropWhile (\<lambda>x. x \<noteq> SP) (c # cs))"
    have w: "clean ?w" "clean ?r" using less.prems Cons by (auto simp del: takeWhile.simps dropWhile.simps)
    show ?thesis
    proof (cases "c = COLON")
      case False
      then have "length ?r < length s"
        using parseWord_shorter [of "[]" "c # cs" ?w ?r] Cons by simp
      with less.hyps [OF this w(2)] w(1) False Cons show ?thesis
        by (simp del: takeWhile.simps dropWhile.simps)
    qed (use less.prems Cons in simp)
  qed simp
qed

lemma clean_parseWord:
  assumes "parseWord out inp = (e, w, rest)" and "clean out" and "clean inp"
  shows "clean w \<and> clean rest"
proof (cases inp)
  case (Cons c cs)
  have "clean (takeWhile (\<lambda>x. x \<noteq> SP) (c # cs))" "clean (tl (dropWhile (\<lambda>x. x \<noteq> SP) (c # cs)))"
    using assms(3) Cons by (auto simp del: takeWhile.simps dropWhile.simps)
  with assms Cons show ?thesis
    by (cases "c = COLON") (auto simp del: takeWhile.simps dropWhile.simps)
qed (use assms in auto)

lemma clean_parseMessage: "parseMessage line = Inr m \<Longrightarrow> clean line \<Longrightarrow> clean_msg m"
  unfolding parseMessage_def
  by (auto simp: clean_msg_def clean_parse_params split: list.splits prod.splits option.splits if_splits
      dest!: clean_parseWord)

text \<open>A scanner that has seen an error has no line feed left.\<close>

lemma clean_Scan:
  assumes "scan_err r \<noteq> None \<longrightarrow> clean (scan_input r)" and "Scan r = (tok, r')"
  shows "(scan_err r' \<noteq> None \<longrightarrow> clean (scan_input r')) \<and> (\<forall>line. tok = Some line \<longrightarrow> clean line)"
proof -
  have cr: "clean s \<Longrightarrow> clean (dropCR s)" for s by (auto simp: dropCR_def clean_def dest: in_set_butlastD)
  have tw: "clean (takeWhile (\<lambda>c. c \<noteq> LF) s)" for s by (auto simp: clean_def dest: set_takeWhileD)
  from assms show ?thesis
    by (auto simp: Scan_def scan_at_end_def Let_def split: if_splits intro!: cr tw) (auto simp: clean_def)
qed

lemma clean_ReadAll_from:
  "scan_err r \<noteq> None \<longrightarrow> clean (scan_input r) \<Longrightarrow> list_all clean_msg (ReadAll r)"
proof (induction r rule: ReadAll.induct)
  case (1 r)
  obtain tok r' where s: "Scan r = (tok, r')" by force
  note c = clean_Scan [OF "1.prems" s]
  show ?case
  proof (cases "ReadMessage r")
    case (Pair x r2)
    show ?thesis
    proof (cases x)
      case (Inr m)
      with Pair s obtain line where "tok = Some line" "parseMessage line = Inr m" "r2 = r'"
        by (auto simp: ReadMessage_def split: option.splits)
      with c "1.IH" Pair Inr show ?thesis by (subst ReadAll.simps) (auto intro: clean_parseMessage)
    qed (use Pair in \<open>subst ReadAll.simps, simp\<close>)
  qed
qed

lemma clean_ReadAll: "list_all clean_msg (ReadAll (NewReader inp e))"
  by (rule clean_ReadAll_from) (simp add: NewReader_def)

section \<open>Channels and sessions\<close>

lemma list_all_update: "list_all P al \<Longrightarrow> P (k, v) \<Longrightarrow> list_all P (AList.update k v al)"
  by (induction al) auto

lemma list_all_delete: "list_all P al \<Longrightarrow> list_all P (AList.delete k al)"
  by (induction al) auto

lemma clean_channel_simps [simp]:
  "clean_channel (NewChannelState [])"
  "clean_channel c \<Longrightarrow> clean nick \<Longrightarrow> clean_channel (AddUser c nick)"
  "clean_channel c \<Longrightarrow> clean_channel (RemoveUser c nick)"
  "clean_channel c \<Longrightarrow> clean t \<Longrightarrow> clean_channel (c\<lparr>Topic := t\<rparr>)"
  by (auto simp: clean_channel_def NewChannelState_def AddUser_def RemoveUser_def list_all_update list_all_delete)

lemma clean_channels_simps [simp]:
  "clean_channels []"
  "clean_channels chans \<Longrightarrow> clean_channel c \<Longrightarrow> clean_channels (AList.update name c chans)"
  "clean_channels chans \<Longrightarrow> clean_channels (AList.delete name chans)"
  by (auto simp: clean_channels_def list_all_update list_all_delete)

lemma clean_name_nick: "clean user \<Longrightarrow> clean (name_nick user)"
  using clean_ParseClientID [of "trim_set [SP, CR, LF] user"] clean_trim [of user]
  by (auto simp: name_nick_def clean_id_def split: sum.splits)

lemma clean_add_names:
  "list_all clean us \<Longrightarrow> clean_channel c \<Longrightarrow> clean_channel (fold (\<lambda>user s. AddUser s (name_nick user)) us c)"
  by (induction us arbitrary: c) (auto simp: clean_name_nick)

lemma clean_Channel_update:
  assumes "Channel_UpdateFromServer c m = Ret c'" and "clean_channel c" and "clean_msg m"
  shows "clean_channel c'"
proof -
  have id: "clean (Nick i)" if "ParseClientID (Prefix m) = Inr i" for i
    using clean_ParseClientID [OF that] assms(3) by (auto simp: clean_msg_def clean_id_def)
  have names: "list_all clean (split_on SP s)" if "Param m n = Ret s" for n s
    using clean_Param [OF assms(3) that] by (rule clean_split_on)
  from assms(1,2) id clean_Param [OF assms(3)] show ?thesis
    by (auto simp: Channel_UpdateFromServer_def split: if_splits sum.splits intro!: clean_add_names [OF names])
qed

lemma clean_Channels_GetChannel:
  assumes "clean_channels chans"
  shows "clean_channels (fst (Channels_GetChannel chans name)) \<and> clean_channel (snd (Channels_GetChannel chans name))"
proof (cases "map_of chans name")
  case (Some c)
  then have "(name, c) \<in> set chans" by (rule map_of_SomeD)
  with assms Some show ?thesis by (auto simp: Channels_GetChannel_def clean_channels_def list_all_iff)
qed (use assms in \<open>simp add: Channels_GetChannel_def Let_def\<close>)

lemma clean_update_channel:
  "update_channel chans name m = Ret chans' \<Longrightarrow> clean_channels chans \<Longrightarrow> clean_msg m \<Longrightarrow> clean_channels chans'"
  using clean_Channels_GetChannel [of chans name]
  by (auto simp: update_channel_def andThen_Ret_iff split: prod.splits dest: clean_Channel_update)

lemma clean_update_all:
  "update_all chans m = Ret chans' \<Longrightarrow> clean_channels chans \<Longrightarrow> clean_msg m \<Longrightarrow> clean_channels chans'"
proof (induction chans m arbitrary: chans' rule: update_all.induct)
  case (2 name c chans m)
  then obtain c' rest where r: "Channel_UpdateFromServer c m = Ret c'" "update_all chans m = Ret rest"
    "chans' = (name, c') # rest" by (auto simp: andThen_Ret_iff)
  with 2 clean_Channel_update [OF r(1)] show ?case by (auto simp: clean_channels_def)
qed simp

lemma clean_Channels_update:
  assumes "Channels_UpdateFromServer chans m = Ret chans'" and "clean_channels chans" and "clean_msg m"
  shows "clean_channels chans'"
proof -
  have u: "clean_channels chs" if "update_channel chans name m = Ret chs" for name chs
    using clean_update_channel [OF that assms(2,3)] .
  have t: "clean_channels (AList.update name ((snd (Channels_GetChannel chans name))\<lparr>Topic := topic\<rparr>)
      (fst (Channels_GetChannel chans name)))" if "Param m 2 = Ret topic" for name topic
    using clean_Channels_GetChannel [OF assms(2), of name] clean_Param [OF assms(3) that] by simp
  consider "Command m \<in> {''KICK'', ''PART'', ''JOIN'', RPL_NAMEREPLY}" | "Command m = RPL_TOPIC"
    | "Command m = ''NICK'' \<or> Command m = ''QUIT''"
    | "Command m \<notin> {''KICK'', ''PART'', ''JOIN'', RPL_NAMEREPLY, RPL_TOPIC, ''NICK'', ''QUIT''}" by auto
  then show ?thesis
  proof cases
    case 1
    then show ?thesis using assms(1) u by (auto simp: Channels_UpdateFromServer_def andThen_Ret_iff)
  next
    case 2
    then show ?thesis using assms(1) t
      by (auto simp: Channels_UpdateFromServer_def Let_def andThen_Ret_iff split_beta)
  next
    case 3
    then show ?thesis using assms clean_update_all by (auto simp: Channels_UpdateFromServer_def)
  qed (use assms(1,2) in \<open>simp add: Channels_UpdateFromServer_def\<close>)
qed

lemma clean_session_simps [simp]:
  "clean_session NewSession"
  "clean_session (Session_UpdateFromClient s m) \<longleftrightarrow> clean_session s"
  "clean_session s \<Longrightarrow> clean_id i \<Longrightarrow> clean_session (s\<lparr>ClientID := i\<rparr>)"
  "clean_session s \<Longrightarrow> clean_id (ClientID s)"
  by (auto simp: clean_session_def NewSession_def Session_UpdateFromClient_def)

lemma clean_GetChannel:
  assumes "clean_session s"
  shows "clean_session (fst (GetChannel s name)) \<and> clean_channel (snd (GetChannel s name))"
  using assms clean_Channels_GetChannel [of "channels s" name]
  by (auto simp: GetChannel_def clean_session_def split: prod.splits)

lemma clean_put_channel:
  "clean_session s \<Longrightarrow> clean_channel c \<Longrightarrow> clean_session (put_channel s name c)"
  by (auto simp: put_channel_def clean_session_def)

lemma clean_Session_update:
  assumes "Session_UpdateFromServer s m = Ret s'" and "clean_session s" and "clean_msg m"
  shows "clean_session s'"
  using assms clean_Param [OF assms(3)]
  by (auto simp: Session_UpdateFromServer_def clean_session_def clean_id_def DeleteChannel_def Let_def andThen_Ret_iff
      split: if_splits dest!: clean_Channels_update)

section \<open>Connections and sending\<close>

lemma caches_dropClient [simp]:
  "cache_yourhost (dropClient p) = cache_yourhost p" "cache_created (dropClient p) = cache_created p"
  "cache_myinfo (dropClient p) = cache_myinfo p" "serverPrefix (dropClient p) = serverPrefix p"
proof -
  have "same_rest p (dropClient p)" by simp
  then show "cache_yourhost (dropClient p) = cache_yourhost p" "cache_created (dropClient p) = cache_created p"
    "cache_myinfo (dropClient p) = cache_myinfo p" "serverPrefix (dropClient p) = serverPrefix p"
    unfolding same_rest_def by auto
qed

lemma caches_reset [simp]:
  "cache_yourhost (reset p) = cache_yourhost p" "cache_created (reset p) = cache_created p"
  "cache_myinfo (reset p) = cache_myinfo p" "serverPrefix (reset p) = serverPrefix p"
proof -
  have "same_rest p (reset p)" by simp
  then show "cache_yourhost (reset p) = cache_yourhost p" "cache_created (reset p) = cache_created p"
    "cache_myinfo (reset p) = cache_myinfo p" "serverPrefix (reset p) = serverPrefix p"
    unfolding same_rest_def by auto
qed

lemma clean_shutdown [simp]:
  "clean_session (Session c) \<Longrightarrow> clean_session (Session (snd (shutdown c)))"
  "list_all clean_action (fst (shutdown c))"
  by (simp_all add: shutdown_def)

lemma clean_dropClient: "clean_parts p \<Longrightarrow> clean_parts (dropClient p)"
  by (simp add: clean_parts_def) (simp add: dropClient_def Let_def)

lemma clean_reset: "clean_parts p \<Longrightarrow> clean_parts (reset p)"
  by (simp add: clean_parts_def) (simp add: reset_def)

lemma clean_client_session:
  "clean_parts p \<Longrightarrow> clean_session s \<Longrightarrow> clean_parts (p\<lparr>client := (client p)\<lparr>Session := s\<rparr>\<rparr>)"
  by (simp add: clean_parts_def)

lemma clean_server_session:
  "clean_parts p \<Longrightarrow> clean_session s \<Longrightarrow> clean_parts (p\<lparr>server := (server p)\<lparr>Session := s\<rparr>\<rparr>)"
  by (simp add: clean_parts_def)

lemma clean_conn:
  "clean_parts p \<Longrightarrow> clean_session (Session c) \<Longrightarrow> clean_parts (p\<lparr>client := c\<rparr>)"
  "clean_parts p \<Longrightarrow> clean_session (Session c) \<Longrightarrow> clean_parts (p\<lparr>server := c\<rparr>)"
  by (simp_all add: clean_parts_def)

lemma clean_parts_simps [simp]:
  "clean_parts (p\<lparr>tick := n\<rparr>) = clean_parts p"
  "clean_parts (p\<lparr>messagelogs := st\<rparr>) = clean_parts p"
  "clean_parts (p\<lparr>haveMsgCache := b\<rparr>) = clean_parts p"
  "clean_parts p \<Longrightarrow> clean_session ps \<Longrightarrow> clean_parts (p\<lparr>preLogSession := ps\<rparr>)"
  "clean_parts p \<Longrightarrow> clean s \<Longrightarrow> clean_parts (p\<lparr>serverPrefix := s\<rparr>)"
  "clean_parts p \<Longrightarrow> clean s \<Longrightarrow> clean_parts (p\<lparr>cache_yourhost := s\<rparr>)"
  "clean_parts p \<Longrightarrow> clean s \<Longrightarrow> clean_parts (p\<lparr>cache_created := s\<rparr>)"
  "clean_parts p \<Longrightarrow> list_all clean ss \<Longrightarrow> clean_parts (p\<lparr>cache_myinfo := ss\<rparr>)"
  "clean_parts p \<Longrightarrow> list_all clean_action acts \<Longrightarrow> clean_parts (p\<lparr>trace := trace p @ acts\<rparr>)"
  by (simp_all add: clean_parts_def)

lemma clean_write:
  assumes "clean_parts p" and "clean_msg m" and "write_to env h m p = (e, q)"
  shows "clean_parts q"
  using assms by (auto simp: write_to_def Let_def clean_parts_def)

lemma clean_sendClient:
  assumes "clean_parts p" and "clean_msg m"
  shows "ensures (sendClient env m p) (\<lambda>(e, q). clean_parts q)"
proof (cases "rwc (client p)")
  case (Some h)
  obtain e q where w: "write_to env h m p = (e, q)" by force
  note q = clean_write [OF assms w]
  show ?thesis
  proof (cases e)
    case None
    have "clean_parts (q\<lparr>client := (client q)\<lparr>Session := cs\<rparr>, preLogSession := ps\<rparr>)"
      if "Session_UpdateFromServer (client_session q) m = Ret cs"
        and "Session_UpdateFromServer (preLogSession q) m = Ret ps" for cs ps
      using clean_Session_update [OF that(1) _ assms(2)] clean_Session_update [OF that(2) _ assms(2)] q
      by (simp add: clean_parts_def)
    with Some w None show ?thesis by (auto simp: sendClient_def intro!: ensures_bind)
  qed (use Some w q clean_dropClient in \<open>auto simp: sendClient_def\<close>)
qed (use assms in \<open>simp add: sendClient_closed\<close>)

lemma clean_do_sendClient:
  "clean_parts p \<Longrightarrow> clean_msg m \<Longrightarrow> ensures (do_sendClient env m p) clean_parts"
  unfolding do_sendClient_def by (rule ensures_andThen [OF clean_sendClient]) auto

lemma clean_do_sendServer:
  assumes "clean_parts p" and "clean_msg m" shows "ensures (do_sendServer env m p) clean_parts"
proof (cases "rwc (server p)")
  case (Some h)
  obtain e q where w: "write_to env h m p = (e, q)" by force
  note q = clean_write [OF assms w]
  then have "clean_parts (q\<lparr>server := (server q)\<lparr>Session := Session_UpdateFromClient (server_session q) m\<rparr>\<rparr>)"
    by (intro clean_server_session) (simp_all add: clean_parts_def)
  with Some w q clean_reset show ?thesis by (cases e) (auto simp: do_sendServer_def sendServer_def)
qed (use assms in \<open>simp add: do_sendServer_def sendServer_def\<close>)

lemma clean_send_messages:
  "clean_parts p \<Longrightarrow> list_all clean_msg ms \<Longrightarrow> ensures (send_messages env ms p) (\<lambda>(e, q). clean_parts q)"
proof (induction ms arbitrary: p)
  case (Cons m ms)
  then show ?case by (auto intro!: ensures_andThen [OF clean_sendClient])
qed simp

lemma clean_msg_simps [simp]:
  "clean_msg \<lparr>Prefix = a, Command = c, Params = ps\<rparr> \<longleftrightarrow> clean a \<and> clean c \<and> list_all clean ps"
  "clean_msg m \<Longrightarrow> clean a \<Longrightarrow> clean c \<Longrightarrow> clean_msg (m\<lparr>Prefix := a, Command := c\<rparr>)"
  by (simp_all add: clean_msg_def)

lemma clean_welcome: "clean_parts p \<Longrightarrow> list_all clean_msg (welcome_messages p)"
  by (auto simp: welcome_messages_def Let_def clean_parts_def clean_session_def clean_ClientID_String)
    (simp_all add: clean_id_def)

lemma clean_partsD:
  assumes "clean_parts p"
  shows "clean (serverPrefix p)" "clean (ClientID_String (ClientID (client_session p)))"
    "clean (Nick (ClientID (client_session p)))" "clean (Nick (ClientID (server_session p)))"
  using assms by (auto simp: clean_parts_def clean_session_def intro!: clean_ClientID_String) (simp_all add: clean_id_def)

section \<open>The handlers\<close>

lemma clean_handshake:
  assumes "clean_parts p" and "clean_msg m" shows "ensures (handleHandshakeMessage env m p) clean_parts"
proof -
  have "clean_parts (q\<lparr>client := set_ClientID (ClientID (server_session q)) (client q)\<rparr>)" if "clean_parts q" for q
    unfolding set_ClientID_def
    by (rule clean_client_session [OF that]) (use that in \<open>simp add: clean_parts_def\<close>)
  then have "ensures (unless_error (send_messages env (welcome_messages p) p) (\<lambda>q.
      do_sendServer env (msg_of ''MOTD'' [])
        (q\<lparr>client := set_ClientID (ClientID (server_session q)) (client q)\<rparr>))) clean_parts"
    by (intro ensures_unless [OF clean_send_messages [OF assms(1) clean_welcome [OF assms(1)]]]
        clean_do_sendServer) simp_all
  then show ?thesis unfolding handleHandshakeMessage_def Let_def
    using assms clean_reset by (auto intro!: clean_do_sendServer)
qed

lemma clean_send_names:
  "clean_parts p \<Longrightarrow> clean name \<Longrightarrow> clean nick \<Longrightarrow> list_all clean us \<Longrightarrow>
     ensures (send_names env name nick us p) (\<lambda>(e, q). clean_parts q)"
proof (induction us arbitrary: p)
  case (Cons u us)
  let ?m = "\<lparr>Prefix = serverPrefix p, Command = RPL_NAMEREPLY, Params = [nick, ''='', name, u]\<rparr>"
  have m: "clean_msg ?m" using Cons.prems by (simp add: clean_parts_def)
  have "clean_parts (q\<lparr>client := (client q)\<lparr>Session :=
      put_channel (client_session q) name (AddUser (snd (GetChannel (client_session q) name)) u)\<rparr>\<rparr>)"
    if "clean_parts q" for q
    using that Cons.prems(4) clean_GetChannel [of "client_session q" name]
    by (intro clean_client_session clean_put_channel) (simp_all add: clean_parts_def)
  with Cons show ?case unfolding send_names.simps Let_def
    by (auto intro!: ensures_andThen [OF clean_sendClient [OF Cons.prems(1) m]] Cons.IH)
qed simp

lemma clean_preLogState:
  assumes "clean_parts p" shows "clean_channel (preLogState p name)"
  using assms clean_GetChannel [of "preLogSession p" name] by (simp add: preLogState_def clean_parts_def)

text \<open>The order of a \<open>range\<close> over a map is an order of its keys.\<close>

definition fair_order :: "('s, 'c) env \<Rightarrow> bool" where
  "fair_order env \<longleftrightarrow> (\<forall>n xs. set (range_order env n xs) \<subseteq> set xs)"

lemma clean_Users:
  "fair_order env \<Longrightarrow> clean_channel c \<Longrightarrow> list_all clean (Users (range_order env n) c)"
  by (force simp: fair_order_def clean_channel_def Users_def list_all_iff)

lemma clean_set_ClientID:
  "clean_parts p \<Longrightarrow> clean_id i \<Longrightarrow> clean_parts (p\<lparr>client := set_ClientID i (client p)\<rparr>)"
  "clean_parts p \<Longrightarrow> clean_id i \<Longrightarrow> clean_parts (p\<lparr>server := set_ClientID i (server p)\<rparr>)"
  by (auto simp: set_ClientID_def clean_parts_def)

lemma clean_handleWelcome:
  assumes "clean_parts p" and "clean_msg m" shows "ensures (handleWelcome env m p) clean_parts"
proof -
  have "ensures (andThen (sendClient env m q) (\<lambda>(err, p).
      if err = None then Ret (p\<lparr>client := set_ClientID i (client p)\<rparr>) else Ret p)) clean_parts"
    if "clean_parts q" and "clean_id i" for q i
    by (rule ensures_andThen [OF clean_sendClient [OF that(1) assms(2)]]) (use that in \<open>auto intro: clean_set_ClientID\<close>)
  moreover have p: "clean_parts (p\<lparr>serverPrefix := Prefix m\<rparr>)"
    using assms by (simp add: clean_msg_def)
  moreover have "clean_id i" if "Param m 1 = Ret t" and "ParseClientID (last (split_on SP t)) = Inr i" for t i
    using clean_ParseClientID [OF that(2)] clean_last_split clean_Param [OF assms(2) that(1)] by blast
  ultimately show ?thesis using clean_reset [OF p] clean_set_ClientID(2) [OF p]
    unfolding handleWelcome_def Let_def
    by (intro ensures_bind [where r = "Param m 1"]) (auto split: sum.split)
qed

lemma welcome_logs: "ensures (handleWelcome env m p) (\<lambda>q. messagelogs q = messagelogs p)"
proof -
  have "ensures (andThen (sendClient env m q) (\<lambda>(err, p).
      if err = None then Ret (p\<lparr>client := set_ClientID i (client p)\<rparr>) else Ret p)) (\<lambda>r. messagelogs r = messagelogs q)"
    for q i by (rule ensures_andThen [OF sendClient_logs]) auto
  then show ?thesis unfolding handleWelcome_def Let_def
    by (intro ensures_bind [where r = "Param m 1"]) (fastforce split: sum.split simp: ensures_def)
qed

context log_store begin

text \<open>A proxy with clean parts over a good store with clean logs.\<close>

abbreviation pure where
  "pure p \<equiv> inv (messagelogs p) \<and> clean_logs contents (messagelogs p) \<and> clean_parts p"

lemma pure_same:
  "pure p \<Longrightarrow> ensures r (\<lambda>q. messagelogs q = messagelogs p) \<Longrightarrow> ensures r clean_parts \<Longrightarrow> ensures r pure"
  by (auto simp: ensures_def)

lemma pure_sendClient:
  assumes "pure p" and "clean_msg m" shows "ensures (sendClient env m p) (\<lambda>(e, q). pure q)"
  using clean_sendClient [of p m env] sendClient_logs [of env m p] assms by (auto simp: ensures_def)

lemma pure_sends:
  assumes "pure p" and "clean_msg m"
  shows "ensures (do_sendClient env m p) pure" and "ensures (do_sendServer env m p) pure"
    and "ensures (handleHandshakeMessage env m p) pure"
  using assms pure_same [OF assms(1) do_sendClient_logs [of env m p] clean_do_sendClient]
    pure_same [OF assms(1) do_sendServer_logs [of env m p] clean_do_sendServer]
    pure_same [OF assms(1) handshake_logs [of env m p] clean_handshake] by auto

lemma clean_replay_loop:
  assumes "store env = ops"
  shows "clean_parts p \<Longrightarrow> cinv c \<Longrightarrow> list_all clean_msg (pending c) \<Longrightarrow>
    ensures (replay_loop env name n c p) clean_parts"
proof (induction n arbitrary: c p)
  case (Suc n)
  show ?case
  proof (cases "pending c")
    case Nil
    from get_end [OF Suc.prems(2) Nil] Suc.prems(1) assms show ?thesis
      by (cases "op_Get ops c") (auto split: option.splits)
  next
    case (Cons m ms)
    with get_message [OF Suc.prems(2) Cons] next_message [OF Suc.prems(2) Cons] Suc assms
    show ?thesis by (auto intro!: ensures_unless [OF clean_sendClient])
  qed
qed simp

lemma pure_replayLog:
  assumes "store env = ops" and "pure p" shows "ensures (replayLog env name p) pure"
proof -
  obtain e s where g: "op_GetChannel ops (messagelogs p) name = (e, s)" by force
  from get_channel [OF _ g] assms(2) have s: "inv s" "contents s = contents (messagelogs p)" by auto
  obtain r s2 where r: "op_Replay ops s name = (r, s2)" by force
  have "ensures (replayLog env name p) clean_parts"
  proof (cases r)
    case (Inr c)
    from replay_cursor [OF s(1) r [unfolded Inr]] s(2) obtain rest where
      c: "cinv c" "contents (messagelogs p) name = pending c @ rest" by auto
    have "list_all clean_msg (contents (messagelogs p) name)" using assms(2) by (simp add: clean_logs_def)
    with c(2) have "list_all clean_msg (pending c)" by simp
    from clean_replay_loop [OF assms(1) _ c(1) this] g r Inr assms
    show ?thesis by (auto simp: replayLog_def Let_def)
  qed (use assms g r in \<open>auto simp: replayLog_def Let_def\<close>)
  moreover have "ensures (replayLog env name p) (\<lambda>q. inv (messagelogs q) \<and> clean_logs contents (messagelogs q))"
    using replayLog_all_or_nothing [OF assms(1), of p name] assms(2) by (auto simp: ensures_def clean_logs_def)
  ultimately show ?thesis by (auto simp: ensures_def)
qed

lemma pure_logMessage:
  assumes "store env = ops" and "pure p" and "clean_msg m" and "keeps m"
  shows "ensures (logMessage env m p) pure"
  using logMessage_contents [OF assms(1) _ assms(4), of p] assms(2,3)
  by (fastforce simp: ensures_def clean_logs_def)

lemma pure_sendClient_or_log:
  assumes "store env = ops" and "pure p" and "clean_msg m" and "keeps m"
  shows "ensures (sendClient_or_log env m p) pure"
  unfolding sendClient_or_log_def
  by (rule ensures_andThen [OF pure_sendClient [OF assms(2,3)]])
    (use pure_logMessage [OF assms(1) _ assms(3,4)] in auto)

lemma pure_rejoin:
  assumes "store env = ops" and "fair_order env" and "pure p" and "clean name"
  shows "ensures (rejoinChannel env name p) pure"
  unfolding rejoinChannel_def Let_def
proof (intro ensures_unless [where P = pure] pure_replayLog assms(1))
  show "ensures (sendClient env
      \<lparr>Prefix = ClientID_String (ClientID (client_session p)), Command = ''JOIN'', Params = [name]\<rparr> p) (\<lambda>(e, p). pure p)"
    using assms(3,4) by (intro pure_sendClient) (auto simp: clean_partsD)
next
  fix q assume q: "pure q"
  have "clean (Topic (preLogState q name))"
    using clean_preLogState [of q name] q by (simp add: clean_channel_def)
  then show "ensures (if Topic (preLogState q name) \<noteq> []
      then sendClient env \<lparr>Prefix = serverPrefix q, Command = RPL_TOPIC,
        Params = [ClientID_String (ClientID (client_session q)), name, Topic (preLogState q name)]\<rparr> q
      else Ret (None, q)) (\<lambda>(e, p). pure p)"
    using q assms(4) by (auto intro!: pure_sendClient simp: clean_partsD)
next
  fix q assume q: "pure q"
  let ?q = "q\<lparr>client := (client q)\<lparr>Session := fst (GetChannel (client_session q) name)\<rparr>\<rparr>"
  have p: "pure ?q"
    using q clean_GetChannel [of "client_session q" name] by (auto intro!: clean_client_session simp: clean_parts_def)
  have n: "clean (Nick (ClientID (server_session ?q)))"
    using q by (simp add: clean_partsD)
  have u: "list_all clean (Users (range_order env (tick ?q)) (preLogState ?q name))"
    using clean_Users [OF assms(2) clean_preLogState] p by blast
  have "ensures (send_names env name (Nick (ClientID (server_session ?q)))
      (Users (range_order env (tick ?q)) (preLogState ?q name)) (?q\<lparr>tick := Suc (tick ?q)\<rparr>)) (\<lambda>(e, p). clean_parts p)"
    by (rule clean_send_names [OF _ assms(4) n u]) (use p in simp)
  with send_names_logs p show "ensures (send_names env name (Nick (ClientID (server_session ?q)))
      (Users (range_order env (tick ?q)) (preLogState ?q name)) (?q\<lparr>tick := Suc (tick ?q)\<rparr>)) (\<lambda>(e, p). pure p)"
    by (fastforce simp: ensures_def)
  fix r assume "pure r"
  then show "ensures (sendClient env \<lparr>Prefix = serverPrefix r, Command = RPL_ENDOFNAMES,
      Params = [Nick (ClientID (server_session ?q)), name, ''End of NAMES list'']\<rparr> r) (\<lambda>(e, p). pure p)"
    using n assms(4) by (intro pure_sendClient) (auto simp: clean_partsD)
qed auto

lemma pure_client_event:
  assumes "store env = ops" and "fair_order env" and "pure p" and "\<And>m. ev = Some m \<Longrightarrow> clean_msg m"
  shows "ensures (handleClientEvent env ev p) pure"
proof (cases ev)
  case (Some m)
  with assms(4) have m: "clean_msg m" by blast
  let ?p = "p\<lparr>client := (client p)\<lparr>Session := Session_UpdateFromClient (client_session p) m\<rparr>\<rparr>"
  have p: "pure ?p" using assms(3) by (auto intro!: clean_client_session simp: clean_parts_def)
  note sends = pure_sends [OF p]
  have j: "ensures (andThen (Param m 0) (\<lambda>name.
      if HaveChannel (client_session ?p) name then Ret ?p
      else if HaveChannel (server_session ?p) name then
        rejoinChannel env name (?p\<lparr>preLogSession := fst (GetChannel (preLogSession ?p) name)\<rparr>)
      else do_sendServer env m ?p)) pure"
  proof (intro ensures_bind ensures_if pure_rejoin sends(2) m assms(1,2))
    fix name assume "Param m 0 = Ret name"
    then show "clean name" by (rule clean_Param [OF m])
  qed (use p clean_GetChannel in \<open>auto simp: clean_parts_def\<close>)
  have d: "ensures (andThen (do_sendClient env e p) (\<lambda>p. Ret (dropClient p))) pure" if "Validate m = Some e" for e
  proof (rule ensures_andThen [OF pure_sends(1) [OF assms(3)]])
    show "clean_msg e" using that by (auto simp: Validate_def split: if_splits)
  qed (use clean_dropClient in auto)
  show ?thesis
  proof (cases "Validate m")
    case None
    then show ?thesis unfolding Some handleClientEvent_valid [OF None refl]
      by (intro ensures_if j sends) (use p m clean_dropClient in auto)
  qed (use Some d in \<open>simp add: handleClientEvent_def\<close>)
qed (use assms(3) clean_dropClient in \<open>auto simp: handleClientEvent_def\<close>)

lemma pure_server_command:
  assumes "store env = ops" and "pure p" and "clean_msg m" and "keeps m"
  shows "ensures (handle_server_command env m p) pure"
proof -
  have w: "ensures (handleWelcome env m p) pure"
    by (rule pure_same [OF assms(2) _ clean_handleWelcome])
      (use assms(2,3) welcome_logs in auto)
  have l: "ensures (andThen (Param m 0) (\<lambda>name. if P name then sendClient_or_log env m p else logMessage env m p)) pure" for P
    by (intro ensures_bind ensures_if pure_sendClient_or_log pure_logMessage assms)
  have cache: "ensures (andThen (Param m 1) (\<lambda>t. do_sendClient env m (p\<lparr>cache_yourhost := t\<rparr>))) pure"
    "ensures (andThen (Param m 1) (\<lambda>t. do_sendClient env m (p\<lparr>cache_created := t\<rparr>))) pure"
    using clean_Param [OF assms(3)] assms(2)
    by (auto intro!: ensures_bind [where r = "Param m x" for x] pure_sends(1) assms(3))
  have info: "pure (p\<lparr>cache_myinfo := tl (Params m)\<rparr>)"
    using assms(2,3) by (cases "Params m") (auto simp: clean_msg_def)
  show ?thesis unfolding handle_server_command_def
    by (intro ensures_if l w cache pure_sendClient_or_log pure_logMessage pure_sends assms info
        ensures_andThen [OF pure_sends(1)] pure_replayLog ensures_bind [where r = "Param m x" for x])
      (use assms in auto)
qed

lemma pure_server_event:
  assumes "store env = ops" and "pure p" and "\<And>m. ev = Some m \<Longrightarrow> clean_msg m \<and> keeps m"
  shows "ensures (handleServerEvent env ev p) pure"
proof (cases ev)
  case (Some m)
  with assms(3) have m: "clean_msg m" "keeps m" by auto
  have "pure (p\<lparr>server := (server p)\<lparr>Session := ss\<rparr>\<rparr>)"
    if "Session_UpdateFromServer (server_session p) m = Ret ss" for ss
    using clean_Session_update [OF that _ m(1)] assms(2) by (auto intro!: clean_server_session simp: clean_parts_def)
  with Some m assms(1,2) clean_reset show ?thesis
    by (auto simp: handleServerEvent_def intro!: ensures_bind pure_server_command)
qed (use assms(2) clean_reset in \<open>auto simp: handleServerEvent_def\<close>)

end

section \<open>A run\<close>

fun clean_event :: "event \<Rightarrow> bool" where
  "clean_event (ClientRecv (Some m)) \<longleftrightarrow> clean_msg m"
| "clean_event (ServerRecv (Some m)) \<longleftrightarrow> clean_msg m"
| "clean_event ev \<longleftrightarrow> True"

lemma clean_setup [simp]: "clean_session (Session (conn_setup h ms now c))"
  by simp

lemma clean_accept_client:
  assumes "clean_parts p" shows "clean_parts (accept_client env h p)"
proof -
  define q where "q = (dropClient p)\<lparr>tick := Suc (tick p),
    client := conn_setup h (backlog env (Suc (tick p))) (clock env (tick p)) (snd (shutdown (client p))),
    trace := trace (dropClient p) @ [Accepted h]\<rparr>"
  have q: "clean_parts q" using clean_dropClient [OF assms] by (simp add: q_def clean_parts_def)
  show ?thesis
  proof (rule accept_client_cases [where p = p and env = env and h = h, folded q_def])
    fix e assume "accept_client env h p = dropClient (q\<lparr>tick := Suc (tick q), trace := trace q @ [Dialed None]\<rparr>)"
    moreover have "clean_parts (q\<lparr>tick := Suc (tick q), trace := trace q @ [Dialed None]\<rparr>)"
      using q by (simp add: clean_parts_def)
    ultimately show ?thesis using clean_dropClient by metis
  next
    fix s assume "accept_client env h p = q\<lparr>tick := Suc (Suc (tick q)), trace := trace q @ [Dialed (Some s)],
        server := conn_setup s (backlog env (Suc (Suc (tick q)))) (clock env (Suc (tick q))) (server q)\<rparr>"
    then show ?thesis using q by (simp add: clean_parts_def)
  qed (use q in simp)
qed

lemma clean_check:
  assumes "clean_parts p"
  shows "ensures (check_client env p) clean_parts" and "ensures (check_server env p) clean_parts"
proof -
  have t: "clean_parts (p\<lparr>tick := n\<rparr>)" for n using assms by simp
  have m: "clean_msg (msg_of ''PING'' [''irc-idler''])" by simp
  have c: "clean_parts (client_update (\<lambda>c. c\<lparr>PingSent := b, DropDeadline := d\<rparr>) q)"
    and s: "clean_parts (server_update (\<lambda>c. c\<lparr>PingSent := b, DropDeadline := d\<rparr>) q)"
    if "clean_parts q" for b d and q :: "'a proxy"
    using that by (cases q; simp add: clean_parts_def)+
  show "ensures (check_client env p) clean_parts"
    using assms t clean_dropClient [OF t]
    by (auto simp: check_client_def checkTimeout_def time_Now_def
        intro!: ensures_andThen [OF clean_do_sendClient [OF t m]] c)
  show "ensures (check_server env p) clean_parts"
    using assms t clean_reset [OF t]
    by (auto simp: check_server_def checkTimeout_def time_Now_def
        intro!: ensures_andThen [OF clean_do_sendServer [OF t m]] s)
qed

context log_store begin

lemma pure_round:
  assumes "store env = ops" and "fair_order env" and "pure p" and "clean_event ev" and "kept keeps ev"
  shows "ensures (Run_step env ev p) pure"
proof (cases ev)
  case (ClientRecv m)
  have "pure (p\<lparr>tick := n, client := updateDeadlines now (client p)\<rparr>)" for n now
    using assms(3) by (simp add: clean_parts_def updateDeadlines_def)
  moreover have "\<And>m'. m = Some m' \<Longrightarrow> clean_msg m'" using assms(4) ClientRecv by auto
  ultimately show ?thesis using ClientRecv pure_client_event [OF assms(1,2)] by (auto simp: time_Now_def)
next
  case (ServerRecv m)
  have "pure (p\<lparr>tick := n, server := updateDeadlines now (server p)\<rparr>)" for n now
    using assms(3) by (simp add: clean_parts_def updateDeadlines_def)
  moreover have "\<And>m'. m = Some m' \<Longrightarrow> clean_msg m' \<and> keeps m'" using assms(4,5) ServerRecv by auto
  ultimately show ?thesis using ServerRecv pure_server_event [OF assms(1)] by (auto simp: time_Now_def)
next
  case Tick
  have "ensures (check_client env p) pure"
    using assms(3) by (intro pure_same [OF _ check_logs(1)] clean_check) auto
  moreover have "ensures (check_server env q) pure" if "pure q" for q
    using that by (intro pure_same [OF _ check_logs(2)] clean_check) auto
  ultimately show ?thesis using Tick by (auto intro!: ensures_andThen)
qed (use assms(3) clean_reset clean_accept_client in auto)

lemma pure_Run:
  "store env = ops \<Longrightarrow> fair_order env \<Longrightarrow> pure p \<Longrightarrow> list_all clean_event evs \<Longrightarrow> list_all (kept keeps) evs \<Longrightarrow>
     ensures (Run env evs p) pure"
proof (induction evs arbitrary: p)
  case (Cons ev evs)
  have "ensures (Run_step env ev p) pure" by (rule pure_round) (use Cons.prems in auto)
  then have "ensures (andThen (Run_step env ev p) (Run env evs)) pure"
    by (rule ensures_andThen) (use Cons in auto)
  moreover have "ensures (Run env evs p) pure" by (rule Cons.IH) (use Cons.prems in auto)
  moreover have "pure (reset p)" using Cons.prems(3) clean_reset by auto
  ultimately show ?case by auto
qed simp

end

lemma clean_NewProxy: "clean_parts (NewProxy st)"
  by (simp add: clean_parts_def NewProxy_def)

text \<open>The text of a clean message is one line.\<close>

lemma clean_params_text: "list_all clean ps \<Longrightarrow> clean (params_text ps)"
  by (induction ps rule: params_text.induct) (auto simp: last_param_text_def)

lemma clean_line: "clean_msg m \<Longrightarrow> String m = line_text m @ [CR, LF] \<and> LF \<notin> set (line_text m)"
  using clean_params_text [of "Params m"]
  by (auto simp: String_eq clean_msg_def line_text_def prefix_text_def clean_def [symmetric])

text \<open>The messages of a run that were read from some stream are clean.\<close>

fun read_event :: "event \<Rightarrow> bool" where
  "read_event (ClientRecv (Some m)) \<longleftrightarrow> (\<exists>inp e. m \<in> set (ReadAll (NewReader inp e)))"
| "read_event (ServerRecv (Some m)) \<longleftrightarrow> (\<exists>inp e. m \<in> set (ReadAll (NewReader inp e)))"
| "read_event ev \<longleftrightarrow> True"

lemma read_event_clean: "read_event ev \<Longrightarrow> clean_event ev"
  using clean_ReadAll by (cases ev rule: read_event.cases) (auto simp: list_all_iff)

lemma written_clean:
  assumes "clean_parts p" and "Wrote h m b \<in> set (trace p)" shows "clean_msg m"
  using assms by (auto simp: clean_parts_def list_all_iff)

end
