(* ===== verification/Proxy_Delivery.thy ===== *)
theory Proxy_Delivery
  imports Proxy_Total "HOL-Library.Sublist"
begin

text \<open>
  At least once. For a message \<open>m\<close>, count the copies of it in the log of its target and the times it
  was written successfully to a client. Nothing the daemon does lowers the sum: only a replay
  removes messages from a log, and it has written each of them before. With a store that reports
  no error every PRIVMSG or NOTICE received raises the sum, so over a whole run as many copies
  are written or in the log as were received.
\<close>

section \<open>The account of a message\<close>

text \<open>
  A transport is a client's when the daemon has accepted it. A handle stands for one transport, so
  \<open>Connect\<close> never returns one that a client came with.
\<close>

fun client_write :: "message \<Rightarrow> action set \<Rightarrow> action \<Rightarrow> bool" where
  "client_write m A (Wrote h m' ok) \<longleftrightarrow> ok \<and> m' = m \<and> Accepted h \<in> A"
| "client_write m A a \<longleftrightarrow> False"

definition to_clients :: "message \<Rightarrow> action list \<Rightarrow> nat" where
  "to_clients m tr = length (filter (client_write m (set tr)) tr)"

definition accounted :: "('s \<Rightarrow> string \<Rightarrow> message list) \<Rightarrow> message \<Rightarrow> 's proxy \<Rightarrow> nat" where
  "accounted contents m p =
     count_list (contents (messagelogs p) (Params m ! 0)) m + to_clients m (trace p)"

lemma length_filter_le: "(\<And>x. P x \<Longrightarrow> Q x) \<Longrightarrow> length (filter P xs) \<le> length (filter Q xs)"
  by (induction xs) (auto intro: le_SucI)

lemma client_write_mono: "client_write m A a \<Longrightarrow> A \<subseteq> B \<Longrightarrow> client_write m B a"
  by (cases a) auto

lemma to_clients_append: "to_clients m tr + length (filter (client_write m (set (tr @ as))) as) \<le> to_clients m (tr @ as)"
  unfolding to_clients_def filter_append length_append
  by (intro add_mono length_filter_le order_refl) (erule client_write_mono, simp)

lemma to_clients_writes:
  assumes "Accepted h \<in> set tr"
  shows "to_clients m tr + count_list ms m \<le> to_clients m (tr @ map (\<lambda>m. Wrote h m True) ms)"
proof -
  have "Accepted h \<in> A \<Longrightarrow> length (filter (client_write m A) (map (\<lambda>m. Wrote h m True) ms)) = count_list ms m" for A
    by (induction ms) auto
  with to_clients_append [of m tr "map (\<lambda>m. Wrote h m True) ms"] assms show ?thesis by simp
qed

lemma to_clients_prefix: "prefix t t' \<Longrightarrow> to_clients m t \<le> to_clients m t'"
  using to_clients_append [of m t] by (auto simp: prefix_def intro: add_leD1)

lemma accounted_mono:
  "contents (messagelogs q) = contents (messagelogs p) \<Longrightarrow> prefix (trace p) (trace q) \<Longrightarrow>
     accounted contents m p \<le> accounted contents m q"
  by (simp add: accounted_def to_clients_prefix)

section \<open>The trace only grows\<close>

lemma prefix_dropped [simp]: "prefix (trace p) (trace (dropClient p))"
  by (simp add: dropClient_def Let_def)

lemma prefix_reset [simp]: "prefix (trace p) (trace (reset p))"
  by (simp add: reset_def)

lemma prefix_accepted [simp]: "prefix (trace p) (trace (accept_client env h p))"
  by (rule accept_client_cases [where p = p and env = env and h = h])
    (auto intro: prefix_order.trans [OF prefix_dropped] prefix_order.trans [OF _ prefix_dropped])

interpretation growing: proxy_invariant "\<lambda>env p. prefix t (trace p)" for t
  by unfold_locales (auto intro: prefix_order.trans [OF _ prefix_dropped] prefix_order.trans [OF _ prefix_reset]
    prefix_order.trans [OF _ prefix_accepted])

section \<open>A client was accepted\<close>

definition known_client :: "'s proxy \<Rightarrow> bool" where
  "known_client p \<longleftrightarrow> (\<forall>h. rwc (client p) = Some h \<longrightarrow> Accepted h \<in> set (trace p))"

lemma rwc_shutdown_cases: "rwc (snd (shutdown c)) = Some h \<Longrightarrow> rwc c = Some h"
  by (auto simp: shutdown_def split: if_splits)

lemma known_dropped: "known_client p \<Longrightarrow> known_client (dropClient p)"
  using set_mono_prefix [OF prefix_dropped [of p]] by (auto simp: known_client_def dest: rwc_shutdown_cases)

lemma known_reset: "known_client p \<Longrightarrow> known_client (reset p)"
  using set_mono_prefix [OF prefix_reset [of p]] by (auto simp: known_client_def dest: rwc_shutdown_cases)

lemma known_accepted: "known_client (accept_client env h p)"
  by (rule accept_client_cases [where p = p and env = env and h = h])
    (simp_all add: known_client_def shutdown_def)

interpretation clients: proxy_invariant "\<lambda>env. known_client"
  by unfold_locales (simp_all add: known_dropped known_reset known_accepted, simp_all add: known_client_def)

section \<open>No account is lowered\<close>

context log_store begin

definition account :: "nat \<Rightarrow> message \<Rightarrow> ('s, 'c) env \<Rightarrow> 's proxy \<Rightarrow> bool" where
  "account K m env p \<longleftrightarrow>
     store env = ops \<and> inv (messagelogs p) \<and> known_client p \<and> K \<le> accounted contents m p"

lemma account_step:
  "account K m env p \<Longrightarrow> inv (messagelogs q) \<Longrightarrow> contents (messagelogs q) = contents (messagelogs p) \<Longrightarrow>
     prefix (trace p) (trace q) \<Longrightarrow> known_client q \<Longrightarrow> account K m env q"
  using accounted_mono [of contents q p m] by (simp add: account_def)

text \<open>A replay moves the messages of a log into the trace.\<close>

lemma account_replayLog:
  assumes "account K m env p" shows "ensures (replayLog env name p) (account K m env)"
proof -
  from assms have s: "store env = ops" "inv (messagelogs p)" and c: "known_client p" by (simp_all add: account_def)
  have "ensures (replayLog env name p) known_client"
    "ensures (replayLog env name p) (\<lambda>q. prefix (trace p) (trace q))"
    using c by (simp_all add: clients.keep_replayLog growing.keep_replayLog)
  with replayLog_all_or_nothing [OF s, of name] show ?thesis
  proof (auto simp: ensures_def)
    fix q assume q: "known_client q" "prefix (trace p) (trace q)" "inv (messagelogs q)"
    show "contents (messagelogs q) = contents (messagelogs p) \<Longrightarrow> account K m env q"
      using account_step [OF assms q(3) _ q(2,1)] .
    assume d: "contents (messagelogs q) = (contents (messagelogs p))(name := [])"
      "delivered p q (contents (messagelogs p) name)"
    have "accounted contents m p \<le> accounted contents m q"
    proof (cases "contents (messagelogs p) name = []")
      case True
      with d(1) have "contents (messagelogs q) = contents (messagelogs p)" by (simp add: fun_upd_idem)
      then show ?thesis using q(2) by (rule accounted_mono)
    next
      case False
      with d(2) obtain h where h: "rwc (client p) = Some h"
        "trace q = trace p @ map (\<lambda>m. Wrote h m True) (contents (messagelogs p) name)"
        by (auto simp: delivered_def)
      with c have "Accepted h \<in> set (trace p)" by (simp add: known_client_def)
      from to_clients_writes [OF this, of m "contents (messagelogs p) name"] h(2) d(1) q(2) show ?thesis by (auto simp: accounted_def to_clients_prefix add.commute)
    qed
    with assms q show "account K m env q" by (simp add: account_def)
  qed
qed

lemma account_logMessage:
  assumes "account K m env p" and "keeps x" shows "ensures (logMessage env x p) (account K m env)"
proof -
  from assms have s: "store env = ops" "inv (messagelogs p)" by (simp_all add: account_def)
  show ?thesis
  proof (rule ensures_mono [OF logMessage_contents [OF s assms(2)]])
    fix q assume "\<exists>s. q = p\<lparr>messagelogs := s\<rparr> \<and> inv s \<and> (contents s = contents (messagelogs p)
      \<or> Command x \<in> set logged_commands
        \<and> contents s = (contents (messagelogs p))(Params x ! 0 := contents (messagelogs p) (Params x ! 0) @ [x]))"
    then show "account K m env q" using assms(1) by (auto simp: account_def accounted_def known_client_def)
  qed
qed

end

sublocale log_store \<subseteq> accounts: handler_invariant "account K m" keeps for K m
proof unfold_locales
  fix env :: "('s, 'c) env" and p :: "'s proxy" and name
  assume a: "account K m env p"
  then have k: "inv (messagelogs p)" "known_client p" by (simp_all add: account_def)
  show "account K m env (dropClient p)" "account K m env (reset p)" "account K m env (accept_client env h p)" for h
    using account_step [OF a] k by (simp_all add: known_dropped known_reset known_accepted)
  show "ensures (replayLog env name p) (account K m env)" by (rule account_replayLog [OF a])
  show "account K m env (p\<lparr>trace := trace p @ [Wrote h x b]\<rparr>)" for h x b
    using k by (intro account_step [OF a]) (auto simp: known_client_def)
  fix x assume "keeps x"
  with a show "ensures (logMessage env x p) (account K m env)" by (rule account_logMessage)
qed (simp_all add: account_def accounted_def known_client_def)

section \<open>A message received is accounted for\<close>

text \<open>How often a run receives \<open>m\<close> from the server.\<close>

fun copies_received :: "('s, 'c) env \<Rightarrow> message \<Rightarrow> event list \<Rightarrow> 's proxy \<Rightarrow> nat" where
  "copies_received env m [] p = 0"
| "copies_received env m (ev # evs) p =
     (if ev = StopEvent then 0
      else if enabled ev p then
        (if ev = ServerRecv (Some m) then 1 else 0)
        + (case Run_step env ev p of Ret q \<Rightarrow> copies_received env m evs q | Fail f \<Rightarrow> 0)
      else copies_received env m evs p)"

text \<open>The messages for the user.\<close>

definition for_user :: "message \<Rightarrow> bool" where
  "for_user m \<longleftrightarrow> Validate m = None \<and> Command m \<in> {''PRIVMSG'', ''NOTICE''}"

context reliable_store begin

lemma account_received:
  assumes "account K m env p" and "keeps m" and "for_user m"
  shows "ensures (Run_step env (ServerRecv (Some m)) p) (account (Suc K) m env)"
proof -
  define q where "q = p\<lparr>tick := Suc (tick p), server := updateDeadlines (clock env (tick p)) (server p)\<rparr>"
  have r: "Run_step env (ServerRecv (Some m)) p = handleServerEvent env (Some m) q"
    by (simp add: q_def time_Now_def)
  have q: "store env = ops" "inv (messagelogs q)" "known_client q" "K \<le> accounted contents m q"
    using assms(1) by (simp_all add: q_def account_def accounted_def known_client_def)
  from server_message_not_lost [OF q(1,2) assms(2)] assms(3) obtain q' where
    q': "handleServerEvent env (Some m) q = Ret q'" "inv (messagelogs q')"
    and or: "(\<exists>h. rwc (client q) = Some h \<and> trace q' = trace q @ [Wrote h m True]
           \<and> contents (messagelogs q') = contents (messagelogs q))
      \<or> contents (messagelogs q') =
          (contents (messagelogs q))(Params m ! 0 := contents (messagelogs q) (Params m ! 0) @ [m])"
    by (auto simp: for_user_def)
  have k: "known_client q'"
    using ensuresD [OF clients.handlers.keep_server_event [where env = env and p = q] q'(1)] q(3) by simp
  have g: "to_clients m (trace q) \<le> to_clients m (trace q')"
    using ensuresD [OF growing.handlers.keep_server_event [where env = env and p = q and t = "trace q"] q'(1)]
    by (simp add: to_clients_prefix)
  from or have "Suc K \<le> accounted contents m q'"
  proof (elim disjE exE conjE)
    fix h assume h: "rwc (client q) = Some h" "trace q' = trace q @ [Wrote h m True]"
      "contents (messagelogs q') = contents (messagelogs q)"
    with q(3) have "Accepted h \<in> set (trace q)" by (simp add: known_client_def)
    from to_clients_writes [OF this, of m "[m]"] h q(4) show ?thesis by (simp add: accounted_def)
  qed (use g q(4) in \<open>simp add: accounted_def\<close>)
  with r q q' k show ?thesis by (simp add: account_def)
qed

lemma account_Run:
  "account K m env p \<Longrightarrow> list_all (kept keeps) evs \<Longrightarrow> keeps m \<Longrightarrow> for_user m \<Longrightarrow> Run env evs p = Ret q \<Longrightarrow>
     account (K + copies_received env m evs p) m env q"
proof (induction evs arbitrary: K p)
  case (Cons ev evs)
  show ?case
  proof (cases "ev \<noteq> StopEvent \<and> enabled ev p")
    case True
    with Cons.prems(5) obtain p1 where p1: "Run_step env ev p = Ret p1" "Run env evs p1 = Ret q"
      by (auto simp: andThen_Ret_iff)
    have "account (K + (if ev = ServerRecv (Some m) then 1 else 0)) m env p1"
      using ensuresD [OF accounts.keep_round [OF Cons.prems(1), of ev] p1(1)]
        ensuresD [OF account_received [OF Cons.prems(1,3,4)], of p1] Cons.prems(2) p1(1) by auto
    from Cons.IH [OF this _ Cons.prems(3,4) p1(2)] Cons.prems(2) p1(1) True show ?thesis by (simp add: add.assoc)
  next
    case False
    with Cons show ?thesis using accounts.reset by (cases "ev = StopEvent") auto
  qed
qed simp

text \<open>From the start of the daemon.\<close>

lemma run_accounts:
  assumes "store env = ops" and "inv st" and "list_all (kept keeps) evs" and "keeps m" and "for_user m"
    and "Run env evs (NewProxy st) = Ret q"
  shows "count_list (contents st (Params m ! 0)) m + copies_received env m evs (NewProxy st)
    \<le> count_list (contents (messagelogs q) (Params m ! 0)) m + to_clients m (trace q)"
proof -
  have "account (count_list (contents st (Params m ! 0)) m) m env (NewProxy st)"
    using assms(1,2) by (simp add: account_def accounted_def known_client_def NewProxy_def)
  from account_Run [OF this assms(3-6)] show ?thesis by (simp add: account_def accounted_def)
qed

end

end
