(* ===== verification/Proxy_Presence.thy ===== *)
theory Proxy_Presence
  imports Proxy_Delivery
begin

text \<open>
  What the daemon knows of the server's side is what it was told. \<open>presence\<close> is the user's identity
  and the roster of the server's session; \<open>told\<close> says how a message of the server changes it. Over
  a whole run the presence is the fold of \<open>told\<close> over the messages received since the last dial.
\<close>

section \<open>What the server says\<close>

type_synonym presence = "client_id \<times> roster"

definition presence :: "session \<Rightarrow> presence" where
  "presence s = (ClientID s, roster_of (channels s))"

text \<open>The user's own KICK or PART ends a channel, the own NICK changes the nick, and the welcome names
  the whole identity.\<close>

definition told :: "message \<Rightarrow> presence \<Rightarrow> presence" where
  "told m x =
     (let (me, r) = x; r = roster_step r m in
      if Command m = RPL_WELCOME then
        (case ParseClientID (last (split_on SP (Params m ! 1))) of Inl _ \<Rightarrow> (me, r) | Inr i \<Rightarrow> (i, r))
      else if prefix_nick m = {Nick me} then
        if Command m = ''KICK'' \<or> Command m = ''PART'' then (me, r(Params m ! 0 := None))
        else if Command m = ''NICK'' then (me\<lparr>Nick := Params m ! 0\<rparr>, r)
        else (me, r)
      else (me, r))"

definition nobody :: presence where
  "nobody = (no_client_id, Map.empty)"

lemma presence_NewSession: "presence NewSession = nobody"
  by (simp add: presence_def NewSession_def nobody_def roster_of_def fun_eq_iff)

lemma IsMe_prefix: "IsMe s (Prefix m) \<longleftrightarrow> prefix_nick m = {Nick (ClientID s)}"
  by (auto simp: IsMe_def prefix_nick_def split: sum.split)

lemma roster_DeleteChannel: "roster_of (DeleteChannel chans name) = (roster_of chans)(name := None)"
  by (auto simp: DeleteChannel_def roster_of_def map_simps fun_eq_iff)

lemma presence_told:
  assumes "Session_UpdateFromServer s m = Ret s'" and "Command m \<noteq> RPL_WELCOME"
  shows "presence s' = told m (presence s)"
proof -
  obtain chans where c: "Channels_UpdateFromServer (channels s) m = Ret chans"
    using assms(1) by (auto simp: Session_UpdateFromServer_def Let_def andThen_Ret_iff)
  define s1 where "s1 = s\<lparr>Handshake := Handshake_UpdateFromServer (Handshake s) m, channels := chans\<rparr>"
  have me: "IsMe s1 (Prefix m) = IsMe s (Prefix m)" by (simp add: IsMe_prefix s1_def)
  have u: "(if IsMe s1 (Prefix m) then
      if Command m = ''KICK'' \<or> Command m = ''PART'' then
        andThen (Param m 0) (\<lambda>name. Ret (s1\<lparr>channels := DeleteChannel (channels s1) name\<rparr>))
      else if Command m = ''NICK'' then
        andThen (Param m 0) (\<lambda>nick. Ret (s1\<lparr>ClientID := (ClientID s1)\<lparr>Nick := nick\<rparr>\<rparr>))
      else Ret s1 else Ret s1) = Ret s'"
    using assms(1) c unfolding Session_UpdateFromServer_def Let_def s1_def by simp
  have p: "presence s1 = (ClientID s, roster_step (roster_of (channels s)) m)"
    using roster_refines [OF c] by (simp add: presence_def s1_def)
  show ?thesis
  proof (cases "IsMe s (Prefix m)")
    case True
    then have by_me: "prefix_nick m = {Nick (ClientID s)}" by (simp add: IsMe_prefix)
    have sel: "ClientID s1 = ClientID s" "channels s1 = chans" by (simp_all add: s1_def)
    have name: "Param m 0 = Ret x \<Longrightarrow> x = Params m ! 0" for x by (simp add: Param_def split: if_splits)
    consider (ends) "Command m = ''KICK'' \<or> Command m = ''PART''" | (named) "Command m = ''NICK''"
      | (rest) "\<not> (Command m = ''KICK'' \<or> Command m = ''PART'')" "Command m \<noteq> ''NICK''" by blast
    then show ?thesis
    proof cases
      case ends
      with u True me obtain x where "Param m 0 = Ret x" "s' = s1\<lparr>channels := DeleteChannel chans x\<rparr>"
        by (auto simp: andThen_Ret_iff sel)
      with name p ends by_me assms(2) show ?thesis
        by (auto simp: told_def presence_def Let_def roster_DeleteChannel sel)
    next
      case named
      with u True me obtain x where "Param m 0 = Ret x" "s' = s1\<lparr>ClientID := (ClientID s)\<lparr>Nick := x\<rparr>\<rparr>"
        by (auto simp: andThen_Ret_iff sel)
      with name p named by_me assms(2) show ?thesis
        by (auto simp: told_def presence_def Let_def sel)
    next
      case rest
      with u True me have "s' = s1" by simp
      with p rest by_me assms(2) show ?thesis by (simp add: told_def presence_def Let_def)
    qed
  next
    case False
    with u me p assms(2) show ?thesis by (simp add: told_def presence_def IsMe_prefix Let_def)
  qed
qed

lemma presence_welcome:
  assumes "Session_UpdateFromServer s m = Ret s'" and "Command m = RPL_WELCOME"
  shows "presence s' = presence s" and "told m (me, r) =
    (case ParseClientID (last (split_on SP (Params m ! 1))) of Inl _ \<Rightarrow> (me, r) | Inr i \<Rightarrow> (i, r))"
  using assms by (auto simp: Session_UpdateFromServer_def Channels_UpdateFromServer_def Let_def andThen_Ret_iff
      presence_def told_def roster_step_def split: sum.split if_splits)

section \<open>What a round does with it\<close>

text \<open>Relative to a trace \<open>t\<close>: no dial since, and the server is closed or known as \<open>x\<close>.\<close>

fun is_dial :: "action \<Rightarrow> bool" where
  "is_dial (Dialed (Some h)) \<longleftrightarrow> True"
| "is_dial a \<longleftrightarrow> False"

definition no_dial :: "action list \<Rightarrow> bool" where
  "no_dial as \<longleftrightarrow> list_all (\<lambda>a. \<not> is_dial a) as"

definition knows :: "action list \<Rightarrow> presence \<Rightarrow> 's proxy \<Rightarrow> bool" where
  "knows t x p \<longleftrightarrow> (\<exists>as. trace p = t @ as \<and> no_dial as)
     \<and> (IsClosed (server p) \<or> presence (server_session p) = x)"

lemma no_dial_simps [simp]:
  "no_dial []" "no_dial (as @ bs) \<longleftrightarrow> no_dial as \<and> no_dial bs"
  "no_dial (Wrote h m b # as) = no_dial as" "no_dial (Closed h # as) = no_dial as"
  "no_dial (Drained h ms # as) = no_dial as" "no_dial (Accepted h # as) = no_dial as"
  "no_dial (Dialed None # as) = no_dial as" "no_dial (Dialed (Some h) # as) \<longleftrightarrow> False"
  by (auto simp: no_dial_def)

lemma no_dial_shutdown [simp]: "no_dial (fst (shutdown c))"
  by (simp add: shutdown_def)

lemma knows_more:
  assumes "knows t x p" and "trace q = trace p @ as" and "no_dial as"
    and "IsClosed (server q) \<or> server q = server p"
  shows "knows t x q"
  using assms by (auto simp: knows_def)

lemma knows_dropClient: "knows t x p \<Longrightarrow> knows t x (dropClient p)"
  by (auto simp: knows_def dropClient_def Let_def)

lemma knows_reset: "knows t x p \<Longrightarrow> knows t x (reset p)"
  by (auto simp: knows_def reset_def)

interpretation knowing: storing_invariant "\<lambda>env. knows t x" for t x
proof unfold_locales
  show "knows t x (p\<lparr>server := c\<rparr>)"
    if "knows t x p" "rwc c = rwc (server p)" "chan c = chan (server p)" "ClientID (Session c) = ClientID (server_session p)"
      "channels (Session c) = channels (server_session p)" for p :: "'s proxy" and c
    using that IsClosed_cong [of c "server p"] by (auto simp: knows_def presence_def)
qed (simp_all add: knows_dropClient knows_reset, auto simp: knows_def)

lemma knows_named:
  assumes "knows t (me, r) p" shows "knows t (i, r) (p\<lparr>server := set_ClientID i (server p)\<rparr>)"
  using assms by (auto simp: knows_def set_ClientID_def presence_def)

lemma knows_welcome:
  assumes k: "knows t (me, r) p" and w: "Command m = RPL_WELCOME"
  shows "ensures (handleWelcome env m p) (knows t (told m (me, r)))"
proof -
  have p1: "knows t (me, r) (p\<lparr>serverPrefix := Prefix m\<rparr>)" using k by (rule knowing.keep_caches)
  have "ensures (andThen (sendClient env m q) (\<lambda>(err, p).
      if err = None then Ret (p\<lparr>client := set_ClientID i (client p)\<rparr>) else Ret p)) (knows t (i, r))"
    if "knows t (i, r) q" for q :: "'a proxy" and i
    by (rule ensures_andThen [OF knowing.keep_sendClient [OF that]])
      (auto simp: set_ClientID_def intro!: knowing.keep_client_session)
  with knows_named [OF p1] knows_reset [OF p1] show ?thesis
    using w unfolding handleWelcome_def Let_def Param_def
    by (auto simp: told_def roster_step_def Let_def split: sum.split)
qed

lemma knows_server_event:
  assumes k: "knows t x p"
  shows "ensures (handleServerEvent env (Some m) p) (knows t (told m x))"
proof -
  have r: "knows t y (reset p)" for y using knows_reset [OF k] by (simp add: knows_def)
  obtain me ro where x: "x = (me, ro)" by force
  have "ensures (handle_server_command env m (p\<lparr>server := (server p)\<lparr>Session := ss\<rparr>\<rparr>)) (knows t (told m x))"
    if u: "Session_UpdateFromServer (server_session p) m = Ret ss" for ss
  proof (cases "Command m = RPL_WELCOME")
    case True
    have "knows t x (p\<lparr>server := (server p)\<lparr>Session := ss\<rparr>\<rparr>)"
      using k presence_welcome(1) [OF u True] by (simp add: knows_def)
    then show ?thesis using True knows_welcome unfolding x by (simp add: handle_welcome_command)
  next
    case False
    have "knows t (told m x) (p\<lparr>server := (server p)\<lparr>Session := ss\<rparr>\<rparr>)"
      using k presence_told [OF u False] by (auto simp: knows_def)
    with False show ?thesis by (intro knowing.logging.keep_other_command) simp_all
  qed
  with r show ?thesis by (auto simp: handleServerEvent_def intro!: ensures_bind)
qed

text \<open>A new client: the server is as before and was not dialled, or it is closed, or fresh.\<close>

lemma knows_accepted:
  assumes "knows t x p"
  shows "knows t x (accept_client env h p)
    \<or> (\<exists>as. trace (accept_client env h p) = t @ as \<and> \<not> no_dial as)
      \<and> presence (server_session (accept_client env h p)) = nobody"
proof -
  define q where "q = (dropClient p)\<lparr>tick := Suc (tick p),
    client := conn_setup h (backlog env (Suc (tick p))) (clock env (tick p)) (snd (shutdown (client p))),
    trace := trace (dropClient p) @ [Accepted h]\<rparr>"
  have q: "knows t x q" using knows_dropClient [OF assms] by (auto simp: knows_def q_def)
  show ?thesis
  proof (rule accept_client_cases [where p = p and env = env and h = h, folded q_def])
    fix e assume a: "accept_client env h p = dropClient (q\<lparr>tick := Suc (tick q), trace := trace q @ [Dialed None]\<rparr>)"
    have "knows t x (q\<lparr>tick := Suc (tick q), trace := trace q @ [Dialed None]\<rparr>)"
      using q by (rule knows_more [where as = "[Dialed None]"]) simp_all
    with a show ?thesis by (simp add: knows_dropClient)
  next
    fix s assume a: "accept_client env h p = q\<lparr>tick := Suc (Suc (tick q)), trace := trace q @ [Dialed (Some s)],
        server := conn_setup s (backlog env (Suc (Suc (tick q)))) (clock env (Suc (tick q))) (server q)\<rparr>"
    from q obtain as where "trace q = t @ as" by (auto simp: knows_def)
    with a show ?thesis by (intro disjI2) (auto simp: presence_NewSession)
  qed (use q in simp)
qed

section \<open>A run\<close>

text \<open>The messages of the server that were received since the last dial, after one round and after a run.\<close>

definition heard_in_round :: "event \<Rightarrow> 's proxy \<Rightarrow> 's proxy \<Rightarrow> message list \<Rightarrow> message list" where
  "heard_in_round ev p p' ms =
     (if \<not> no_dial (drop (length (trace p)) (trace p')) then []
      else case ev of ServerRecv (Some m) \<Rightarrow> ms @ [m] | _ \<Rightarrow> ms)"

fun heard :: "('s, 'c) env \<Rightarrow> event list \<Rightarrow> 's proxy \<Rightarrow> message list \<Rightarrow> message list" where
  "heard env [] p ms = ms"
| "heard env (ev # evs) p ms =
     (if ev \<noteq> StopEvent \<and> \<not> enabled ev p then heard env evs p ms
      else case Run_step env ev p of
             Ret p' \<Rightarrow> if ev = StopEvent then heard_in_round ev p p' ms
                       else heard env evs p' (heard_in_round ev p p' ms)
           | Fail f \<Rightarrow> ms)"

definition up_to_date :: "message list \<Rightarrow> 's proxy \<Rightarrow> bool" where
  "up_to_date ms p \<longleftrightarrow> IsClosed (server p) \<or> presence (server_session p) = fold told ms nobody"

lemma knows_up_to_date:
  assumes "knows (trace p) x p'" and "x = fold told (case ev of ServerRecv (Some m) \<Rightarrow> ms @ [m] | _ \<Rightarrow> ms) nobody"
  shows "up_to_date (heard_in_round ev p p' ms) p'"
  using assms by (auto simp: knows_def up_to_date_def heard_in_round_def)

lemma up_to_date_round:
  assumes u: "up_to_date ms p" and r: "Run_step env ev p = Ret p'"
  shows "up_to_date (heard_in_round ev p p' ms) p'"
proof -
  let ?x = "fold told ms nobody"
  have k: "knows (trace p) ?x p" using u by (simp add: knows_def up_to_date_def)
  show ?thesis
  proof (cases ev)
    case StopEvent
    then show ?thesis using r knows_reset [OF k] by (intro knows_up_to_date) auto
  next
    case (ClientRecv m)
    then show ?thesis
      using ensuresD [OF knowing.logging.keep_client_round [OF k]] r by (intro knows_up_to_date) auto
  next
    case (ServerRecv mo)
    note s = knowing.logging.keep_server_received [OF k]
    show ?thesis
    proof (cases mo)
      case None
      then show ?thesis using ServerRecv r knows_reset [OF s]
        by (intro knows_up_to_date) (auto simp: time_Now_def handleServerEvent_def)
    next
      case (Some m)
      then show ?thesis using ServerRecv r ensuresD [OF knows_server_event [OF s]]
        by (intro knows_up_to_date) (auto simp: time_Now_def)
    qed
  next
    case Tick
    then show ?thesis
      using ensuresD [OF knowing.logging.keep_tick_round [OF k]] r by (intro knows_up_to_date) auto
  next
    case (ClientConn h)
    from knows_accepted [OF k, of env h] show ?thesis
    proof
      assume "knows (trace p) ?x (accept_client env h p)"
      then show ?thesis using ClientConn r by (intro knows_up_to_date) auto
    next
      assume "(\<exists>as. trace (accept_client env h p) = trace p @ as \<and> \<not> no_dial as)
        \<and> presence (server_session (accept_client env h p)) = nobody"
      then show ?thesis using ClientConn r by (auto simp: up_to_date_def heard_in_round_def)
    qed
  qed
qed

lemma Run_up_to_date:
  "up_to_date ms p \<Longrightarrow> Run env evs p = Ret p' \<Longrightarrow> up_to_date (heard env evs p ms) p'"
proof (induction evs arbitrary: p ms)
  case (Cons ev evs)
  then show ?case using up_to_date_round [of ms p env ev]
    by (auto simp: andThen_Ret_iff split: if_splits simp del: Run_step.simps)
qed simp

lemma Run_presence:
  assumes "Run env evs (NewProxy st) = Ret p" and "\<not> IsClosed (server p)"
  shows "presence (server_session p) = fold told (heard env evs (NewProxy st) []) nobody"
proof -
  have "up_to_date [] (NewProxy st)" by (simp add: up_to_date_def NewProxy_def)
  from Run_up_to_date [OF this assms(1)] assms(2) show ?thesis by (simp add: up_to_date_def)
qed

end
