(* ===== verification/Sandstorm_Delivery.thy ===== *)
theory Sandstorm_Delivery
  imports Sandstorm_Network Proxy_Delivery
begin

text \<open>
  At least once, for the whole app: the account of \<open>Proxy_Delivery\<close>, with the writes of all daemons
  added up, is not lowered by any step of the process: not by a round of a daemon, nor by one that is
  stopped and reset, nor by one that is started. So what the daemons receive over all restarts has been
  written to clients or is in the logs.
\<close>

section \<open>The account of the process\<close>

definition daemon_writes :: "message \<Rightarrow> 's daemon_state option \<Rightarrow> nat" where
  "daemon_writes m d = (case d of None \<Rightarrow> 0 | Some d \<Rightarrow> to_clients m (trace (d_proxy d)))"

definition process_total :: "('s \<Rightarrow> string \<Rightarrow> message list) \<Rightarrow> message \<Rightarrow> 's process \<Rightarrow> nat" where
  "process_total contents m s =
     count_list (contents (shared_logs s) (Params m ! 0)) m
     + (\<Sum>k<next_daemon (app s). daemon_writes m (daemons s k))"

lemma total_round:
  assumes "k < next_daemon (app s)" and "daemons s k = Some d0" and "d_proxy d0 = d_proxy d"
    and "accounted contents m ((d_proxy d)\<lparr>messagelogs := shared_logs s\<rparr>) + j \<le> accounted contents m p"
  shows "process_total contents m s + j \<le>
    process_total contents m (s\<lparr>shared_logs := messagelogs p, daemons := (daemons s)(k \<mapsto> d\<lparr>d_proxy := p\<rparr>)\<rparr>)"
proof -
  have rest: "(\<Sum>i<n. f i) = f k + (\<Sum>i\<in>{..<n} - {k}. f i)" if "k < n" for n and f :: "nat \<Rightarrow> nat"
    using that by (intro sum.remove) auto
  have "(\<Sum>i\<in>{..<n} - {k}. daemon_writes m (((daemons s)(k \<mapsto> x)) i)) = (\<Sum>i\<in>{..<n} - {k}. daemon_writes m (daemons s i))"
    for n x by (intro sum.cong) auto
  with assms show ?thesis
    by (simp add: process_total_def accounted_def daemon_writes_def rest del: fun_upd_apply) (simp add: daemon_writes_def)
qed

interpretation known_daemons: daemon_invariant "\<lambda>env. known_client"
  by unfold_locales (simp_all add: known_client_def NewProxy_def)

text \<open>Daemons are numbered by the loop.\<close>

definition numbered :: "'s process \<Rightarrow> bool" where
  "numbered s \<longleftrightarrow> dom (daemons s) \<subseteq> {..<next_daemon (app s)}"

lemma total_more_daemons:
  assumes "numbered s" and "next_daemon (app s) \<le> next_daemon st"
  shows "process_total contents m (s\<lparr>app := st\<rparr>) = process_total contents m s"
proof -
  have "(\<Sum>k<next_daemon st. daemon_writes m (daemons s k)) = (\<Sum>k<next_daemon (app s). daemon_writes m (daemons s k))"
    using assms by (intro sum.mono_neutral_right) (auto simp: numbered_def daemon_writes_def split: option.split)
  then show ?thesis by (simp add: process_total_def)
qed

definition started :: "main_action list \<Rightarrow> nat list" where
  "started acts = [k. StartedDaemon k net dc \<leftarrow> acts]"

lemma started_Cons: "started (act # acts) = started [act] @ started acts"
  by (simp add: started_def)

context log_store begin

text \<open>What a step of the process keeps; it lowers no total.\<close>

definition steady :: "('s, 'c) daemon_env \<Rightarrow> 's process \<Rightarrow> bool" where
  "steady denv s \<longleftrightarrow> inv (shared_logs s) \<and> numbered s \<and> known_daemons.everywhere denv s"

lemma round_total:
  assumes "all_daemons ops n denv" and "steady denv s" and "daemons s k = Some d0" and "d_proxy d0 = d_proxy d"
    and "kept keeps ev" and "daemon_round denv k ev d s = Ret s'"
  shows "steady denv s' \<and> process_total contents m s \<le> process_total contents m s' \<and> app s' = app s"
proof -
  let ?env = "denv k (d_network d) (d_connector d)" and ?p = "(d_proxy d)\<lparr>messagelogs := shared_logs s\<rparr>"
  obtain p where p: "Run_step ?env ev ?p = Ret p"
    "s' = s\<lparr>shared_logs := messagelogs p, daemons := (daemons s)(k \<mapsto> d\<lparr>d_proxy := p\<rparr>)\<rparr>"
    using assms(6) by (auto simp: daemon_round_def elim: andThen.elims)
  have e: "store ?env = ops" using assms(1) by (simp add: all_daemons_def)
  have "known_client (d_proxy d0)" using assms(2,3) by (auto simp: steady_def known_daemons.everywhere_def)
  with assms(4) have c: "known_client ?p" "known_client (d_proxy d)" by (simp_all add: known_client_def)
  have "account (accounted contents m ?p) m ?env ?p"
    using assms(2) e c(1) by (simp add: account_def steady_def)
  from ensuresD [OF accounts.keep_round [OF this assms(5)] p(1)]
  have a: "inv (messagelogs p)" "accounted contents m ?p \<le> accounted contents m p" by (simp_all add: account_def)
  have k: "k < next_daemon (app s)" using assms(2,3) by (auto simp: steady_def numbered_def)
  have "known_daemons.everywhere denv s'"
    using assms(2) c(2) by (intro known_daemons.daemon_round_everywhere [OF _ _ assms(6)]) (simp_all add: steady_def)
  with total_round [OF k assms(3,4), of contents m 0 p] a p(2) k assms(2) show ?thesis
    by (auto simp: steady_def numbered_def)
qed

text \<open>An action of the loop; the daemons it starts are new.\<close>

lemma perform_total:
  assumes "all_daemons ops n denv" and "steady denv s"
    and "set (started [act]) \<subseteq> {..<next_daemon (app s)} - dom (daemons s)" and "perform denv act s = Ret s'"
  shows "steady denv s' \<and> process_total contents m s \<le> process_total contents m s' \<and> app s' = app s
    \<and> dom (daemons s') = dom (daemons s) \<union> set (started [act])"
proof -
  have e: "known_daemons.everywhere denv s'"
    using known_daemons.perform_everywhere [OF _ assms(4)] assms(2) by (simp add: steady_def)
  have same: "process_total contents m (s\<lparr>daemons := (daemons s)(k := x)\<rparr>) = process_total contents m s"
    if "daemon_writes m x = daemon_writes m (daemons s k)" for k x
    using that unfolding process_total_def by (auto intro!: sum.cong)
  show ?thesis
  proof (cases act)
    case (StoppedDaemon k)
    with assms(4) obtain d where "daemons s k = Some d" "s' = s\<lparr>daemons := (daemons s)(k \<mapsto> d\<lparr>d_phase := Stopping\<rparr>)\<rparr>"
      by (auto simp: Proxy_Stop_def split: option.splits if_splits)
    with same [of "Some (d\<lparr>d_phase := Stopping\<rparr>)" k] e assms(2) StoppedDaemon show ?thesis
      by (auto simp: steady_def numbered_def daemon_writes_def started_def)
  next
    case (StartedDaemon k net dc)
    let ?d = "\<lparr>d_phase = Running, d_network = net, d_connector = dc, d_proxy = NewProxy (shared_logs s)\<rparr>"
    from StartedDaemon assms(3,4) have k: "daemons s k = None" "k < next_daemon (app s)"
      "s' = s\<lparr>daemons := (daemons s)(k \<mapsto> ?d)\<rparr>" by (auto simp: started_def)
    then show ?thesis using same [of "Some ?d" k] e assms(2) StartedDaemon
      by (auto simp: steady_def numbered_def daemon_writes_def NewProxy_def to_clients_def started_def)
  next
    case (SentConn k conn)
    with assms(4) obtain d where d: "daemons s k = Some d" "daemon_round denv k (ClientConn conn) d s = Ret s'"
      by (auto split: option.splits if_splits)
    then have "dom (daemons s') = dom (daemons s)" by (auto simp: daemon_round_def split: if_splits)
    with round_total [OF assms(1,2) d(1) refl _ d(2)] SentConn show ?thesis by (simp add: started_def)
  qed (use assms(2,4) in \<open>auto simp: started_def\<close>)
qed

lemma perform_all_total:
  "all_daemons ops n denv \<Longrightarrow> steady denv s \<Longrightarrow> distinct (started acts) \<Longrightarrow>
   set (started acts) \<subseteq> {..<next_daemon (app s)} - dom (daemons s) \<Longrightarrow> perform_all denv acts s = Ret s' \<Longrightarrow>
     steady denv s' \<and> process_total contents m s \<le> process_total contents m s'"
proof (induction acts arbitrary: s)
  case (Cons act acts)
  from Cons.prems(5) obtain s1 where s1: "perform denv act s = Ret s1" "perform_all denv acts s1 = Ret s'"
    by (auto simp: andThen_Ret_iff)
  note c = started_Cons [of act acts]
  have sub: "set (started [act]) \<subseteq> {..<next_daemon (app s)} - dom (daemons s)"
    using Cons.prems(4) by (simp add: c)
  note p = perform_total [OF Cons.prems(1,2) sub s1(1), of m]
  have "distinct (started acts)" "set (started acts) \<subseteq> {..<next_daemon (app s1)} - dom (daemons s1)"
    using Cons.prems(3,4) p by (auto simp: c)
  from Cons.IH [OF Cons.prems(1) _ this s1(2)] p show ?case by linarith
qed simp

lemma main_step_total:
  assumes "all_daemons ops n denv" and "steady denv s" and "main_step menv denv ev s = Ret s'"
  shows "steady denv s' \<and> process_total contents m s \<le> process_total contents m s'"
proof -
  from assms(3) obtain st where st: "main_round menv ev (app s) = Ret st"
    "perform_all denv (drop (length (actions (app s))) (actions st)) (s\<lparr>app := st\<rparr>) = Ret s'"
    by (auto simp: main_step_def andThen_Ret_iff)
  from main_round_actions [OF st(1)] obtain acts where a: "actions st = actions (app s) @ acts"
    "started acts = [next_daemon (app s) ..< next_daemon st]" "next_daemon (app s) \<le> next_daemon st"
    unfolding started_def by blast
  have n: "numbered s" using assms(2) by (simp add: steady_def)
  have "steady denv (s\<lparr>app := st\<rparr>)"
    using assms(2) a(3) by (auto simp: steady_def numbered_def known_daemons.everywhere_def)
  moreover have "set (started acts) \<subseteq> {..<next_daemon st} - dom (daemons s)"
    unfolding a(2) using n by (auto simp: numbered_def)
  ultimately show ?thesis
    using perform_all_total [OF assms(1), of "s\<lparr>app := st\<rparr>" acts s' m] a(1,2) st(2) total_more_daemons [OF n a(3)]
    by simp
qed

end

section \<open>What the process receives\<close>

fun receives :: "message \<Rightarrow> process_event \<Rightarrow> 's process \<Rightarrow> bool" where
  "receives m (DaemonRecv k ev) s \<longleftrightarrow> ev = ServerRecv (Some m)
     \<and> (case daemons s k of None \<Rightarrow> False
        | Some d \<Rightarrow> d_phase d = Running \<and> enabled ev (d_proxy d))"
| "receives m ev s \<longleftrightarrow> False"

primrec process_received ::
  "main_env \<Rightarrow> ('s, 'c) daemon_env \<Rightarrow> message \<Rightarrow> process_event list \<Rightarrow> 's process \<Rightarrow> nat" where
  "process_received menv denv m [] s = 0"
| "process_received menv denv m (ev # evs) s =
     (if receives m ev s then 1 else 0)
     + (case process_step menv denv ev s of Ret s' \<Rightarrow> process_received menv denv m evs s' | Fail f \<Rightarrow> 0)"

lemma process_received_append:
  "process_run menv denv xs s = Ret s1 \<Longrightarrow> process_received menv denv m (xs @ ys) s
     = process_received menv denv m xs s + process_received menv denv m ys s1"
  by (induction xs arbitrary: s) (auto simp: andThen_Ret_iff)

context reliable_store begin

lemma received_total:
  assumes "all_daemons ops n denv" and "steady denv s" and "daemons s k = Some d" and "keeps m" and "for_user m"
    and "daemon_round denv k (ServerRecv (Some m)) d s = Ret s'"
  shows "process_total contents m s + 1 \<le> process_total contents m s'"
proof -
  let ?env = "denv k (d_network d) (d_connector d)" and ?p = "(d_proxy d)\<lparr>messagelogs := shared_logs s\<rparr>"
  obtain p where p: "Run_step ?env (ServerRecv (Some m)) ?p = Ret p"
    "s' = s\<lparr>shared_logs := messagelogs p, daemons := (daemons s)(k \<mapsto> d\<lparr>d_proxy := p\<rparr>)\<rparr>"
    using assms(6) unfolding daemon_round_def by (auto simp only: andThen_Ret_iff res.inject)
  have "known_client ?p"
    using assms(2,3) by (auto simp: steady_def known_daemons.everywhere_def known_client_def)
  then have "account (accounted contents m ?p) m ?env ?p"
    using assms(1,2) by (simp add: account_def steady_def all_daemons_def)
  from ensuresD [OF account_received [OF this assms(4,5)] p(1)]
  have "accounted contents m ?p + 1 \<le> accounted contents m p" by (simp add: account_def)
  from total_round [OF _ assms(3) refl this] assms(2,3) p(2) show ?thesis by (auto simp: steady_def numbered_def)
qed

lemma process_step_total:
  assumes "all_daemons ops n denv" and "steady denv s" and "acceptable keeps ev" and "keeps m" and "for_user m"
    and "process_step menv denv ev s = Ret s'"
  shows "steady denv s' \<and> process_total contents m s + (if receives m ev s then 1 else 0) \<le> process_total contents m s'"
proof (cases "\<exists>bev. ev = Backend bev")
  case True
  with assms(6) main_step_total [OF assms(1,2)] show ?thesis by auto
next
  case False
  show ?thesis
  proof (cases "s' = s \<and> \<not> receives m ev s")
    case moved: False
    with False assms(6) obtain k rev d d0 where d: "daemons s k = Some d0" "d_proxy d0 = d_proxy d"
      "daemon_round denv k rev d s = Ret s'" "kept keeps rev"
      "receives m ev s \<Longrightarrow> rev = ServerRecv (Some m) \<and> d0 = d"
    proof (cases ev)
      case (DaemonRecv k rev)
      with moved assms(6) obtain d where d: "daemons s k = Some d" "daemon_round denv k rev d s = Ret s'"
        by (auto split: option.splits if_splits)
      have "kept keeps rev" using assms(3) DaemonRecv by simp
      with d DaemonRecv show thesis by (intro that [of k d d rev]) simp_all
    next
      case (Finish k)
      with moved assms(6) obtain d where d: "daemons s k = Some d"
        "daemon_round denv k StopEvent (d\<lparr>d_phase := Stopped\<rparr>) s = Ret s'"
        by (auto split: option.splits if_splits)
      with Finish show thesis by (intro that [of k d "d\<lparr>d_phase := Stopped\<rparr>" StopEvent]) simp_all
    qed (use False in simp)
    from round_total [OF assms(1,2) d(1,2,4,3), of m] received_total [OF assms(1,2) _ assms(4,5), of k d s'] d
    show ?thesis by auto
  qed (use assms(2) in simp)
qed

lemma process_run_total:
  "all_daemons ops n denv \<Longrightarrow> steady denv s \<Longrightarrow> list_all (acceptable keeps) evs \<Longrightarrow> keeps m \<Longrightarrow> for_user m \<Longrightarrow>
   process_run menv denv evs s = Ret s' \<Longrightarrow>
     process_total contents m s + process_received menv denv m evs s \<le> process_total contents m s'"
proof (induction evs arbitrary: s)
  case (Cons ev evs)
  from Cons.prems(6) obtain s1 where s1: "process_step menv denv ev s = Ret s1" "process_run menv denv evs s1 = Ret s'"
    by (auto simp: andThen_Ret_iff)
  from Cons.prems(3) have "acceptable keeps ev" by simp
  note step = process_step_total [OF Cons.prems(1,2) this Cons.prems(4,5) s1(1)]
  from Cons.IH [OF Cons.prems(1) _ _ Cons.prems(4,5) s1(2)] step Cons.prems(3) s1(1) show ?case by auto
qed simp

text \<open>From the start of the app.\<close>

lemma process_accounts:
  assumes "all_daemons ops n denv" and "inv st" and "process_start menv denv fs st = Ret s"
    and "list_all (acceptable keeps) evs" and "keeps m" and "for_user m" and "process_run menv denv evs s = Ret s'"
  shows "count_list (contents st (Params m ! 0)) m + process_received menv denv m evs s \<le> process_total contents m s'"
proof -
  have s: "daemons s = Map.empty" "shared_logs s = st"
    using assms(3) by (auto simp: process_start_def main_start_def)
  have "steady denv s" using assms(2) s by (simp add: steady_def numbered_def known_daemons.everywhere_def)
  from process_run_total [OF assms(1) this assms(4-7)] s show ?thesis
    by (simp add: process_total_def daemon_writes_def)
qed

end

end
