(* ===== verification/Irc_Mask.thy ===== *)
theory Irc_Mask
  imports Prelude "HOL-Library.Sublist"
begin

text \<open>
  \<open>irc/mask/mask.go\<close>: \<open>ToRegexp\<close>, which turns an IRC mask into a pattern of Go's \<open>regexp\<close>.

  The loop is modelled with its three variables (\<open>rePat\<close>, \<open>nextChunk\<close>, \<open>inEscape\<close>). Of the
  standard library the model has \<open>QuoteMeta\<close> and the fragment of the pattern syntax that
  \<open>ToRegexp\<close> can produce: bytes, escaped punctuation, \<open>.\<close>, and a \<open>*\<close> after one of these. A
  pattern outside the fragment is \<open>None\<close>, and so is a match on bytes above 127: \<open>regexp\<close> reads
  its arguments as UTF-8, so on such strings \<open>.\<close> stands for a code point.

  Against it stands \<open>glob_matches\<close>, what RFC 2812 (section 2.5) says of masks: \<open>?\<close> is any one
  character, \<open>*\<close> any sequence of them, a backslash takes the next character for itself.
\<close>

section \<open>ToRegexp\<close>

abbreviation BSLASH :: char where "BSLASH \<equiv> CHR 0x5C"

definition metachars :: string where
  "metachars = BSLASH # ''.+*?()|[]{}^$''"

definition QuoteMeta :: "string \<Rightarrow> string" where
  "QuoteMeta s = concat (map (\<lambda>c. if c \<in> set metachars then [BSLASH, c] else [c]) s)"

record mask_state =
  rePat :: string
  nextChunk :: string
  inEscape :: bool

definition mask_flush :: "mask_state \<Rightarrow> mask_state" where
  "mask_flush st =
     (if nextChunk st \<noteq> []
      then st\<lparr>rePat := rePat st @ QuoteMeta (nextChunk st), nextChunk := []\<rparr>
      else st)"

definition write_pat :: "string \<Rightarrow> mask_state \<Rightarrow> mask_state" where
  "write_pat p st = st\<lparr>rePat := rePat st @ p\<rparr>"

definition mask_byte :: "mask_state \<Rightarrow> char \<Rightarrow> mask_state" where
  "mask_byte st c =
     (if inEscape st then st\<lparr>nextChunk := nextChunk st @ [c], inEscape := False\<rparr>
      else if c = CHR ''?'' then write_pat ''.'' (mask_flush st)
      else if c = CHR ''*'' then write_pat ''.*'' (mask_flush st)
      else if c = BSLASH then st\<lparr>inEscape := True\<rparr>
      else st\<lparr>nextChunk := nextChunk st @ [c]\<rparr>)"

definition ToRegexp :: "string \<Rightarrow> string" where
  "ToRegexp m =
     rePat (mask_flush
       (foldl mask_byte \<lparr>rePat = [], nextChunk = [], inEscape = False\<rparr> m))"

section \<open>The patterns of the regexp package\<close>

datatype re_atom = Byte char | Dot

datatype re_item = Once re_atom | Many re_atom

text \<open>A backslash takes an ASCII byte that is neither a letter nor a digit for itself.\<close>

definition quotable :: "char \<Rightarrow> bool" where
  "quotable c \<longleftrightarrow>
     (let n = of_char c :: nat in
        n < 128 \<and> \<not> (48 \<le> n \<and> n \<le> 57 \<or> 65 \<le> n \<and> n \<le> 90 \<or> 97 \<le> n \<and> n \<le> 122))"

fun parse_atom :: "string \<Rightarrow> (re_atom \<times> string) option" where
  "parse_atom [] = None"
| "parse_atom (c # s) =
     (if c = BSLASH
      then (case s of [] \<Rightarrow> None | d # s' \<Rightarrow> if quotable d then Some (Byte d, s') else None)
      else if c = CHR ''.'' then Some (Dot, s)
      else if c \<in> set metachars then None
      else Some (Byte c, s))"

lemma parse_atom_shorter: "parse_atom s = Some (a, s') \<Longrightarrow> length s' < length s"
  by (cases s) (auto split: if_splits list.splits)

text \<open>A repetition of a repetition (\<open>**\<close>, \<open>*+\<close>) is an error of the package, a \<open>*?\<close> is an operator
  that \<open>ToRegexp\<close> never writes: what follows a star is an atom.\<close>

function (sequential) parse_re :: "string \<Rightarrow> re_item list option" where
  "parse_re [] = Some []"
| "parse_re (c # s) =
     (case parse_atom (c # s) of
        None \<Rightarrow> None
      | Some (a, s') \<Rightarrow>
          (if s' \<noteq> [] \<and> hd s' = CHR ''*''
           then map_option ((#) (Many a)) (parse_re (tl s'))
           else map_option ((#) (Once a)) (parse_re s')))"
  by pat_completeness auto
termination
  by (relation "measure length") (auto dest!: parse_atom_shorter simp del: parse_atom.simps)

fun accepts :: "re_atom \<Rightarrow> char \<Rightarrow> bool" where
  "accepts (Byte b) c \<longleftrightarrow> c = b"
| "accepts Dot c \<longleftrightarrow> c \<noteq> LF"

fun re_matches :: "re_item list \<Rightarrow> string \<Rightarrow> bool" where
  "re_matches [] s \<longleftrightarrow> s = []"
| "re_matches (Once a # r) [] \<longleftrightarrow> False"
| "re_matches (Once a # r) (c # s) \<longleftrightarrow> accepts a c \<and> re_matches r s"
| "re_matches (Many a # r) [] \<longleftrightarrow> re_matches r []"
| "re_matches (Many a # r) (c # s) \<longleftrightarrow>
     re_matches r (c # s) \<or> accepts a c \<and> re_matches (Many a # r) s"

definition ascii :: "string \<Rightarrow> bool" where
  "ascii s \<longleftrightarrow> list_all (\<lambda>c. of_char c < (128 :: nat)) s"

text \<open>\<open>regexp.MatchString\<close>: some part of the input matches, for nothing in the pattern ties it to
  the ends.\<close>

definition MatchString :: "string \<Rightarrow> string \<Rightarrow> bool option" where
  "MatchString pattern s =
     (if ascii pattern \<and> ascii s
      then map_option (\<lambda>r. list_ex (re_matches r) (sublists s)) (parse_re pattern)
      else None)"

text \<open>The strings a pattern stands for: those that it matches from end to end, as \<open>MatchString\<close>
  finds them when the pattern is put between \<open>^(?:\<close> and \<open>)$\<close>.\<close>

definition FullMatch :: "string \<Rightarrow> string \<Rightarrow> bool option" where
  "FullMatch pattern s =
     (if ascii pattern \<and> ascii s then map_option (\<lambda>r. re_matches r s) (parse_re pattern) else None)"

section \<open>What a mask means\<close>

datatype glob = Lit char | AnyOne | AnyMany

fun parse_mask :: "string \<Rightarrow> glob list" where
  "parse_mask [] = []"
| "parse_mask (c # m) =
     (if c = BSLASH then (case m of [] \<Rightarrow> [] | d # m' \<Rightarrow> Lit d # parse_mask m')
      else (if c = CHR ''?'' then AnyOne else if c = CHR ''*'' then AnyMany else Lit c)
           # parse_mask m)"

fun glob_matches :: "glob list \<Rightarrow> string \<Rightarrow> bool" where
  "glob_matches [] s \<longleftrightarrow> s = []"
| "glob_matches (Lit b # g) s \<longleftrightarrow> (case s of [] \<Rightarrow> False | c # s' \<Rightarrow> c = b \<and> glob_matches g s')"
| "glob_matches (AnyOne # g) s \<longleftrightarrow> (case s of [] \<Rightarrow> False | c # s' \<Rightarrow> glob_matches g s')"
| "glob_matches (AnyMany # g) s \<longleftrightarrow> list_ex (glob_matches g) (suffixes s)"

definition mask_matches :: "string \<Rightarrow> string \<Rightarrow> bool" where
  "mask_matches m s = glob_matches (parse_mask m) s"

section \<open>The loop writes the pattern of the mask\<close>

fun glob_re :: "glob \<Rightarrow> re_item" where
  "glob_re (Lit c) = Once (Byte c)"
| "glob_re AnyOne = Once Dot"
| "glob_re AnyMany = Many Dot"

fun glob_text :: "glob \<Rightarrow> string" where
  "glob_text (Lit c) = QuoteMeta [c]"
| "glob_text AnyOne = ''.''"
| "glob_text AnyMany = ''.*''"

lemma QuoteMeta_simps [simp]: "QuoteMeta [] = []" "QuoteMeta (s @ t) = QuoteMeta s @ QuoteMeta t"
  by (simp_all add: QuoteMeta_def)

lemma mask_flush_simps [simp]:
  "rePat (mask_flush st) = rePat st @ QuoteMeta (nextChunk st)"
  "nextChunk (mask_flush st) = []"
  "inEscape (mask_flush st) = inEscape st"
  by (auto simp: mask_flush_def)

text \<open>What the rest of the mask will add to the pattern, from a state of the loop.\<close>

definition mask_rest :: "bool \<Rightarrow> string \<Rightarrow> glob list" where
  "mask_rest esc m =
     (if esc then (case m of [] \<Rightarrow> [] | c # m' \<Rightarrow> Lit c # parse_mask m') else parse_mask m)"

lemma mask_loop:
  "rePat (foldl mask_byte st m) @ QuoteMeta (nextChunk (foldl mask_byte st m)) =
     rePat st @ QuoteMeta (nextChunk st) @ concat (map glob_text (mask_rest (inEscape st) m))"
proof (induction m arbitrary: st)
  case Nil
  show ?case by (simp add: mask_rest_def)
next
  case (Cons c m)
  let ?st = "mask_byte st c"
  have "rePat ?st @ QuoteMeta (nextChunk ?st) @ concat (map glob_text (mask_rest (inEscape ?st) m)) =
      rePat st @ QuoteMeta (nextChunk st) @ concat (map glob_text (mask_rest (inEscape st) (c # m)))"
    by (simp add: mask_byte_def write_pat_def mask_rest_def split: list.split)
  with Cons.IH [of ?st] show ?case by simp
qed

lemma ToRegexp_text: "ToRegexp m = concat (map glob_text (parse_mask m))"
  by (simp add: ToRegexp_def mask_loop mask_rest_def)

lemma metachars_simps [simp]:
  "BSLASH \<in> set metachars" "CHR ''.'' \<in> set metachars" "CHR ''*'' \<in> set metachars"
  by (simp_all add: metachars_def)

lemma quotable_metachars: "c \<in> set metachars \<Longrightarrow> quotable c"
  by (auto simp: metachars_def quotable_def)

lemma globs_no_star:
  "gs \<noteq> [] \<Longrightarrow> \<exists>d s. concat (map glob_text gs) = d # s \<and> d \<noteq> CHR ''*''"
proof (cases gs)
  case (Cons g gs')
  then show ?thesis by (cases g) (auto simp: QuoteMeta_def)
qed simp

lemma parse_atom_Lit: "parse_atom (QuoteMeta [c] @ s) = Some (Byte c, s)"
  by (auto simp: QuoteMeta_def quotable_metachars)

lemma parse_re_texts: "parse_re (concat (map glob_text gs)) = Some (map glob_re gs)"
proof (induction gs)
  case (Cons g gs)
  let ?s = "concat (map glob_text gs)"
  have once: "?s = [] \<or> hd ?s \<noteq> CHR ''*''"
    using globs_no_star [of gs] by (cases gs) auto
  show ?case
  proof (cases g)
    case (Lit c)
    obtain d t where dt: "QuoteMeta [c] @ ?s = d # t"
      by (cases "c \<in> set metachars") (auto simp: QuoteMeta_def)
    have "parse_atom (d # t) = Some (Byte c, ?s)" using parse_atom_Lit [of c ?s] dt by simp
    with dt Lit once Cons show ?thesis by (auto simp del: parse_atom.simps)
  qed (use once Cons in auto)
qed simp

lemma ToRegexp_compiles: "parse_re (ToRegexp m) = Some (map glob_re (parse_mask m))"
  by (simp add: ToRegexp_text parse_re_texts)

section \<open>The pattern matches what the mask matches\<close>

lemma re_matches_Many:
  "LF \<notin> set s \<Longrightarrow> re_matches (Many Dot # r) s \<longleftrightarrow> list_ex (re_matches r) (suffixes s)"
  by (induction s) (auto simp: list_ex_iff)

lemma re_matches_globs:
  "LF \<notin> set s \<Longrightarrow> re_matches (map glob_re gs) s = glob_matches gs s"
proof (induction gs arbitrary: s)
  case (Cons g gs)
  show ?case
  proof (cases g)
    case AnyMany
    have "LF \<notin> set t" if "t \<in> set (suffixes s)" for t
      using that Cons.prems set_mono_suffix by (fastforce simp: in_set_suffixes)
    with AnyMany Cons show ?thesis by (auto simp: re_matches_Many list_ex_iff)
  qed (use Cons in \<open>auto split: list.splits\<close>)
qed simp

lemma ascii_ToRegexp: "ascii m \<Longrightarrow> ascii (ToRegexp m)"
proof -
  have "ascii m \<Longrightarrow> ascii (concat (map glob_text (parse_mask m)))"
    by (induction m rule: parse_mask.induct)
      (auto simp: ascii_def QuoteMeta_def list_all_iff split: list.splits if_splits)
  then show "ascii m \<Longrightarrow> ascii (ToRegexp m)" by (simp add: ToRegexp_text)
qed

lemma MatchString_ToRegexp:
  assumes "ascii m" and "ascii s" and "LF \<notin> set s"
  shows "MatchString (ToRegexp m) s = Some (list_ex (mask_matches m) (sublists s))"
proof -
  have "LF \<notin> set t" if "t \<in> set (sublists s)" for t
    using that assms(3) set_mono_sublist by fastforce
  then show ?thesis
    using assms ascii_ToRegexp [of m] unfolding MatchString_def ToRegexp_compiles
    by (auto simp: list_ex_iff mask_matches_def re_matches_globs)
qed

lemma FullMatch_ToRegexp:
  assumes "ascii m" and "ascii s" and "LF \<notin> set s"
  shows "FullMatch (ToRegexp m) s = Some (mask_matches m s)"
  using assms ascii_ToRegexp [of m] unfolding FullMatch_def ToRegexp_compiles
  by (simp add: mask_matches_def re_matches_globs)

text \<open>The pattern is not tied to the ends of the string: what matches the mask may have anything
  around it, so more strings are found than the mask stands for.\<close>

lemma mask_not_anchored:
  assumes "ascii m" and "ascii (a @ s @ b)" and "LF \<notin> set (a @ s @ b)" and "mask_matches m s"
  shows "MatchString (ToRegexp m) (a @ s @ b) = Some True"
proof -
  have "s \<in> set (sublists (a @ s @ b))" by simp
  with assms(4) have "list_ex (mask_matches m) (sublists (a @ s @ b))" unfolding list_ex_iff by blast
  with MatchString_ToRegexp [OF assms(1-3)] show ?thesis by simp
qed

lemma mask_not_anchored_example:
  "MatchString (ToRegexp ''a'') ''bab'' = Some True \<and> \<not> mask_matches ''a'' ''bab''"
  by code_simp

text \<open>The test cases of \<open>mask_test.go\<close>.\<close>

lemma mask_test_cases:
  "map (\<lambda>(m, s). MatchString (ToRegexp m) s)
     [(''a'', ''a''), (''a'', ''b''), (''a?'', ''ab''), (''a?'', ''a''), (''?a'', ''a''), (''?a'', ''ab''),
      (''?a'', ''ba''), (''a?c'', ''abc''), (''a?c'', ''aac''), (''a?c'', ''ac''), (''a?c'', ''abdc''),
      (''a*c'', ''abc''), (''a*c'', ''ac''), (''a*c'', ''abdc''), (''a*c'', ''a''), (''a*c'', ''c'')]
   = map Some
     [True, False, True, False, False, False, True, True, True, False, False,
      True, True, True, False, False]"
  "MatchString (ToRegexp (''a'' @ BSLASH # ''?a'')) ''a?a'' = Some True"
  "MatchString (ToRegexp (''a'' @ BSLASH # ''?a'')) ''aaa'' = Some False"
  "MatchString (ToRegexp (''a'' @ BSLASH # ''*a'')) ''a*a'' = Some True"
  "MatchString (ToRegexp (''a'' @ BSLASH # ''*a'')) ''aa'' = Some False"
  "MatchString (ToRegexp (''a'' @ BSLASH # BSLASH # ''*a'')) (''a'' @ BSLASH # ''a'') = Some True"
  "MatchString (ToRegexp (''a'' @ BSLASH # BSLASH # ''*a'')) ''aba'' = Some False"
  "MatchString (ToRegexp (''a'' @ BSLASH # BSLASH # ''*a'')) (''a'' @ BSLASH # ''ba'') = Some True"
  by code_simp+

end
