(* ===== verification/Store_Conformance.thy ===== *)
theory Store_Conformance
  imports Ephemeral_Store Sql_Store
begin

text \<open>
  \<open>storage/testing/quick.go\<close>: the black-box check of a store. \<open>checkFunc\<close> fills a fresh store
  with the logs of a map, reads every log back, clears them, and sees that they are empty. The
  Go map is the association list of its entries in the order the loop meets them (which Go
  does not fix, so nothing below depends on it); its keys are distinct.

  The code ignores the errors of several calls and goes on with the log or the cursor it was
  given; with an error these are nil in the stores of the repository, and calling a method of a
  nil interface panics. Closing a cursor changes nothing the check can see.

  A store that meets the contract passes (\<open>check_passes\<close>), and a store that passes has given
  back, as text, what was logged (\<open>check_entries_sound\<close>).
\<close>

section \<open>The check\<close>

fun fill_log :: "('s, 'c) store_ops \<Rightarrow> string \<Rightarrow> message list \<Rightarrow> 's \<Rightarrow> 's" where
  "fill_log ops k [] st = st"
| "fill_log ops k (msg # v) st = fill_log ops k v (snd (op_LogMessage ops st k msg))"

fun fillStore :: "('s, 'c) store_ops \<Rightarrow> (string \<times> message list) list \<Rightarrow> 's \<Rightarrow> 's res" where
  "fillStore ops [] st = Ret st"
| "fillStore ops ((k, v) # m) st =
     (case op_GetChannel ops st k of
        (None, st') \<Rightarrow> fillStore ops m (fill_log ops k v st')
      | (Some e, st') \<Rightarrow> if v = [] then fillStore ops m st' else Fail Panic)"

fun check_entries :: "('s, 'c) store_ops \<Rightarrow> message list \<Rightarrow> 'c \<Rightarrow> bool res" where
  "check_entries ops [] cursor =
     (case op_Get ops cursor of
        (_, Some err) \<Rightarrow> Ret True
      | (Some msg, None) \<Rightarrow> Ret False
      | (None, None) \<Rightarrow> Fail Panic)"
| "check_entries ops (msg # v) cursor =
     (case op_Get ops cursor of
        (_, Some err) \<Rightarrow> Ret False
      | (Some loggedMsg, None) \<Rightarrow>
          if String loggedMsg \<noteq> String msg then Ret False
          else check_entries ops v (op_Next ops cursor)
      | (None, None) \<Rightarrow> Fail Panic)"

fun checkFilled :: "('s, 'c) store_ops \<Rightarrow> (string \<times> message list) list \<Rightarrow> 's \<Rightarrow> (bool \<times> 's) res" where
  "checkFilled ops [] st = Ret (True, st)"
| "checkFilled ops ((k, v) # m) st =
     (case op_GetChannel ops st k of
        (Some err, _) \<Rightarrow> Fail Panic
      | (None, st1) \<Rightarrow>
          (case op_Replay ops st1 k of
             (Inl err, _) \<Rightarrow> Fail Panic
           | (Inr cursor, st2) \<Rightarrow>
               andThen (check_entries ops v cursor)
                 (\<lambda>ok. if ok then checkFilled ops m st2 else Ret (False, st2))))"

fun checkClear :: "('s, 'c) store_ops \<Rightarrow> (string \<times> message list) list \<Rightarrow> 's \<Rightarrow> (bool \<times> 's) res" where
  "checkClear ops [] st = Ret (True, st)"
| "checkClear ops ((k, v) # m) st =
     (case op_GetChannel ops st k of
        (Some err, _) \<Rightarrow> Fail Panic
      | (None, st1) \<Rightarrow>
          (case op_Replay ops (snd (op_Clear ops st1 k)) k of
             (Inl err, _) \<Rightarrow> Fail Panic
           | (Inr cursor, st2) \<Rightarrow>
               if snd (op_Get ops cursor) \<noteq> Some EOF then Ret (False, st2)
               else checkClear ops m st2))"

definition checkFunc :: "('s, 'c) store_ops \<Rightarrow> 's \<Rightarrow> (string \<times> message list) list \<Rightarrow> bool res" where
  "checkFunc ops newStore m =
     andThen (fillStore ops m newStore)
       (\<lambda>st. andThen (checkFilled ops m st)
         (\<lambda>(ok, st). if \<not> ok then Ret False else andThen (checkClear ops m st) (\<lambda>(ok, st). Ret ok)))"

section \<open>A store that passes gave back what was logged\<close>

lemma check_entries_sound:
  "check_entries ops v cursor = Ret True \<Longrightarrow> length v < n \<Longrightarrow>
     \<exists>ms e. read_cursor ops n cursor = (ms, Some e) \<and> map String ms = map String v"
proof (induction ops v cursor arbitrary: n rule: check_entries.induct)
  case (1 ops cursor)
  then show ?case by (cases n) (auto split: prod.splits option.splits)
next
  case (2 ops msg v cursor)
  then obtain n' where n: "n = Suc n'" "length v < n'" by (cases n) auto
  from 2(2) obtain logged where logged: "op_Get ops cursor = (Some logged, None)"
    "String logged = String msg" "check_entries ops v (op_Next ops cursor) = Ret True"
    by (auto split: prod.splits option.splits if_splits)
  from 2(1) [OF logged(1) [symmetric] refl refl _ logged(3) n(2)] logged(2)
  obtain ms e where "read_cursor ops n' (op_Next ops cursor) = (ms, Some e)" "map String ms = map String v"
    by auto
  with logged n show ?case by auto
qed

section \<open>A store that meets the contract passes\<close>

context reliable_store
begin

lemma fill_log_contents:
  "inv st \<Longrightarrow> list_all keeps v \<Longrightarrow>
     inv (fill_log ops k v st) \<and> contents (fill_log ops k v st) = (contents st)(k := contents st k @ v)"
proof (induction v arbitrary: st)
  case (Cons msg v)
  obtain e st1 where st1: "op_LogMessage ops st k msg = (e, st1)" by force
  with no_error(2) [OF Cons.prems(1), of k msg] have "e = None" by simp
  with log_message [OF Cons.prems(1) _ st1] Cons.prems
  have "inv st1" "contents st1 = (contents st)(k := contents st k @ [msg])" by auto
  with Cons.IH [of st1] Cons.prems st1 show ?case by (auto simp: fun_eq_iff)
qed simp

lemma get_channel_ok:
  assumes "inv st"
  obtains st1 where "op_GetChannel ops st k = (None, st1)" "inv st1" "contents st1 = contents st"
  using get_channel [OF assms] no_error(1) [OF assms, of k] by (cases "op_GetChannel ops st k") auto

lemma fillStore_contents:
  "inv st \<Longrightarrow> distinct (map fst m) \<Longrightarrow> list_all (\<lambda>(k, v). contents st k = [] \<and> list_all keeps v) m \<Longrightarrow>
     \<exists>st'. fillStore ops m st = Ret st' \<and> inv st' \<and>
       (\<forall>k. contents st' k = (case map_of m k of None \<Rightarrow> contents st k | Some v \<Rightarrow> v))"
proof (induction m arbitrary: st)
  case (Cons p m)
  obtain k v where p: "p = (k, v)" by (cases p)
  obtain st1 where st1: "op_GetChannel ops st k = (None, st1)" "inv st1" "contents st1 = contents st"
    by (rule get_channel_ok [OF Cons.prems(1)])
  let ?st2 = "fill_log ops k v st1"
  have st2: "inv ?st2" "contents ?st2 = (contents st)(k := v)"
    using fill_log_contents [OF st1(2), of v k] st1(3) Cons.prems(3) p by auto
  have "list_all (\<lambda>(k', v). contents ?st2 k' = [] \<and> list_all keeps v) m"
    using Cons.prems(2,3) p st2(2) by (force simp: list_all_iff)
  with Cons.IH [OF st2(1)] Cons.prems(2) p obtain st' where
    "fillStore ops m ?st2 = Ret st'" "inv st'"
    "\<forall>k'. contents st' k' = (case map_of m k' of None \<Rightarrow> contents ?st2 k' | Some v \<Rightarrow> v)" by auto
  moreover have "map_of m k = None" using Cons.prems(2) p by (simp add: map_of_eq_None_iff)
  ultimately show ?case using p st1(1) st2(2) by (auto split: option.split)
qed simp

lemma check_entries_passes:
  "cinv c \<Longrightarrow> fails c = None \<Longrightarrow> pending c = v \<Longrightarrow> check_entries ops v c = Ret True"
proof (induction v arbitrary: c)
  case Nil
  with get_end [of c] show ?case by (cases "op_Get ops c") (auto split: option.splits)
next
  case (Cons msg v)
  with get_message [of c msg v] next_message [of c msg v] Cons.IH [of "op_Next ops c"] show ?case by simp
qed

lemma replay_whole:
  assumes "inv st"
  obtains c st1 where "op_Replay ops st k = (Inr c, st1)" "cinv c" "fails c = None" "pending c = contents st k"
    "inv st1" "contents st1 = contents st"
proof -
  from replay_ok [OF assms] obtain c st1 where *: "op_Replay ops st k = (Inr c, st1)" "fails c = None" by blast
  with replay [OF assms *(1)] replay_cursor [OF assms *(1)] that show ?thesis by auto
qed

lemma checkFilled_passes:
  "inv st \<Longrightarrow> list_all (\<lambda>(k, v). contents st k = v) m \<Longrightarrow>
     \<exists>st'. checkFilled ops m st = Ret (True, st') \<and> inv st' \<and> contents st' = contents st"
proof (induction m arbitrary: st)
  case (Cons p m)
  obtain k v where p: "p = (k, v)" by (cases p)
  obtain st1 where st1: "op_GetChannel ops st k = (None, st1)" "inv st1" "contents st1 = contents st"
    by (rule get_channel_ok [OF Cons.prems(1)])
  obtain c st2 where c: "op_Replay ops st1 k = (Inr c, st2)" "cinv c" "fails c = None"
    "pending c = contents st1 k" "inv st2" "contents st2 = contents st1"
    by (rule replay_whole [OF st1(2)])
  have "check_entries ops v c = Ret True" using c Cons.prems(2) p st1(3) by (auto intro: check_entries_passes)
  with Cons.IH [OF c(5)] Cons.prems(2) p st1 c show ?case by auto
qed simp

lemma checkClear_passes: "inv st \<Longrightarrow> \<exists>st'. checkClear ops m st = Ret (True, st') \<and> inv st'"
proof (induction m arbitrary: st)
  case (Cons p m)
  obtain k v where p: "p = (k, v)" by (cases p)
  obtain st1 where st1: "op_GetChannel ops st k = (None, st1)" "inv st1" "contents st1 = contents st"
    by (rule get_channel_ok [OF Cons.prems(1)])
  obtain e st2 where st2: "op_Clear ops st1 k = (e, st2)" by force
  with no_error(3) [OF st1(2), of k] clear [OF st1(2) st2] have st2': "inv st2" "contents st2 k = []" by auto
  obtain c st3 where c: "op_Replay ops st2 k = (Inr c, st3)" "cinv c" "fails c = None"
    "pending c = contents st2 k" "inv st3" "contents st3 = contents st2"
    by (rule replay_whole [OF st2'(1)])
  have "snd (op_Get ops c) = Some EOF" using get_end [OF c(2)] c(3,4) st2'(2) by simp
  with Cons.IH [OF c(5)] p st1 st2 c show ?case by simp
qed simp

lemma check_passes:
  assumes "inv st" and "\<And>k. contents st k = []" and "distinct (map fst m)"
    and "list_all (\<lambda>(k, v). list_all keeps v) m"
  shows "checkFunc ops st m = Ret True"
proof -
  have "list_all (\<lambda>(k, v). contents st k = [] \<and> list_all keeps v) m"
    using assms(2,4) by (simp add: list_all_iff)
  from fillStore_contents [OF assms(1,3) this] obtain st' where
    st': "fillStore ops m st = Ret st'" "inv st'"
      "\<forall>k. contents st' k = (case map_of m k of None \<Rightarrow> contents st k | Some v \<Rightarrow> v)" by blast
  have filled: "list_all (\<lambda>(k, v). contents st' k = v) m"
    using st'(3) assms(3) by (auto simp: list_all_iff)
  from checkFilled_passes [OF st'(2) filled] obtain st'' where
    st'': "checkFilled ops m st' = Ret (True, st'')" "inv st''" by auto
  from checkClear_passes [OF st''(2), of m] st'(1) st''(1) show ?thesis by (auto simp: checkFunc_def)
qed

end

text \<open>The SQL store over a database that reports no error.\<close>

context reliable_db
begin

lemma sql_conforms:
  assumes "table d = []" and "distinct (map fst m)" and "list_all (\<lambda>(k, v). list_all storable v) m"
  shows "checkFunc (sql_ops D) (sql_NewStore d) m = Ret True"
proof (rule reliable_sql.check_passes)
  show "sql_inv table (sql_NewStore d)" "sql_contents table (sql_NewStore d) k = []" for k
    using assms(1) by (simp_all add: sql_inv_def sql_contents_def sql_NewStore_def select_texts_def)
qed (use assms in simp_all)

end

end
