(* ===== verification/Test_Generators.thy ===== *)
theory Test_Generators
  imports Store_Conformance Base64
begin

text \<open>
  The generators behind the conformance check: \<open>irc/test_util.go\<close> and the rest of
  \<open>storage/testing/quick.go\<close>. A source of random values gives, at each draw, a number below a
  bound (\<open>int(r.Float64() * float64(b))\<close> is one for every \<open>b\<close>, and 0 for 0), bytes, or a string;
  draws are numbered. The generators promise messages of the right length and shape; here:
  every generated message survives being written and read, so the check they feed is one that
  a correct store passes on every run.
\<close>

section \<open>Messages\<close>

record rand_source =
  rand_below :: "nat \<Rightarrow> nat \<Rightarrow> nat"
  rand_bytes :: "nat \<Rightarrow> nat \<Rightarrow> string"
  rand_string :: "nat \<Rightarrow> string"

definition rand_ok :: "rand_source \<Rightarrow> bool" where
  "rand_ok r \<longleftrightarrow>
     (\<forall>k b. rand_below r k b < max b 1) \<and> (\<forall>k n. length (rand_bytes r k n) = n)"

definition genBase64 :: "rand_source \<Rightarrow> nat \<Rightarrow> nat \<Rightarrow> string res" where
  "genBase64 r k len =
     (let str = take len (base64_std (rand_bytes r k len)) in
      if length str \<noteq> len then Fail Panic else Ret str)"

fun gen_params :: "rand_source \<Rightarrow> nat \<Rightarrow> nat \<Rightarrow> int \<Rightarrow> (string list \<times> nat) res" where
  "gen_params r k 0 spaceLeft = Ret ([], k)"
| "gen_params r k (Suc i) spaceLeft =
     (let paramLen = rand_below r k (nat (spaceLeft div int (Suc i))) in
      if paramLen = 0 then gen_params r (Suc k) i spaceLeft
      else andThen (genBase64 r (Suc k) paramLen) (\<lambda>p.
           andThen (gen_params r (Suc (Suc k)) i (spaceLeft - int paramLen)) (\<lambda>(ps, k').
             Ret (p # ps, k'))))"

definition genMessage :: "rand_source \<Rightarrow> nat \<Rightarrow> (message \<times> nat) res" where
  "genMessage r k =
     (let spaceLeft = int MaxMessageLen - 2;
          prefixLen = rand_below r k 16;
          spaceLeft = spaceLeft - int prefixLen;
          spaceLeft = (if prefixLen \<noteq> 0 then spaceLeft - 2 else spaceLeft);
          commandLen = rand_below r (k + 1) 16 + 1;
          spaceLeft = spaceLeft - int commandLen;
          numParams = rand_below r (k + 2) 16;
          spaceLeft = spaceLeft - (int numParams + 1)
      in
        andThen (gen_params r (k + 3) numParams spaceLeft) (\<lambda>(params, k).
        andThen (genBase64 r k prefixLen) (\<lambda>prefix.
        andThen (genBase64 r (k + 1) commandLen) (\<lambda>command.
          Ret (\<lparr>Prefix = prefix, Command = command, Params = params\<rparr>, k + 2)))))"

text \<open>The method that \<open>testing/quick\<close> looks for; the size is ignored.\<close>

definition Generate :: "rand_source \<Rightarrow> nat \<Rightarrow> nat \<Rightarrow> (message \<times> nat) res" where
  "Generate r k sz = genMessage r k"

section \<open>Logs and stores\<close>

fun gen_messages :: "rand_source \<Rightarrow> nat \<Rightarrow> nat \<Rightarrow> (message list \<times> nat) res" where
  "gen_messages r k 0 = Ret ([], k)"
| "gen_messages r k (Suc n) =
     andThen (Generate r k 0) (\<lambda>(m, k).
     andThen (gen_messages r k n) (\<lambda>(ms, k). Ret (m # ms, k)))"

definition genChannel :: "rand_source \<Rightarrow> nat \<Rightarrow> (message list \<times> nat) res" where
  "genChannel r k = gen_messages r (k + 1) (rand_below r k 70)"

text \<open>\<open>%x\<close> of a byte slice: two lower-case digits for each byte.\<close>

definition hex_digits :: string where
  "hex_digits = ''0123456789abcdef''"

definition hex :: "string \<Rightarrow> string" where
  "hex s = concat (map (\<lambda>c. [hex_digits ! (of_char c div 16), hex_digits ! (of_char c mod 16)]) s)"

fun gen_channels :: "rand_source \<Rightarrow> nat \<Rightarrow> nat \<Rightarrow> (string \<times> message list) list
    \<Rightarrow> ((string \<times> message list) list) res" where
  "gen_channels r k 0 ret = Ret ret"
| "gen_channels r k (Suc n) ret =
     (let buf = rand_string r k;
          buf = (if length buf > 16 then take 16 buf else buf)
      in andThen (genChannel r (k + 1)) (\<lambda>(v, k). gen_channels r k n (AList.update (hex buf) v ret)))"

definition genStore :: "rand_source \<Rightarrow> ((string \<times> message list) list) res" where
  "genStore r = gen_channels r 1 (rand_below r 0 50) []"

text \<open>
  \<open>RandTest\<close>: \<open>quick.Check\<close> calls the check on generated values, as often as it is configured to (here
  once for each source of random values), and stops at the first value that fails; then the
  test is fatal (\<open>False\<close>). \<open>newStore\<close> gives an empty store each time.
\<close>

fun RandTest :: "('s, 'c) store_ops \<Rightarrow> 's \<Rightarrow> rand_source list \<Rightarrow> bool res" where
  "RandTest ops newStore [] = Ret True"
| "RandTest ops newStore (r # rs) =
     andThen (genStore r) (\<lambda>m.
     andThen (checkFunc ops newStore m) (\<lambda>ok.
       if ok then RandTest ops newStore rs else Ret False))"

section \<open>Every generated message is storable\<close>

definition token :: "string \<Rightarrow> bool" where
  "token s \<longleftrightarrow> set s \<subseteq> set base64_chars"

lemma token_plain: "token s \<Longrightarrow> c \<in> {SP, COLON, LF} \<Longrightarrow> c \<notin> set s"
  by (auto simp: token_def base64_chars_def)

lemma token_hd: "token s \<Longrightarrow> s \<noteq> [] \<Longrightarrow> hd s \<noteq> COLON"
proof
  assume "token s" "s \<noteq> []" "hd s = COLON"
  with hd_in_set [of s] token_plain [of s COLON] show False by simp
qed

lemma genBase64_token:
  assumes "rand_ok r" shows "\<exists>s. genBase64 r k len = Ret s \<and> length s = len \<and> token s"
proof -
  let ?b = "rand_bytes r k len"
  have l: "length ?b = len" using assms by (simp add: rand_ok_def)
  with take_base64_std [of ?b] have t: "take len (base64_std ?b) = take len (base64_encode ?b)" by simp
  have "length (take len (base64_encode ?b)) = len" using l by (simp add: length_base64_encode)
  moreover have "token (take len (base64_encode ?b))"
    using base64_encode_chars [of ?b] set_take_subset [of len "base64_encode ?b"] by (auto simp: token_def)
  ultimately show ?thesis using t by (simp add: genBase64_def)
qed

definition param_token :: "string \<Rightarrow> bool" where
  "param_token s \<longleftrightarrow> token s \<and> s \<noteq> []"

lemma gen_params_shape:
  "rand_ok r \<Longrightarrow> 0 \<le> sp \<Longrightarrow>
     \<exists>ps k'. gen_params r k n sp = Ret (ps, k') \<and> list_all param_token ps
       \<and> length ps \<le> n \<and> int (sum_list (map length ps)) \<le> sp"
proof (induction r k n sp rule: gen_params.induct)
  case (2 r k i sp)
  define paramLen where "paramLen = rand_below r k (nat (sp div int (Suc i)))"
  have "paramLen < max (nat (sp div int (Suc i))) 1" using 2(3) by (simp add: rand_ok_def paramLen_def)
  moreover have "sp div int (Suc i) \<le> sp" using 2(4) zdiv_mono2 [of sp 1 "int (Suc i)"] by simp
  ultimately have small: "int paramLen \<le> sp" using 2(4) by linarith
  have step: "gen_params r k (Suc i) sp =
      (if paramLen = 0 then gen_params r (Suc k) i sp
       else andThen (genBase64 r (Suc k) paramLen) (\<lambda>p.
            andThen (gen_params r (Suc (Suc k)) i (sp - int paramLen)) (\<lambda>(ps, k'). Ret (p # ps, k'))))"
    by (simp add: paramLen_def Let_def)
  show ?case
  proof (cases "paramLen = 0")
    case True
    from 2(1) [OF paramLen_def True 2(3,4)] obtain ps k' where "gen_params r (Suc k) i sp = Ret (ps, k')"
      "list_all param_token ps" "length ps \<le> i" "int (sum_list (map length ps)) \<le> sp" by blast
    with step True show ?thesis by simp
  next
    case False
    obtain p where p: "genBase64 r (Suc k) paramLen = Ret p" "length p = paramLen" "token p"
      using genBase64_token [OF 2(3)] by blast
    from 2(2) [OF paramLen_def False p(1)] 2(3) small
    obtain ps k' where ps: "gen_params r (Suc (Suc k)) i (sp - int paramLen) = Ret (ps, k')"
      "list_all param_token ps" "length ps \<le> i" "int (sum_list (map length ps)) \<le> sp - int paramLen" by auto
    have "param_token p" using p(2,3) False by (auto simp: param_token_def)
    with step False p(1,2) ps show ?thesis by simp
  qed
qed simp

lemma params_text_tokens:
  "list_all param_token ps \<Longrightarrow>
     params_text ps = concat (map (\<lambda>p. SP # p) ps) \<and> params_ok ps"
proof (induction ps rule: params_text.induct)
  case (2 p)
  then show ?case by (auto simp: last_param_text_def param_token_def token_hd dest: token_plain)
next
  case (3 p q ps)
  then show ?case by (auto simp: param_token_def token_hd dest: token_plain)
qed simp

lemma length_spaced: "length (concat (map (\<lambda>p. SP # p) ps)) = length ps + sum_list (map length ps)"
  by (induction ps) auto

lemma storable_tokens:
  assumes "token pre" and "token c" and "c \<noteq> []" and "list_all param_token ps"
    and "(if pre = [] then 0 else length pre + 2) + length c + length ps + sum_list (map length ps) \<le> 510"
  shows "storable \<lparr>Prefix = pre, Command = c, Params = ps\<rparr>"
proof -
  let ?m = "\<lparr>Prefix = pre, Command = c, Params = ps\<rparr>"
  note pt = params_text_tokens [OF assms(4)]
  have w: "wire_ok ?m"
    using assms(1-3) pt by (auto simp: wire_ok_def command_ok_def token_hd dest: token_plain)
  have "LF \<notin> set (concat (map (\<lambda>p. SP # p) ps))"
    using assms(4) by (auto simp: list_all_iff param_token_def dest: token_plain)
  then have "LF \<notin> set (line_text ?m)"
    using assms(1,2) pt by (auto simp: line_text_def prefix_text_def dest: token_plain)
  moreover have "Len ?m \<le> MaxMessageLen"
    using assms(5) pt by (simp add: Len_eq String_eq line_text_def prefix_text_def length_spaced MaxMessageLen_def
        split: if_splits)
  ultimately show ?thesis using w by (simp add: storable_def)
qed

lemma genMessage_storable:
  assumes "rand_ok r" shows "\<exists>m k'. genMessage r k = Ret (m, k') \<and> storable m"
proof -
  define pl where "pl = rand_below r k 16"
  define cl where "cl = rand_below r (k + 1) 16 + 1"
  define np where "np = rand_below r (k + 2) 16"
  define sp where "sp = 510 - int pl - (if pl \<noteq> 0 then 2 else 0) - int cl - (int np + 1)"
  have "rand_below r j 16 < max 16 1" for j using assms unfolding rand_ok_def by blast
  then have b: "pl < 16" "cl < 17" "np < 16" by (simp_all add: pl_def cl_def np_def)
  then have sp: "0 \<le> sp" by (simp add: sp_def)
  obtain ps k1 where ps: "gen_params r (k + 3) np sp = Ret (ps, k1)" "list_all param_token ps"
    "length ps \<le> np" "int (sum_list (map length ps)) \<le> sp"
    using gen_params_shape [OF assms sp] by blast
  obtain pre where pre: "genBase64 r k1 pl = Ret pre" "length pre = pl" "token pre"
    using genBase64_token [OF assms] by blast
  obtain c where c: "genBase64 r (k1 + 1) cl = Ret c" "length c = cl" "token c"
    using genBase64_token [OF assms] by blast
  have e: "int MaxMessageLen - 2 = 510" by (simp add: MaxMessageLen_def)
  have "genMessage r k = Ret (\<lparr>Prefix = pre, Command = c, Params = ps\<rparr>, k1 + 2)"
    unfolding genMessage_def Let_def e pl_def [symmetric] cl_def [symmetric] np_def [symmetric]
    using ps(1) pre(1) c(1) by (cases "pl = 0") (simp_all add: sp_def)
  moreover have "storable \<lparr>Prefix = pre, Command = c, Params = ps\<rparr>"
  proof (rule storable_tokens [OF pre(3) c(3) _ ps(2)])
    show "c \<noteq> []" using c(2) by (auto simp: cl_def)
    show "(if pre = [] then 0 else length pre + 2) + length c + length ps + sum_list (map length ps) \<le> 510"
      using ps(3,4) pre(2) c(2) by (auto simp: sp_def split: if_splits)
  qed
  ultimately show ?thesis by blast
qed

lemma gen_messages_storable:
  assumes "rand_ok r" shows "\<exists>ms k'. gen_messages r k n = Ret (ms, k') \<and> list_all storable ms"
proof (induction n arbitrary: k)
  case (Suc n)
  obtain m k1 where m: "genMessage r k = Ret (m, k1)" "storable m" using genMessage_storable [OF assms] by blast
  with Suc.IH [of k1] show ?case by (auto simp: Generate_def)
qed simp

lemma gen_channels_storable:
  assumes "rand_ok r"
  shows "distinct (map fst ret) \<Longrightarrow> list_all (\<lambda>(name, v). list_all storable v) ret \<Longrightarrow>
    \<exists>m. gen_channels r k n ret = Ret m \<and> distinct (map fst m) \<and> list_all (\<lambda>(name, v). list_all storable v) m"
proof (induction n arbitrary: k ret)
  case (Suc n)
  obtain v k1 where v: "genChannel r (k + 1) = Ret (v, k1)" "list_all storable v"
    using gen_messages_storable [OF assms, of "k + 1 + 1" "rand_below r (k + 1) 70"]
    unfolding genChannel_def by blast
  let ?ret = "AList.update (hex (if length (rand_string r k) > 16 then take 16 (rand_string r k) else rand_string r k)) v ret"
  have "list_all (\<lambda>(name, v). list_all storable v) ?ret"
    using Suc.prems(2) v(2) by (induction ret) auto
  moreover have "distinct (map fst ?ret)" by (rule distinct_update) (rule Suc.prems(1))
  ultimately show ?case using Suc.IH [of ?ret k1] v(1) by (simp add: Let_def)
qed simp

lemma genStore_storable:
  assumes "rand_ok r"
  obtains m where "genStore r = Ret m" "distinct (map fst m)" "list_all (\<lambda>(name, v). list_all storable v) m"
  using gen_channels_storable [OF assms, of "[]" 1 "rand_below r 0 50"] by (auto simp: genStore_def)

text \<open>A store that passes the check on all storable logs passes the test.\<close>

lemma RandTest_passes:
  assumes "list_all rand_ok rs"
    and "\<And>m. distinct (map fst m) \<Longrightarrow> list_all (\<lambda>(name, v). list_all storable v) m \<Longrightarrow> checkFunc ops newStore m = Ret True"
  shows "RandTest ops newStore rs = Ret True"
  using assms(1)
proof (induction rs)
  case (Cons r rs)
  then have "rand_ok r" by simp
  from genStore_storable [OF this] obtain m where "genStore r = Ret m" "checkFunc ops newStore m = Ret True"
    using assms(2) by metis
  with Cons show ?case by simp
qed simp

end
