(* ===== verification/Spec2Isabelle.thy ===== *)
theory Spec2Isabelle
  imports Scenario Further_Facts Filters Proxy_Transport Proxy_Silence Proxy_Backends Proxy_Clean Proxy_Presence Sandstorm_Delivery Irc_Mask Test_Generators Commands
begin

text \<open>
  A model of irc-idler, an IRC bouncer: a daemon that keeps a user's connection to an IRC server while
  the user's client comes and goes, and shows the client on its return what it has missed. All
  paths are below \<open>src/\<close>.

  The parts and how they interact. \<open>irc/\<close> reads and writes messages, checks them, and parses client
  identifiers. \<open>proxy/state/\<close> records what one side knows of the session: the handshake and
  who is in which channel. \<open>storage/\<close> is the interface to the message logs, with a store in
  memory and one on a database. \<open>proxy/proxy.go\<close> is the daemon: one goroutine that selects
  between messages of the client, messages of the server, a ticker, new clients and a stop
  signal, and keeps three sessions: the client's, the server's, and the one from before the
  messages in the logs. It reaches the server through a dialer of \<open>internal/netextra/\<close>.
  \<open>cmd/irc-idler\<close> starts one daemon from its flags. \<open>cmd/sandstorm-irc-idler\<close> starts, stops and
  restarts daemons as the web interface (\<open>sandstorm/webui/\<close>) sends it configurations, network
  capabilities and clients.

  Theories, in the order of their imports:

  \<^item> \<open>Prelude\<close>: bytes, errors, the result type \<open>res\<close> of code that can panic with its rules
    \<open>ensures\<close>, splitting and trimming of strings, association lists (Go maps).
  \<^item> \<open>Numeric_Replies\<close> (\<open>irc/numeric_replies.go\<close>), \<open>Irc_Message\<close> and \<open>Irc_Reader\<close> (\<open>irc/message.go\<close>,
    \<open>irc/helpers.go\<close>), \<open>Irc_Validate\<close> (\<open>irc/validate.go\<close>), \<open>Irc_ClientID\<close> (\<open>irc/clientid.go\<close>).
    \<open>Irc_Transport\<close>: the constructors that make a transport of a connection.
    \<open>Wire_Format\<close> proves when a message survives being written and read back, and states this
    as the interface \<open>message_codec\<close>. \<open>Irc_Mask\<close> (\<open>irc/mask/mask.go\<close>): \<open>ToRegexp\<close>, the fragment of
    Go's patterns that it writes with a matcher for it, and the masks of RFC 2812 to compare with.
  \<^item> \<open>Session_State\<close> (\<open>proxy/state/\<close>) and \<open>Session_Facts\<close>: when an update panics, what it keeps, and
    that the channel maps refine a roster of nicks per channel.
  \<^item> \<open>Log_Store\<close> (\<open>storage/storage.go\<close>): the methods as the record \<open>store_ops\<close> and their contract as
    the locale \<open>log_store\<close>, with \<open>reliable_store\<close> for a store that reports no error.
    \<open>Ephemeral_Store\<close> (\<open>storage/ephemeral/\<close>) and \<open>Sql_Store\<close> (\<open>storage/sql/\<close>) model the two
    backends and interpret the contract on them; the database is the parameter \<open>db_ops\<close>, with
    the documented behaviour of its four statements as the locale \<open>sql_db\<close>.
    \<open>Store_Conformance\<close> and \<open>Test_Generators\<close> (\<open>storage/testing/\<close>, \<open>irc/test_util.go\<close>): the
    repository's random test of a store, and that a store which meets the contract passes it.
  \<^item> \<open>Proxy_Model\<close> and \<open>Proxy_Handlers\<close> (\<open>proxy/proxy.go\<close>): the state of \<open>Proxy\<close>, every handler,
    one round of \<open>Run\<close> (\<open>Run_step\<close>), the loop (\<open>Run\<close>) and the reachable states. \<open>Stop\<close> is the
    event \<open>StopEvent\<close>.
  \<^item> \<open>Proxy_Invariant\<close>: what a predicate has to survive to hold in every reachable state, as
    locales: \<open>sending_invariant\<close> for the steps that send and close, \<open>logging_invariant\<close> with the two
    operations on the logs, \<open>handler_invariant\<close> with every change of the server's session,
    \<open>storing_invariant\<close> and \<open>proxy_invariant\<close> for predicates that survive every call of the store. The
    last is interpreted for the connections, the transports and the maps; every contract
    of a store gives a \<open>handler_invariant\<close> in \<open>Proxy_Delivery\<close>: no operation lowers the account of a
    message, the copies in the log and the copies written to clients. \<open>Proxy_Presence\<close> interprets
    \<open>storing_invariant\<close>: only what the server says changes what is known of its side.
    \<open>Proxy_Log\<close>: logging and replaying against the contract of the store. \<open>Proxy_Handshake\<close>: the
    two sides agree on an unfinished handshake. \<open>Proxy_Progress\<close>: which events can panic.
    \<open>Proxy_Total\<close>: whole runs return. \<open>Proxy_Clean\<close>: whole runs write only single lines.
    \<open>Proxy_Sequences\<close>: the welcome and the rejoining, message by message. \<open>Proxy_Silence\<close>: ticks close
    what is silent. \<open>Proxy_Backends\<close>: runs on two stores simulate each other (\<open>two_stores\<close>).
    \<open>Proxy_Transport\<close>: the daemon over the repository's own transports.
  \<^item> \<open>Filters\<close> (\<open>irc/filters/filters.go\<close>): the three filters as automata over the events of their
    \<open>select\<close> statements.
  \<^item> \<open>Net_Dialer\<close> (\<open>internal/netextra/\<close>, \<open>DialerConnector\<close>, \<open>ServerConfig\<close>): addresses and dialers.
    \<open>Base64\<close> and \<open>Sandstorm_Webui\<close> (\<open>sandstorm/webui/webui.go\<close>): each handler as a function from its
    request to the response and the events it sends. \<open>Json_Text\<close> and \<open>Config_Json\<close>: what the app
    uses of \<open>encoding/json\<close>, the text of a configuration and the parser for any text.
    \<open>Sandstorm_Main\<close> (\<open>cmd/sandstorm-irc-idler/main.go\<close>): the set-up and the loop over these events.
    \<open>Sandstorm_Process\<close> runs this loop together with the daemons it starts, which share one store:
    a step is a round of the loop, a round of the running daemon, or a stopped daemon that gets
    to reset its connections. \<open>Sandstorm_Network\<close> lifts what one daemon keeps to all of them
    (\<open>daemon_invariant\<close>) and puts the dialers below them. \<open>Sandstorm_Delivery\<close>: the account of a
    message over all daemons and restarts. \<open>Commands\<close>: \<open>cmd/irc-idler\<close>,
    \<open>AcceptLoop\<close>, and \<open>misc/pingpong-inspector\<close> with its two goroutines, interleaved call by call over
    the locks of the writers.
  \<^item> \<open>Scenario\<close>: the concrete world of the instances (\<open>_witness\<close>). \<open>Further_Facts\<close>: single
    operations. This theory: the properties that are claimed, C1 to C40.

  How the model corresponds to the code. A struct is a record, a Go map an association list, a
  string a list of bytes. The handlers take and return the whole proxy. What the environment
  decides is in \<open>env\<close>: the outcome of each write and dial, the clock, the order of a \<open>range\<close>, the
  store; its answers are functions of a counter, so a statement about every \<open>env\<close> covers every
  behaviour. \<open>trace\<close> records what is done to the transports, and with \<open>Drained\<close> the messages that
  \<open>shutdown\<close> receives only to throw them away: which they are, the environment decides when it
  opens the connection (\<open>unread\<close>). The accounts of C1 and C14 count what the loop receives; a
  stopped daemon loses what it has not received yet (\<open>stop_discards_unread\<close>). A panic is \<open>Fail Panic\<close>. Writes are
  allowed to fail in the model of the daemon although the writer of \<open>irc/message.go\<close> never reports it,
  because the daemon is written against the interface; C28 shows what this costs. The same
  pattern is used for the dialers (\<open>net_env\<close>), the web interface (\<open>web_env\<close>) and the Sandstorm
  process (\<open>main_env\<close>), where the packages \<open>crypto/tls\<close>, \<open>xsrftoken\<close> and the Sandstorm library are
  parameters.

  Bounds. The loop of \<open>replayLog\<close> runs with the fuel of \<open>env\<close>; C3 shows that fuel greater than the
  length of the log is enough for one replay, C6 that the longest log plus the number of events
  is enough for a run, C16 that the same holds for the whole app, and \<open>Fail OutOfFuel\<close> stands for no
  behaviour of the code. The parsers and \<open>ReadAll\<close> are total: each call consumes input; the parser
  of JSON values has fuel, and \<open>json_fuel\<close> shows that what it is given is enough. Go's \<open>int\<close> counts bytes and parameters of messages
  of at most 513 bytes, far below any wrap-around, and is \<open>nat\<close> or \<open>int\<close>; the port is a 16-bit word.

  Not modelled: log output for the operator; for the daemon the locks around readers and writers (they
  serialise callers and it has one goroutine; the inspector, which has two, has the writers' locks); the router, the template and the static files of the
  web interface; the wake lock; \<open>checkFatal\<close> of the two commands, which nothing calls or which ends the
  process. A round of a daemon is one step: it blocks in writes and dials, but nothing of the process but
  the logs is shared with it meanwhile. Patterns are matched on ASCII strings: on others
  \<open>regexp\<close> reads code points. \<open>Close\<close> of a cursor is modelled (\<open>eph_Close\<close>, \<open>sql_Close\<close>) but not called by
  the model of \<open>replayLog\<close>, where it is deferred: it only returns resources to the database.
\<close>

section \<open>Messages for the user are not lost\<close>

text \<open>
  C1: a whole run of the daemon loses nothing. For every PRIVMSG or NOTICE \<open>m\<close>: as many copies of \<open>m\<close> as
  the run received from the server, added to those that were in the log of its target at the start, have at
  the end been written successfully to clients or are in that log. The store reports no error;
  writes, dials and everything the clients do are arbitrary; every such run returns (C6).
\<close>

theorem run_loses_nothing:
  assumes "reliable_store ops good contents cgood pending fails keeps" and "store env = ops"
    and "good st" and "quiet_logs (contents st)" and "logs_within contents B st"
    and "B + length evs < fuel env" and "list_all harmless evs" and "list_all (kept keeps) evs"
    and "keeps m" and "for_user m"
  shows "\<exists>p. Run env evs (NewProxy st) = Ret p
    \<and> count_list (contents st (Params m ! 0)) m + copies_received env m evs (NewProxy st)
      \<le> count_list (contents (messagelogs p) (Params m ! 0)) m + to_clients m (trace p)"
proof -
  have "log_store ops good contents cgood pending fails keeps" using assms(1) by (rule reliable_store.axioms)
  from log_store.returns_Run [OF this assms(2), where p = "NewProxy st" and B = B and evs = evs] assms(3-8)
  obtain p where "Run env evs (NewProxy st) = Ret p" by (auto simp: NewProxy_def)
  with reliable_store.run_accounts [OF assms(1-3,8-10)] show ?thesis by blast
qed

theorem run_loses_nothing_witness:
  "\<exists>p. Run demo_env [ClientConn 7, ServerRecv (Some demo_msg), StopEvent] (NewProxy eph_NewStore) = Ret p
    \<and> 1 \<le> count_list (eph_contents (messagelogs p) ''#s'') demo_msg + to_clients demo_msg (trace p)"
proof -
  let ?evs = "[ClientConn 7, ServerRecv (Some demo_msg), StopEvent]"
  have c: "copies_received demo_env demo_msg ?evs (NewProxy eph_NewStore) = 1" by code_simp
  from run_loses_nothing [OF eph.reliable_store_axioms, where env = demo_env and st = eph_NewStore and B = 0
      and evs = ?evs and m = demo_msg]
  show ?thesis unfolding c
    by (simp del: Run.simps add: for_user_def quiet_logs_def logs_within_def eval_nat_numeral)
qed

text \<open>
  C2: a replay is all or nothing. Whatever fails on the way (the store, the cursor, a write to the
  client), either every log is as before, or the replayed log is empty, no other log has changed,
  and every message of it was written to the client in order, each write successful.
\<close>

theorem replay_all_or_nothing:
  assumes "log_store ops good contents cgood pending fails keeps"
    and "store env = ops" and "good (messagelogs p)" and "replayLog env name p = Ret p'"
  shows "contents (messagelogs p') = contents (messagelogs p)
    \<or> contents (messagelogs p') = (contents (messagelogs p))(name := [])
      \<and> (contents (messagelogs p) name = [] \<or> rwc (client p) \<noteq> None)
      \<and> trace p' = trace p @ map (\<lambda>m. Wrote (the (rwc (client p))) m True) (contents (messagelogs p) name)"
  using ensuresD [OF log_store.replayLog_all_or_nothing [OF assms(1-3)] assms(4)]
  by (auto simp: delivered_def)

theorem replay_all_or_nothing_witness:
  "\<exists>p'. replayLog demo_env ''#s'' demo_online = Ret p'
    \<and> (eph_contents (messagelogs p') = eph_contents (messagelogs demo_online)
      \<or> eph_contents (messagelogs p') = (eph_contents (messagelogs demo_online))(''#s'' := [])
        \<and> trace p' = [Wrote 7 demo_msg True])"
proof -
  obtain p' where "replayLog demo_env ''#s'' demo_online = Ret p'"
    using eph.replayLog_returns [where env = demo_env and p = demo_online and name = "''#s''"] by auto
  with replay_all_or_nothing [OF eph.log_store_axioms, where env = demo_env and p = demo_online
      and name = "''#s''" and p' = p']
  show ?thesis by simp
qed

text \<open>
  C3: to a client that takes every write, a replay delivers the whole log of the channel, in order
  and nothing else, and empties it. It terminates without a panic; the fuel has to exceed the
  length of the log.
\<close>

theorem replay_delivers:
  assumes "reliable_store ops good contents cgood pending fails keeps"
    and "store env = ops" and "good (messagelogs p)" and "rwc (client p) = Some h"
    and "\<forall>k<length (contents (messagelogs p) name). write_err env (tick p + k) = None"
    and "list_all params_present (contents (messagelogs p) name)"
    and "length (contents (messagelogs p) name) < fuel env"
  shows "\<exists>p'. replayLog env name p = Ret p'
    \<and> trace p' = trace p @ map (\<lambda>m. Wrote h m True) (contents (messagelogs p) name)
    \<and> contents (messagelogs p') = (contents (messagelogs p))(name := [])"
  using assms by (rule reliable_store.replayLog_delivers)

theorem replay_delivers_witness:
  "\<exists>p'. replayLog demo_env ''#s'' demo_online = Ret p' \<and> trace p' = [Wrote 7 demo_msg True]
    \<and> eph_contents (messagelogs p') ''#s'' = []"
  using replay_delivers [OF eph.reliable_store_axioms, where env = demo_env and p = demo_online and h = 7
      and name = "''#s''"] by (auto simp: fun_eq_iff)

section \<open>Coming back\<close>

text \<open>
  C4: a client that joins a channel the server still knows, and that it has not joined itself, is
  sent its JOIN, the topic (when there is one), one NAMES reply per user, the end of NAMES, then
  the log of the channel, and the log is empty afterwards. The users are those of the channel as
  it was at the beginning of the log and the client's own nick, each exactly once.
\<close>

theorem rejoin:
  assumes "reliable_store ops good contents cgood pending fails keeps" and "store env = ops"
    and "replayable good contents (fuel env) (messagelogs p)" and "all_written env"
    and "\<And>n xs. mset (range_order env n xs) = mset xs"
    and "rwc (client p) = Some h" and "wf_session (preLogSession p)"
    and "Done (Handshake (client_session p))" and "Params m = name # rest" and "Command m = ''JOIN''"
    and "length (Params m) \<le> 15"
    and "\<not> HaveChannel (client_session p) name" and "HaveChannel (server_session p) name"
  shows "\<exists>p' nicks. handleClientEvent env (Some m) p = Ret p'
    \<and> trace p' = trace p @ map (\<lambda>m. Wrote h m True)
        (rejoin_messages p name nicks @ contents (messagelogs p) name)
    \<and> contents (messagelogs p') = (contents (messagelogs p))(name := [])
    \<and> distinct nicks \<and> set nicks = members (preLogState p name) \<union> join_nick p"
proof -
  define q where "q = p\<lparr>preLogSession := fst (GetChannel (preLogSession p) name)\<rparr>"
  have v: "Validate m = None" using assms(9-11) by (simp add: Validate_None)
  have same: "p\<lparr>client := (client p)\<lparr>Session := Session_UpdateFromClient (client_session p) m\<rparr>\<rparr> = p"
    using assms(8) by (simp add: Session_UpdateFromClient_def)
  have st: "preLogState q name = preLogState p name"
    by (auto simp: q_def preLogState_def GetChannel_def Channels_GetChannel_def map_simps Let_def split: option.split)
  have "wf_session (preLogSession q)"
    using assms(7) tame_GetChannel [of "preLogSession p" name] by (simp add: q_def tame_def)
  from reliable_store.rejoin_sends [OF assms(1,4) _ this assms(2) _ assms(5), of h name] assms(3,6)
  obtain p' nicks where "rejoinChannel env name q = Ret p'"
    "trace p' = trace q @ map (\<lambda>m. Wrote h m True) (rejoin_messages q name nicks @ contents (messagelogs q) name)"
    "contents (messagelogs p') = (contents (messagelogs q))(name := [])"
    "distinct nicks" "set nicks = members (preLogState q name) \<union> join_nick q"
    by (auto simp: q_def)
  moreover have "handleClientEvent env (Some m) p = rejoinChannel env name q"
    using assms(8-10,12,13) unfolding handleClientEvent_valid [OF v refl] same by (simp add: q_def)
  moreover have "rejoin_messages q name nicks = rejoin_messages p name nicks" for nicks
    using st by (simp add: rejoin_messages_def Let_def q_def)
  ultimately show ?thesis using st by (auto simp: q_def join_nick_def)
qed

theorem rejoin_witness:
  "\<exists>p' nicks. handleClientEvent demo_env (Some (msg_of ''JOIN'' [''#s''])) demo_online = Ret p'
    \<and> trace p' = map (\<lambda>m. Wrote 7 m True) (rejoin_messages demo_online ''#s'' nicks @ [demo_msg])
    \<and> eph_contents (messagelogs p') ''#s'' = [] \<and> distinct nicks"
proof -
  have "\<exists>p' nicks. handleClientEvent demo_env (Some (msg_of ''JOIN'' [''#s''])) demo_online = Ret p'
    \<and> trace p' = trace demo_online @ map (\<lambda>m. Wrote 7 m True)
        (rejoin_messages demo_online ''#s'' nicks @ eph_contents (messagelogs demo_online) ''#s'')
    \<and> eph_contents (messagelogs p') = (eph_contents (messagelogs demo_online))(''#s'' := [])
    \<and> distinct nicks \<and> set nicks = members (preLogState demo_online ''#s'') \<union> join_nick demo_online"
    by (rule rejoin [OF eph.reliable_store_axioms, where rest = "[]"]) simp_all
  then show ?thesis by (auto simp: fun_eq_iff)
qed

text \<open>
  C5: a client that completes NICK and USER while the server's handshake is done is sent the four
  cached welcome messages, takes over the identity the server knows, and the server is asked
  for its message of the day. Nothing of the client's registration reaches the server.
\<close>

theorem welcomed_back:
  assumes "all_written env" and "rwc (client p) = Some h" and "rwc (server p) = Some hs"
    and "Done (Handshake (server_session p))" and "haveMsgCache p" and "Validate m = None"
    and "Command m \<in> {''PASS'', ''USER'', ''NICK''}"
    and "WantsWelcome (Handshake_UpdateFromClient (Handshake (client_session p)) m)"
  shows "\<exists>p'. handleClientEvent env (Some m) p = Ret p'
    \<and> trace p' = trace p @ map (\<lambda>w. Wrote h w True) (welcome_messages p) @ [Wrote hs (msg_of ''MOTD'' []) True]
    \<and> ClientID (client_session p') = ClientID (server_session p) \<and> server_session p' = server_session p
    \<and> messagelogs p' = messagelogs p"
  using assms by (rule welcome_back)

theorem welcomed_back_witness:
  "\<exists>p'. handleClientEvent demo_env (Some (msg_of ''USER'' [''al'', ''0'', ''*'', ''Alice''])) demo_greeting = Ret p'
    \<and> trace p' = map (\<lambda>w. Wrote 7 w True) (welcome_messages demo_greeting) @ [Wrote 100 (msg_of ''MOTD'' []) True]
    \<and> ClientID (client_session p') = demo_me"
proof -
  let ?m = "msg_of ''USER'' [''al'', ''0'', ''*'', ''Alice'']"
  have "WantsWelcome (Handshake_UpdateFromClient (Handshake (client_session demo_greeting)) ?m)"
    by (simp add: demo_greeting_def Done_def WantsWelcome_def Handshake_UpdateFromClient_def)
  with welcomed_back [where env = demo_env and p = demo_greeting and h = 7 and hs = 100 and m = ?m]
  show ?thesis by (auto simp: Validate_None)
qed

section \<open>Invariants of every reachable state\<close>

text \<open>
  C7: in every reachable state, whatever the environment does, a client is connected only while
  the server is, a server without a client has finished its handshake, and a connection has
  a transport exactly when it has a channel of messages.
\<close>

theorem connections_wired:
  assumes "reachable env st p"
  shows "(IsClosed (server p) \<longrightarrow> IsClosed (client p))
    \<and> (IsClosed (client p) \<and> \<not> IsClosed (server p) \<longrightarrow> Done (Handshake (server_session p)))
    \<and> rwc (client p) = chan (client p) \<and> rwc (server p) = chan (server p)"
  using wiring.reachable_keeps [OF assms wired_NewProxy] by (auto simp: wired_def)

theorem connections_wired_witness:
  "rwc (client (accept_client demo_env 7 (NewProxy eph_NewStore)))
    = chan (client (accept_client demo_env 7 (NewProxy eph_NewStore)))"
  using connections_wired [OF demo_reachable] by simp

text \<open>
  C8: as long as the server's handshake is not finished, client and server agree on its state, as
  the comments of \<open>handleHandshakeMessage\<close> claim, after every run, with a store that may fail. The
  logs have to be empty or hold logged commands only at the start, as the proxy itself leaves them.
\<close>

theorem handshakes_agree:
  assumes "log_store ops good contents cgood pending fails keeps" and "store env = ops"
    and "good st" and "quiet_logs (contents st)" and "logs_within contents B st"
    and "list_all (kept keeps) evs" and "Run env evs (NewProxy st) = Ret p"
    and "\<not> IsClosed (server p)" and "\<not> Done (Handshake (server_session p))"
  shows "\<not> IsClosed (client p) \<and> Handshake (client_session p) = Handshake (server_session p)"
proof -
  have "agree (NewProxy st)" "wired (NewProxy st)" by (simp add: agree_def NewProxy_def, rule wired_NewProxy)
  from ensuresD [OF log_store.agree_Run [OF assms(1,2) _ this assms(6)] assms(7), of B] assms(3-5)
  have "agree p" "wired p" by (simp_all add: NewProxy_def)
  with assms(8,9) show ?thesis by (auto simp: agree_def wired_def)
qed

theorem handshakes_agree_witness:
  "\<exists>p. Run demo_env [ClientConn 7, ClientRecv (Some demo_nick)] (NewProxy eph_NewStore) = Ret p
    \<and> \<not> IsClosed (server p) \<and> haveNick (Handshake (server_session p))
    \<and> Handshake (client_session p) = Handshake (server_session p)"
proof -
  let ?evs = "[ClientConn 7, ClientRecv (Some demo_nick)]"
  have logs: "quiet_logs (eph_contents eph_NewStore)" "logs_within eph_contents 0 eph_NewStore"
    by (simp_all add: quiet_logs_def logs_within_def)
  have "case Run demo_env ?evs (NewProxy eph_NewStore) of Fail f \<Rightarrow> False
    | Ret p \<Rightarrow> \<not> IsClosed (server p) \<and> haveNick (Handshake (server_session p)) \<and> \<not> Done (Handshake (server_session p))"
    by code_simp
  then obtain p where p: "Run demo_env ?evs (NewProxy eph_NewStore) = Ret p" "\<not> IsClosed (server p)"
    "haveNick (Handshake (server_session p))" "\<not> Done (Handshake (server_session p))"
    by (auto split: res.splits)
  from handshakes_agree [OF eph.log_store_axioms demo_env_simps(1) _ logs _ p(1,2,4)] p show ?thesis by auto
qed

text \<open>
  C9: in every reachable state the transports the trace has opened and not closed are exactly those
  of the two connections. So nothing is written to or closed after it was closed, no transport
  is leaked, and none is closed twice.
\<close>

theorem transports_tracked:
  assumes "reachable env st p"
  shows "track (trace p) {#} = Some (open_handles p)"
proof -
  have "tracked (NewProxy st :: 'a proxy)" by (simp add: tracked_def NewProxy_def open_handles_def)
  with transports.reachable_keeps [OF assms] show ?thesis by (simp add: tracked_def)
qed

theorem transports_tracked_witness:
  "track (trace (accept_client demo_env 7 (NewProxy eph_NewStore))) {#} = Some {#7, 100#}"
  using transports_tracked [OF demo_reachable]
  by (simp add: open_handles_def accept_client_def Let_def time_Now_def Connect_def NewProxy_def)

text \<open>
  C10: a run that was stopped has closed both sides, and every transport it ever opened.
\<close>

theorem stopped_clean:
  assumes "StopEvent \<in> set evs" and "Run env evs (NewProxy st) = Ret p"
  shows "IsClosed (client p) \<and> IsClosed (server p) \<and> track (trace p) {#} = Some {#}"
proof -
  have "tracked q \<Longrightarrow> ensures (Run env evs q) (\<lambda>p. tracked p \<and> IsClosed (client p) \<and> IsClosed (server p))" for q
    using assms(1)
  proof (induction evs arbitrary: q)
    case (Cons ev evs)
    then show ?case
      by (auto simp: tracked_reset intro: ensures_andThen [OF transports.keep_round])
  qed simp
  moreover have "tracked (NewProxy st)" by (simp add: tracked_def NewProxy_def open_handles_def)
  ultimately have "tracked p" "IsClosed (client p)" "IsClosed (server p)"
    using assms(2) by (auto simp: ensures_def)
  then show ?thesis by (auto simp: tracked_def open_handles_def IsClosed_def)
qed

theorem stopped_clean_witness:
  "\<exists>p. Run demo_env [ClientConn 7, StopEvent] (NewProxy eph_NewStore) = Ret p
    \<and> track (trace p) {#} = Some {#}"
  using stopped_clean [of "[ClientConn 7, StopEvent]" demo_env eph_NewStore] by simp

text \<open>
  C12: the daemon knows of the server's side what the server has told it. After every run that ends with
  the server connected, the user's identity and the nicks in each channel, as the server's session
  records them, are what one gets by applying \<open>told\<close> to the messages received from the server since
  the last dial, in order, starting from no identity and no channel; nothing the client does,
  no replay, tick or failed write moves them. What \<open>told\<close> says of a KICK follows the code, which
  takes out the one who kicks (see \<open>kick_removes_kicker\<close>).
\<close>

theorem presence_followed:
  assumes "Run env evs (NewProxy st) = Ret p" and "\<not> IsClosed (server p)"
  shows "presence (server_session p) = fold told (heard env evs (NewProxy st) []) nobody"
  using assms by (rule Run_presence)

theorem presence_followed_witness:
  "\<exists>p. Run demo_env [ClientConn 7, ServerRecv (Some demo_join), ServerRecv (Some demo_msg), Tick] (NewProxy eph_NewStore) = Ret p
    \<and> presence (server_session p) = fold told [demo_join, demo_msg] nobody" (is "\<exists>p. Run _ ?evs _ = _ \<and> _")
proof -
  have h: "heard demo_env ?evs (NewProxy eph_NewStore) [] = [demo_join, demo_msg]" by code_simp
  have "case Run demo_env ?evs (NewProxy eph_NewStore) of Fail f \<Rightarrow> False | Ret p \<Rightarrow> \<not> IsClosed (server p)" by code_simp
  then obtain p where "Run demo_env ?evs (NewProxy eph_NewStore) = Ret p" "\<not> IsClosed (server p)"
    by (auto split: res.splits)
  with presence_followed [OF this] h show ?thesis by metis
qed

section \<open>Progress and panics\<close>

text \<open>
  C6: the daemon does not die. A run of any length returns: no round panics and every replay ends, for
  all clients, all failures of writes, dials and the store (in memory or on a database), and all
  messages of the server that the store can keep but a KICK or a PART without parameters. The
  fuel has to exceed the longest log at the start plus the number of events, because a round
  makes a log at most one message longer.
\<close>

theorem run_returns:
  assumes "log_store ops good contents cgood pending fails keeps" and "store env = ops"
    and "good st" and "quiet_logs (contents st)" and "logs_within contents B st"
    and "B + length evs < fuel env" and "list_all harmless evs" and "list_all (kept keeps) evs"
  shows "\<exists>p. Run env evs (NewProxy st) = Ret p \<and> logs_within contents (B + length evs) (messagelogs p)"
  using log_store.returns_Run [OF assms(1,2), where p = "NewProxy st" and B = B and evs = evs] assms(3-8)
  by (auto simp: NewProxy_def)

theorem run_returns_witness:
  "\<exists>p. Run demo_env [ClientConn 7, ClientRecv (Some (msg_of ''NICK'' [''al''])), ServerRecv (Some demo_msg), Tick, StopEvent]
      (NewProxy eph_NewStore) = Ret p \<and> logs_within eph_contents 5 (messagelogs p)"
  using run_returns [OF eph.log_store_axioms, where env = demo_env and st = eph_NewStore and B = 0
      and evs = "[ClientConn 7, ClientRecv (Some (msg_of ''NICK'' [''al''])), ServerRecv (Some demo_msg), Tick, StopEvent]"]
  by (simp del: Run.simps add: quiet_logs_def logs_within_def eval_nat_numeral)

text \<open>
  C11: no line is ever injected. If the messages of a run were read from streams and the logs at its
  start are clean, then every message the proxy writes, to either side, forwarded, replayed or
  made up from what it remembers, is clean, and its text is a single line.
\<close>

theorem written_lines:
  assumes "log_store ops good contents cgood pending fails keeps" and "store env = ops"
    and "fair_order env" and "good st" and "clean_logs contents st" and "list_all read_event evs"
    and "list_all (kept keeps) evs" and "Run env evs (NewProxy st) = Ret p" and "Wrote h m b \<in> set (trace p)"
  shows "clean_msg m \<and> String m = line_text m @ [CR, LF] \<and> LF \<notin> set (line_text m)"
proof -
  have "list_all clean_event evs" using assms(6) by (auto simp: list_all_iff read_event_clean)
  moreover have "messagelogs (NewProxy st) = st" by (simp add: NewProxy_def)
  ultimately have "clean_parts p"
    using ensuresD [OF log_store.pure_Run [OF assms(1-3)] assms(8)] assms(4,5,7) clean_NewProxy by metis
  from written_clean [OF this assms(9)] clean_line show ?thesis by blast
qed

theorem written_lines_witness:
  "\<exists>p. Run demo_env [ClientConn 7, ClientRecv (Some demo_nick)] (NewProxy eph_NewStore) = Ret p
    \<and> Wrote 100 demo_nick True \<in> set (trace p) \<and> clean_msg demo_nick"
proof -
  let ?evs = "[ClientConn 7, ClientRecv (Some demo_nick)]"
  have "case Run demo_env ?evs (NewProxy eph_NewStore) of
      Ret p \<Rightarrow> Wrote 100 demo_nick True \<in> set (trace p) | Fail f \<Rightarrow> False"
    by code_simp
  then obtain p where p: "Run demo_env ?evs (NewProxy eph_NewStore) = Ret p" "Wrote 100 demo_nick True \<in> set (trace p)"
    by (cases "Run demo_env ?evs (NewProxy eph_NewStore)") auto
  have "ReadAll (NewReader (String demo_nick) EOF) = [demo_nick]" by code_simp
  then have "read_event (ClientRecv (Some demo_nick))" by (auto intro!: exI [of _ "String demo_nick"] exI [of _ EOF])
  with written_lines [OF eph.log_store_axioms, where env = demo_env and st = eph_NewStore, OF _ _ _ _ _ _ p]
  have "clean_msg demo_nick" by (simp add: fair_order_def clean_logs_def)
  with p show ?thesis by blast
qed

text \<open>
  C20: a KICK or PART without parameters from the server does crash it: \<open>Validate\<close> has no entry
  for these commands, and \<open>UpdateFromServer\<close> indexes the parameters.
\<close>

theorem kick_without_parameters_panics:
  assumes "Command m = ''KICK'' \<or> Command m = ''PART''" and "Params m = []"
  shows "handleServerEvent env (Some m) p = Fail Panic"
proof -
  have "Validate m = None" using assms by (auto simp: Validate_None min_params_of_def minParams_def)
  moreover have "Session_UpdateFromServer (server_session p) m = Fail Panic"
    using assms by (intro Session_update_panics) auto
  ultimately show ?thesis by (simp add: handleServerEvent_def)
qed

theorem kick_without_parameters_panics_witness:
  "handleServerEvent demo_env (Some (msg_of ''KICK'' [])) demo_online = Fail Panic"
  by (rule kick_without_parameters_panics) simp_all

text \<open>
  C29: peers that have gone silent are dropped. From every reachable state, when nothing but the ticker
  is ready any more, both sides are closed after finitely many rounds and stay closed, and
  every transport that was ever opened has been closed; no round panics, and any write may fail
  or succeed. The clock has to go on: it never steps back, and it passes every time.
\<close>

theorem silent_peers_dropped:
  assumes "reachable env st p" and "clock_runs env"
  shows "\<exists>N q. IsClosed (client q) \<and> IsClosed (server q) \<and> track (trace q) {#} = Some {#}
    \<and> (\<forall>n\<ge>N. Run env (replicate n Tick) p = Ret q)"
proof -
  obtain N q where q: "IsClosed (client q)" "IsClosed (server q)" "\<forall>n\<ge>N. Run env (replicate n Tick) p = Ret q"
    using silence_closes [OF assms(2)] by blast
  have "tracked (NewProxy st :: 'a proxy)" by (simp add: tracked_def NewProxy_def open_handles_def)
  with transports.reachable_keeps [OF assms(1)] have "tracked p" by blast
  then have "ensures (Run env (replicate N Tick) p) tracked"
    by (rule transports.handlers.keep_Run) (simp add: list_all_iff)
  with q(3) have "tracked q" by simp
  with q show ?thesis by (intro exI [of _ N] exI [of _ q]) (auto simp: tracked_def open_handles_def IsClosed_def)
qed

theorem silent_peers_dropped_witness:
  "\<exists>N q. Run demo_env (replicate N Tick) (accept_client demo_env 7 (NewProxy eph_NewStore)) = Ret q
    \<and> track (trace q) {#} = Some {#}"
proof -
  have "\<exists>n. t < int n" for t by (rule exI [of _ "nat (t + 1)"]) simp
  then have "clock_runs demo_env" by (simp add: clock_runs_def demo_env_def mono_def)
  from silent_peers_dropped [OF demo_reachable this] show ?thesis by blast
qed

section \<open>What the handlers do\<close>

text \<open>
  C21: before it is registered a client can only send PASS, USER and NICK: any other valid message
  changes nothing and reaches nobody.
\<close>

theorem unregistered_ignored:
  assumes "Validate m = None" and "\<not> Done (Handshake (client_session p))"
    and "Command m \<notin> {''PASS'', ''USER'', ''NICK''}"
  shows "handleClientEvent env (Some m) p = Ret p"
proof -
  have "Session_UpdateFromClient (client_session p) m = client_session p"
    using assms(3) by (simp add: Session_UpdateFromClient_def handshake_frame(1))
  then have same: "p\<lparr>client := (client p)\<lparr>Session := Session_UpdateFromClient (client_session p) m\<rparr>\<rparr> = p"
    by simp
  show ?thesis using assms(2,3) unfolding handleClientEvent_valid [OF assms(1) refl] same
    by (simp add: handleHandshakeMessage_def)
qed

theorem unregistered_ignored_witness:
  "handleClientEvent demo_env (Some demo_msg) demo_greeting = Ret demo_greeting"
  by (rule unregistered_ignored) (simp_all add: demo_greeting_def Done_def)

text \<open>
  C22: an invalid message of the client is answered with the error that \<open>Validate\<close> builds, and the
  client is dropped. The server's connection survives when its handshake is done.
\<close>

theorem invalid_client_dropped:
  assumes "Validate m = Some e" and "rwc (client p) = Some h" and "chan (client p) = Some h"
    and "write_err env (tick p) = None" and "Done (Handshake (server_session p))"
  shows "\<exists>p'. handleClientEvent env (Some m) p = Ret p' \<and> client p' = emptyConnection
    \<and> server p' = server p \<and> trace p' = trace p @ [Wrote h e True, Closed h, Drained h (unread (client p))]"
proof -
  obtain cs ps where "sendClient env e p = Ret (None, p\<lparr>tick := Suc (tick p), trace := trace p @ [Wrote h e True],
      client := (client p)\<lparr>Session := cs\<rparr>, preLogSession := ps\<rparr>)"
    using sendClient_written [OF assms(2,4) params_present_Validate [OF assms(1)]] .
  with assms show ?thesis
    by (auto simp: handleClientEvent_def do_sendClient_def dropClient_def shutdown_client_def shutdown_def IsClosed_def)
qed

theorem invalid_client_dropped_witness:
  "\<exists>p'. handleClientEvent demo_env (Some (msg_of ''JOIN'' [])) demo_joined = Ret p' \<and> client p' = emptyConnection"
proof -
  have "Validate (msg_of ''JOIN'' []) = Some (msg_of ERR_NEEDMOREPARAMS [''Not enough parameters''])"
    by (simp add: Validate_def)
  then show ?thesis
    using invalid_client_dropped [where m = "msg_of ''JOIN'' []" and p = demo_joined and env = demo_env and h = 7]
    by auto
qed

text \<open>
  C23: somebody else's JOIN records the channel for a registered client that has not joined it. Its
  own JOIN is then dropped: it gets no topic, no names and no log, although the server's side
  is in the channel.
\<close>

theorem foreign_join_swallows_rejoin:
  assumes "rwc (client p) = Some h" and "write_err env (tick p) = None"
    and "Done (Handshake (client_session p))"
  shows "\<exists>p'. handleServerEvent env (Some \<lparr>Prefix = other, Command = ''JOIN'', Params = [name]\<rparr>) p = Ret p'
    \<and> handleClientEvent env (Some (msg_of ''JOIN'' [name])) p' = Ret p'"
proof -
  let ?m = "\<lparr>Prefix = other, Command = ''JOIN'', Params = [name]\<rparr>"
  have v: "Validate ?m = None" by (simp add: Validate_None)
  obtain ss where ss: "Session_UpdateFromServer (server_session p) ?m = Ret ss"
    using Session_update_Ret [OF params_present_sent(1)] .
  define q where "q = p\<lparr>server := (server p)\<lparr>Session := ss\<rparr>\<rparr>"
  have q: "rwc (client q) = Some h" "write_err env (tick q) = None" using assms(1,2) by (simp_all add: q_def)
  obtain cs ps where cs: "Session_UpdateFromServer (client_session q) ?m = Ret cs"
    and s: "sendClient env ?m q = Ret (None, q\<lparr>tick := Suc (tick q), trace := trace q @ [Wrote h ?m True],
      client := (client q)\<lparr>Session := cs\<rparr>, preLogSession := ps\<rparr>)"
    using sendClient_written [OF q params_present_sent(1), of other name] .
  let ?p = "q\<lparr>tick := Suc (tick q), trace := trace q @ [Wrote h ?m True],
      client := (client q)\<lparr>Session := cs\<rparr>, preLogSession := ps\<rparr>"
  have "handleServerEvent env (Some ?m) p = sendClient_or_log env ?m q"
    using v ss assms(3)
    by (simp add: handleServerEvent_def handle_server_command_def passed_through_def nick_errors_def q_def)
  also have "\<dots> = Ret ?p" using s by (simp add: sendClient_or_log_def)
  finally have e: "handleServerEvent env (Some ?m) p = Ret ?p" .
  have d: "Done (Handshake (client_session ?p))"
    using assms(3) Session_update_Handshake [OF cs] by (simp add: q_def)
  have "roster_of (channels cs) name \<noteq> None"
    using Session_roster [OF cs] by (simp add: roster_step_def)
  then have "HaveChannel (client_session ?p) name"
    by (simp add: HaveChannel_def Channels_HaveChannel_def roster_of_def)
  with d have "handleClientEvent env (Some (msg_of ''JOIN'' [name])) ?p = Ret ?p"
    by (intro join_of_joined [where name = name and rest = "[]"]) simp_all
  with e show ?thesis by blast
qed

theorem foreign_join_swallows_rejoin_witness:
  "\<exists>p'. handleServerEvent demo_env (Some \<lparr>Prefix = ''carl'', Command = ''JOIN'', Params = [''#s'']\<rparr>) demo_online = Ret p'
    \<and> handleClientEvent demo_env (Some (msg_of ''JOIN'' [''#s''])) p' = Ret p'"
  by (rule foreign_join_swallows_rejoin [where h = 7]) simp_all

text \<open>
  C24: a valid PRIVMSG or NOTICE of the server is not lost when the store reports no error and gives the
  message back as it was given it (\<open>keeps\<close>: in memory every message, over SQL a storable one (C25);
  \<open>smiley_corrupted\<close> shows one that comes back changed). It is written to the connected client
  and the logs stay as they are, or it is appended to the log of its target: whether or not a client
  is connected, has joined the target, or takes the write.
\<close>

theorem message_not_lost:
  assumes "reliable_store ops good contents cgood pending fails keeps"
    and "store env = ops" and "good (messagelogs p)" and "keeps m" and "Validate m = None"
    and "Command m \<in> {''PRIVMSG'', ''NOTICE''}"
  shows "\<exists>p'. handleServerEvent env (Some m) p = Ret p' \<and> good (messagelogs p')
    \<and> ((\<exists>h. rwc (client p) = Some h \<and> trace p' = trace p @ [Wrote h m True]
           \<and> contents (messagelogs p') = contents (messagelogs p))
      \<or> contents (messagelogs p') =
          (contents (messagelogs p))(Params m ! 0 := contents (messagelogs p) (Params m ! 0) @ [m]))"
  using assms by (rule reliable_store.server_message_not_lost)

theorem message_not_lost_witness:
  "\<exists>p'. handleServerEvent demo_env (Some demo_msg) demo_idle = Ret p'
    \<and> eph_contents (messagelogs p') ''#s'' = [demo_msg, demo_msg]"
proof -
  from message_not_lost [OF eph.reliable_store_axioms, where env = demo_env and p = demo_idle and m = demo_msg]
  obtain p' where "handleServerEvent demo_env (Some demo_msg) demo_idle = Ret p'"
    "eph_contents (messagelogs p') = (eph_contents (messagelogs demo_idle))(''#s'' := [demo_msg, demo_msg])"
    by auto
  then show ?thesis by simp
qed

section \<open>Messages on the wire\<close>

text \<open>
  C25: a message comes back from its own text exactly when it is \<open>storable\<close>: no line feed in it, at
  most 512 bytes, and its words are words, with a last parameter that has a space or is neither
  empty nor begins with a colon.
\<close>

theorem text_roundtrip: "ParseMessage (String m) = Inr m \<longleftrightarrow> storable m"
  by (rule storable_iff)

text \<open>
  C26: a stream that carries the texts of storable messages is read as these messages, in order and
  completely, whatever follows.
\<close>

theorem stream_roundtrip:
  assumes "list_all storable ms"
  shows "ReadAll (NewReader (concat (map String ms) @ rest) e) = ms @ ReadAll (NewReader rest e)"
  using assms by (intro ReadAll_append) (auto simp: list_all_iff)

theorem stream_roundtrip_witness:
  "ReadAll (NewReader (String (msg_of ''PING'' [''x'']) @ String (msg_of ''QUIT'' [])) EOF)
    = [msg_of ''PING'' [''x''], msg_of ''QUIT'' []]"
  using stream_roundtrip [of "[msg_of ''PING'' [''x''], msg_of ''QUIT'' []]" "[]" EOF]
  by (simp add: ReadAll_error ReadMessage_Nil storable_def wire_ok_def command_ok_def Len_eq String_eq
      line_text_def prefix_text_def last_param_text_def MaxMessageLen_def)

text \<open>
  C27: every message that is read is at most one byte longer than the protocol allows when it is
  written again, and no line feed is in it, so it stays one line.
\<close>

theorem read_bounded:
  assumes "ReadMessage (NewReader s e) = (Inr m, r)"
  shows "length (String m) \<le> 513 \<and> LF \<notin> set (line_text m)"
  using read_message_bounds [OF assms] by (simp add: Len_eq MaxMessageLen_def)

theorem read_bounded_witness: "length (String (msg_of ''QUIT'' [])) \<le> 513"
proof -
  have "ReadMessage (NewReader (String (msg_of ''QUIT'' []) @ []) EOF) = (Inr (msg_of ''QUIT'' []), NewReader [] EOF)"
    by (rule ReadMessage_String) (simp add: storable_def wire_ok_def command_ok_def Len_eq String_eq
      line_text_def prefix_text_def MaxMessageLen_def)
  from read_bounded [OF this] show ?thesis by simp
qed

text \<open>
  C28: over the repository's own transports the promise of C1 is not kept, because \<open>WriteMessage\<close> reports
  success for every connection (\<open>checkErr\<close> keeps a new error only when it has one already). A message
  for a channel that the client has joined is counted as written and not logged, also when the
  connection below takes nothing at all: it is lost.
\<close>

theorem failed_write_loses_message:
  assumes "for_user m" and "rwc (client p) = Some h"
    and "HaveChannel (client_session p) (Params m ! 0) \<or> IsMe (client_session p) (Params m ! 0)"
    and "dead_writer (conn_Write (conns (tick p)))"
  shows "\<exists>p'. handleServerEvent (over_conns conns msgs ws env) (Some m) p = Ret p'
    \<and> trace p' = trace p @ [Wrote h m True] \<and> messagelogs p' = messagelogs p
    \<and> rwc_WriteMessage (NewReadWriteCloser (conns (tick p))) m w = (None, w)"
  using joined_never_logged [of m p h conns msgs ws env] dead_WriteMessage [OF assms(4), of m w] assms(1-3)
  by (simp add: for_user_def written_through)

theorem failed_write_loses_message_witness:
  "\<exists>p'. handleServerEvent (over_conns (\<lambda>n. \<lparr>conn_Read = ([], EOF), conn_Write = (\<lambda>w bs. ((0, Some (ErrIO 5)), w)),
        conn_Close = (\<lambda>w. (None, w))\<rparr>) (\<lambda>n. demo_msg) (\<lambda>n. ()) demo_env) (Some demo_msg) demo_joined = Ret p'
    \<and> trace p' = [Wrote 7 demo_msg True] \<and> eph_contents (messagelogs p') ''#s'' = [demo_msg]"
  using failed_write_loses_message [of demo_msg demo_joined 7 "\<lambda>n. \<lparr>conn_Read = ([], EOF),
      conn_Write = (\<lambda>w bs. ((0, Some (ErrIO 5)), w)), conn_Close = (\<lambda>w. (None, w))\<rparr>" "\<lambda>n. demo_msg" "\<lambda>n. ()" demo_env "()"]
  by (auto simp: for_user_def dead_writer_def)

section \<open>Client identifiers\<close>

text \<open>
  C30: a client identifier comes back from its own text when it has at most one flag, a nick, no
  separators inside its parts and no user without a host.
\<close>

theorem client_id_roundtrip:
  assumes "client_id_ok i"
  shows "ParseClientID (ClientID_String i) = Inr i"
  using assms by (rule parse_print)

theorem client_id_roundtrip_witness: "ParseClientID (ClientID_String demo_me) = Inr demo_me"
  by (rule client_id_roundtrip) (simp add: demo_me_def client_id_ok_def has_flag_def)

section \<open>Channels\<close>

text \<open>
  C32: the nested maps of the channels implement the roster, the set of nicks in each channel: every
  message of the server moves them as \<open>roster_step\<close> moves the sets.
\<close>

theorem channels_refine_roster:
  assumes "Channels_UpdateFromServer chans m = Ret chans'"
  shows "roster_of chans' = roster_step (roster_of chans) m"
  using assms by (rule roster_refines)

theorem channels_refine_roster_witness:
  "\<exists>chans'. Channels_UpdateFromServer [(''#s'', demo_chan)] (msg_of ''JOIN'' [''#t'']) = Ret chans'
    \<and> roster_of chans' = roster_step (roster_of [(''#s'', demo_chan)]) (msg_of ''JOIN'' [''#t''])"
proof -
  have "params_present (msg_of ''JOIN'' [''#t''])" by (simp add: params_present_def)
  then obtain chans' where "Channels_UpdateFromServer [(''#s'', demo_chan)] (msg_of ''JOIN'' [''#t'']) = Ret chans'"
    using Channels_update_Ret by blast
  with channels_refine_roster [OF this] show ?thesis by blast
qed

section \<open>The message logs\<close>

text \<open>
  C34: over every database that keeps the promises of SQL, when all messages that were logged are
  storable (C25), a replay of the store on top of it delivers a prefix of what was logged, and all of
  it unless the database reports an error: then the cursor ends in that error, never in a false end
  of the log. Of the others the store does not promise this: the text of a message whose last
  parameter begins with a colon is read back as another message (\<open>smiley_corrupted\<close>), and one that
  is too long ends the replay with an error (\<open>long_line_not_storable\<close>).
\<close>

theorem sql_store_replays:
  assumes "sql_db D table" and "sql_inv table s" and "list_all storable ms"
    and "log_all (sql_ops D) s name ms = Some s1" and "sql_Replay D s1 name = (Inr c, s2)"
    and "length (sql_contents table s name @ ms) < n"
  shows "\<exists>read rest e. read_cursor (sql_ops D) n c = (read, Some e)
    \<and> sql_contents table s name @ ms = read @ rest \<and> (e = EOF \<longrightarrow> rest = [])"
  using assms by (rule sql_db.replay_reads_prefix)

theorem sql_store_replays_witness:
  "\<exists>read rest e c. sql_Replay table_db \<lparr>db = [(''#s'', String demo_msg)], haveSchema = True\<rparr> ''#s'' = (Inr c, \<lparr>db = [(''#s'', String demo_msg)], haveSchema = True\<rparr>)
    \<and> read_cursor (sql_ops table_db) 2 c = (read, Some e)
    \<and> [demo_msg] = read @ rest \<and> (if e = EOF then read = [demo_msg] else True)"
proof -
  have st: "storable demo_msg"
    unfolding demo_msg_def by code_simp
  let ?empty = "\<lparr>db = [], haveSchema = True\<rparr>" and ?full = "\<lparr>db = [(''#s'', String demo_msg)], haveSchema = True\<rparr>"
  have l: "log_all (sql_ops table_db) ?empty ''#s'' [demo_msg] = Some ?full"
    by (simp add: sql_ops_def sql_LogMessage_def table_db_def)
  obtain c where r: "sql_Replay table_db ?full ''#s'' = (Inr c, ?full)"
    by (simp add: sql_Replay_def table_db_def)
  have "sql_inv (\<lambda>t. t) ?empty" "sql_contents (\<lambda>t. t) ?empty ''#s'' = []"
    by (simp_all add: sql_inv_def sql_contents_def select_texts_def)
  with sql_store_replays [OF mem.sql_db_axioms _ _ l r, of 2] st r show ?thesis by fastforce
qed

text \<open>
  C31: the choice of the backend makes no difference as long as every message of the server is storable
  (C25), so that the database gives it back as the store in memory does. In the same world (the same writes fail, the same
  dials succeed, the same events come in) a run on the store in memory and a run on a database that
  reports no error do exactly the same: both return or both panic, they have done the same to
  the same transports, in the same order, every field of the daemon agrees, and so do all logs.
\<close>

theorem backends_equivalent:
  assumes "reliable_db D table" and "table d = []" and "same_world env env'" and "store env = eph_ops"
    and "store env' = sql_ops D" and "list_all (kept storable) evs"
  shows "sim_res (\<lambda>p q. same_but_logs p q \<and> eph_contents (messagelogs p) = sql_contents table (messagelogs q))
    (Run env evs (NewProxy eph_NewStore)) (Run env' evs (NewProxy (sql_NewStore d)))"
  using assms by (rule reliable_db.backends_run)

theorem backends_equivalent_witness:
  "\<exists>q. Run \<lparr>store = sql_ops table_db, write_err = write_err demo_env, dial = dial demo_env, clock = clock demo_env,
        backlog = backlog demo_env,
        range_order = range_order demo_env, fuel = fuel demo_env\<rparr>
      [ClientConn 7, ServerRecv (Some demo_msg)] (NewProxy (sql_NewStore [])) = Ret q
    \<and> trace q = [Accepted 7, Dialed (Some 100)] \<and> sql_contents (\<lambda>t. t) (messagelogs q) ''#s'' = [demo_msg]"
    (is "\<exists>q. Run ?env ?evs _ = _ \<and> _")
proof -
  have st: "list_all (kept storable) ?evs" unfolding demo_msg_def by code_simp
  have "case Run demo_env ?evs (NewProxy eph_NewStore) of Fail f \<Rightarrow> False
    | Ret p \<Rightarrow> trace p = [Accepted 7, Dialed (Some 100)] \<and> eph_contents (messagelogs p) ''#s'' = [demo_msg]"
    by code_simp
  then obtain p where p: "Run demo_env ?evs (NewProxy eph_NewStore) = Ret p" "trace p = [Accepted 7, Dialed (Some 100)]"
    "eph_contents (messagelogs p) ''#s'' = [demo_msg]"
    by (auto split: res.splits)
  have "same_world demo_env ?env" by (simp add: same_world_def)
  from backends_equivalent [OF mem.reliable_db_axioms _ this _ _ st, of "[]"] p show ?thesis
    by (cases "Run ?env ?evs (NewProxy (sql_NewStore []))") (auto simp: same_but_logs_def simp del: Run.simps)
qed

section \<open>Filters\<close>

text \<open>
  C37: \<open>RateLimit\<close> copies what it receives, in order, nothing lost and nothing twice; and from any
  point of its run on it copies at most the maximal quota plus one message per tick.
\<close>

theorem rate_limited:
  assumes "1 \<le> maxQuota" and "RateLimit_run maxQuota before (RateLimit_start initQuota maxQuota) = Some s"
    and "RateLimit_run maxQuota evs s = Some s'"
  shows "copied s' = copied s @ received evs
    \<and> int (length (copied s')) \<le> int (length (copied s)) + maxQuota + int (ticks evs)"
proof -
  have "rate_ok (RateLimit_start initQuota maxQuota)"
    using assms(1) by (simp add: rate_ok_def RateLimit_start_def)
  then have ok: "rate_ok s" using rate_ok_run [OF assms(1) _ assms(2)] by blast
  have "rate_phase s = Returned \<Longrightarrow> evs = []"
    using assms(3) by (cases evs) (auto simp: RateLimit_step_def)
  with rate_window [OF assms(1) ok assms(3)] rate_copies [OF assms(3)] assms(1) show ?thesis
    by (auto simp: clamp_def split: if_splits)
qed

theorem rate_limited_witness:
  "\<exists>s. RateLimit_run 1 [SrcRecv (Some demo_msg)] (RateLimit_start 5 1) = Some s \<and> length (copied s) \<le> 1"
proof -
  obtain s where s: "RateLimit_run 1 [SrcRecv (Some demo_msg)] (RateLimit_start 5 1) = Some s"
    by (simp add: RateLimit_start_def RateLimit_step_def Let_def)
  have "RateLimit_run 1 [] (RateLimit_start 5 1) = Some (RateLimit_start 5 1)" by simp
  from rate_limited [OF _ this s] s show ?thesis by (simp add: RateLimit_start_def)
qed

text \<open>
  C38: \<open>AutoPing\<close> never blocks on its timer, calls \<open>disconnect\<close> only when the timer has run out twice
  since the last message, and forwards the messages other than PONG in order.
\<close>

theorem auto_ping:
  assumes "AutoPing_run evs AutoPing_start = Some (Ret s)"
  shows "ping_phase s \<noteq> Stuck
    \<and> (ping_phase s = Disconnected \<longrightarrow> silent_expiries evs 0 = 2)
    \<and> (\<exists>rest. filter (\<lambda>m. Command m \<noteq> ''PONG'') (ping_received evs) = ping_forwarded s @ rest)"
proof -
  have st: "ping_ok 0 AutoPing_start" "ping_forwards [] AutoPing_start"
    by (simp_all add: ping_ok_def ping_forwards_def ping_in_flight_def AutoPing_start_def)
  show ?thesis using ping_ok_run [OF st(1) assms] ping_forwards_run [OF st assms]
    by (auto simp: ping_ok_def ping_forwards_def split: if_splits)
qed

theorem auto_ping_witness:
  "\<exists>s. AutoPing_run [TimerExpires, TimerRecv, PingSendTaken, TimerExpires, TimerRecv] AutoPing_start = Some (Ret s)
    \<and> silent_expiries [TimerExpires, TimerRecv, PingSendTaken, TimerExpires, TimerRecv] 0 = 2"
proof -
  obtain s where s: "AutoPing_run [TimerExpires, TimerRecv, PingSendTaken, TimerExpires, TimerRecv] AutoPing_start
      = Some (Ret s)" "ping_phase s = Disconnected"
    by (simp add: AutoPing_step_def AutoPing_start_def)
  from auto_ping [OF s(1)] s show ?thesis by blast
qed

section \<open>The Sandstorm app\<close>

text \<open>
  C13: in every reachable state of the app's loop the daemon runs exactly when a port is configured
  and a network capability is there, with the current configuration and the current network.
  On the way at most one daemon ran at a time, each was stopped before the next started, and only
  the running one was given clients (\<open>daemon_after\<close> checks the actions against these rules).
\<close>

theorem daemon_current:
  assumes "main_reachable env wenv xsrfKey fs st"
  shows "(daemon st = None \<longleftrightarrow> cfg_Port (serverConfig st) = 0 \<or> ipNetwork st = None)
    \<and> daemon_after None (actions st) =
        Some (case daemon st of
                None \<Rightarrow> None
              | Some k \<Rightarrow> Some (k, the (ipNetwork st), config_connector (serverConfig st)))"
  using main_reachable_wf [OF assms] by (simp add: wf_main_def daemon_view_def)

theorem daemon_current_witness:
  "\<exists>st. main_reachable demo_main demo_web ''key'' (\<lambda>path. None) st \<and> daemon st = Some 0
    \<and> daemon_after None (actions st) = Some (Some (0, the (ipNetwork st), config_connector (serverConfig st)))"
proof -
  obtain st where "main_reachable demo_main demo_web ''key'' (\<lambda>path. None) st" "daemon st = Some 0"
    using demo_app_network by blast
  with daemon_current [OF this(1)] show ?thesis by auto
qed

text \<open>
  C17: a configuration that was saved without an error is the one the app starts with next time: the
  whole text of \<open>encoding/json\<close> is written and parsed again. Only bytes of the host that are no
  UTF-8 are lost. If the file cannot be read, the app starts without a server.
\<close>

theorem config_persisted:
  assumes "saveServerConfig env cfg st = (None, st')" and "main_start env (files st') = Ret st''"
  shows "serverConfig st'' =
      (if read_err env serverConfigFile = None then cfg\<lparr>cfg_Host := to_valid_utf8 (cfg_Host cfg)\<rparr> else zero_config)
    \<and> (valid_utf8 (cfg_Host cfg) \<longrightarrow> cfg\<lparr>cfg_Host := to_valid_utf8 (cfg_Host cfg)\<rparr> = cfg)"
proof -
  let ?st = "\<lparr>serverConfig = zero_config, daemon = None, daemonClientConns = None, ipNetwork = None,
                files = files st', next_daemon = 0, actions = []\<rparr>"
  have s: "serverConfig st'' = fst (loadServerConfig env ?st)" using assms(2) by (auto simp: main_start_def)
  show ?thesis
  proof (cases "read_err env serverConfigFile")
    case None
    with load_after_save [OF assms(1) None, of ?st] s show ?thesis by (simp add: to_valid_utf8_id)
  next
    case (Some err)
    then show ?thesis using s by (simp add: loadServerConfig_def ReadFile_def to_valid_utf8_id)
  qed
qed

theorem config_persisted_witness:
  "\<exists>st. main_start demo_main (files demo_app_set) = Ret st \<and> serverConfig st = demo_config"
proof -
  have s: "saveServerConfig demo_main demo_config demo_app = (None, snd (saveServerConfig demo_main demo_config demo_app))"
    "files (snd (saveServerConfig demo_main demo_config demo_app)) = files demo_app_set"
    by (simp_all add: saveServerConfig_def WriteFile_def demo_main_def demo_app_set_def json_Marshal_def)
  have "valid_utf8 (cfg_Host demo_config)" by (rule valid_utf8_ascii) (simp add: demo_config_def)
  moreover obtain st where st: "main_start demo_main (files demo_app_set) = Ret st"
    using main_start_wf by blast
  ultimately show ?thesis using config_persisted [OF s(1), of st] s(2) by (simp add: demo_main_def)
qed

text \<open>
  C18: the only configurations that reach the loop are those of a form that was parsed, that carries a
  token valid for this page, and whose port is not zero; each of these does.
\<close>

theorem settings_checked:
  "SetServerConfig cfg \<in> set (request_events env xsrfKey req) \<longleftrightarrow>
     (\<exists>form. req = PostSettings None (Inr form) \<and> cfg = Config form \<and> cfg_Port cfg \<noteq> 0
       \<and> xsrf_Valid env (XSRFToken form) xsrfKey ''TODO'' ''/proxy-settings'')"
proof
  assume "\<exists>form. req = PostSettings None (Inr form) \<and> cfg = Config form \<and> cfg_Port cfg \<noteq> 0
       \<and> xsrf_Valid env (XSRFToken form) xsrfKey ''TODO'' ''/proxy-settings''"
  then show "SetServerConfig cfg \<in> set (request_events env xsrfKey req)"
    by (auto simp: post_settings_sends form_Validate_None)
qed (use request_config_checked in blast)

text \<open>
  C19: with TLS switched on, a connection is only returned after a handshake that verified the host
  of the address that was dialed, and it is that TLS connection, not the bare one. After any
  error no connection is left open.
\<close>

theorem tls_verified:
  assumes "dc_Dialer dc = TLSDialer BaseDialer" and "DialerConnector_Connect env dc tr = (r, tr')"
  shows "case r of
      Inr conn \<Rightarrow> (\<exists>host port c. SplitHostPort (dc_Addr dc) = Inr (host, port) \<and> conn = Tls host (Raw c)
        \<and> NetHandshake host (Raw c) True \<in> set tr' \<and> open_conns tr' = c # open_conns tr)
    | Inl err \<Rightarrow> open_conns tr' = open_conns tr"
  using assms by (auto simp: DialerConnector_Connect_def open_conns_def split: sum.splits prod.splits option.splits)

theorem tls_verified_witness:
  "\<exists>c tr. DialerConnector_Connect demo_net (config_connector demo_config) [] = (Inr (Tls ''irc.example'' (Raw c)), tr)
    \<and> NetHandshake ''irc.example'' (Raw c) True \<in> set tr"
proof -
  have d: "dc_Dialer (config_connector demo_config) = TLSDialer BaseDialer"
    by (simp add: config_connector_def demo_config_def)
  have s: "SplitHostPort (dc_Addr (config_connector demo_config)) = Inr (''irc.example'', dec_digits 6697)"
    using ServerConfig_address [of demo_config] by (simp add: config_connector_def demo_config_def plain_host_def)
  obtain r tr where c: "DialerConnector_Connect demo_net (config_connector demo_config) [] = (r, tr)" by force
  from c s d have "\<exists>conn. r = Inr conn"
    by (auto simp: DialerConnector_Connect_def demo_net_def)
  with tls_verified [OF d c] s c show ?thesis by auto
qed

section \<open>The app and its daemons together\<close>

text \<open>
  C14: the app as a whole loses nothing that its daemons receive, however often they are restarted.
  For every PRIVMSG or NOTICE \<open>m\<close>: as many copies as its daemons, one after the other, received from
  their servers have been written successfully to clients by some daemon or are in the shared log of
  the target, while settings, networks and clients come in and old daemons shut down.
  The conditions. The store reports no error. Its logs hold at the start only what the daemon logs,
  with parameters, and their length and that of the run are within the fuel. A server sends no KICK
  or PART without parameters (C20), and only messages that the store gives back as it was given
  them (\<open>keeps\<close>): in memory these are all, over SQL those that are \<open>storable\<close> (C25), so not one with
  a last parameter that begins with a colon. Received are the messages that the loop of a daemon
  takes from its channel: what is still unread when a daemon is stopped is drained, and lost.
\<close>

theorem app_loses_nothing:
  assumes "reliable_store ops good contents cgood pending fails keeps" and "all_daemons ops n denv"
    and "good st" and "quiet_logs (contents st)" and "logs_within contents B st" and "B + length evs < n"
    and "list_all (requested wenv xsrfKey) evs" and "list_all (acceptable keeps) evs"
    and "keeps m" and "for_user m"
  shows "\<exists>s s'. process_start menv denv fs st = Ret s \<and> process_run menv denv evs s = Ret s'
    \<and> count_list (contents st (Params m ! 0)) m + process_received menv denv m evs s
      \<le> count_list (contents (shared_logs s') (Params m ! 0)) m
        + (\<Sum>k<next_daemon (app s'). daemon_writes m (daemons s' k))"
proof -
  have ls: "log_store ops good contents cgood pending fails keeps" using assms(1) by (rule reliable_store.axioms)
  have "\<exists>s. process_start menv denv fs st = Ret s \<and> wf_process s \<and> shared_logs s = st"
    by (rule process_start_good)
  then obtain s where s: "process_start menv denv fs st = Ret s" "wf_process s" "shared_logs s = st" by blast
  have "good (shared_logs s) \<and> logs_within contents B (shared_logs s) \<and> quiet_logs (contents (shared_logs s))"
    using assms(3-5) s(3) by simp
  from log_store.process_run_returns [OF ls assms(2,6) s(2) this assms(7,8), of menv]
  obtain s' where s': "process_run menv denv evs s = Ret s'" by blast
  from reliable_store.process_accounts [OF assms(1-3) s(1) assms(8-10) s'] s(1) s'
  show ?thesis unfolding process_total_def by blast
qed

theorem app_loses_nothing_witness:
  "\<exists>s s'. process_start demo_main demo_daemons (\<lambda>path. None) eph_NewStore = Ret s
    \<and> process_run demo_main demo_daemons (demo_boot @ DaemonRecv 0 (ServerRecv (Some demo_msg)) # demo_restart) s = Ret s'
    \<and> 1 \<le> count_list (eph_contents (shared_logs s') ''#s'') demo_msg
      + (\<Sum>k<next_daemon (app s'). daemon_writes demo_msg (daemons s' k))"
proof -
  let ?evs = "demo_boot @ DaemonRecv 0 (ServerRecv (Some demo_msg)) # demo_restart"
  have "length ?evs = 7" "list_all (requested demo_web ''key'') ?evs" "list_all (acceptable (\<lambda>m. True)) ?evs"
    by (simp add: demo_boot_def demo_restart_def, simp add: demo_events_requested,
      simp add: demo_boot_def demo_restart_def)
  with app_loses_nothing [OF eph.reliable_store_axioms demo_all_daemons, where st = eph_NewStore and B = 0 and evs = ?evs
      and wenv = demo_web and xsrfKey = "''key''" and menv = demo_main and fs = "\<lambda>path. None" and m = demo_msg]
  obtain s s' where s: "process_start demo_main demo_daemons (\<lambda>path. None) eph_NewStore = Ret s"
    "process_run demo_main demo_daemons ?evs s = Ret s'"
    "process_received demo_main demo_daemons demo_msg ?evs s \<le> count_list (eph_contents (shared_logs s') ''#s'') demo_msg
      + (\<Sum>k<next_daemon (app s'). daemon_writes demo_msg (daemons s' k))"
    by (auto simp: for_user_def quiet_logs_def logs_within_def simp del: process_run.simps)
  obtain s1 d where s1: "demo_process = Ret s1" "daemons s1 0 = Some d" "d_phase d = Running"
    "chan (server (d_proxy d)) = Some 100"
    using demo_process_runs by blast
  from s1(1) s(1) have "process_run demo_main demo_daemons demo_boot s = Ret s1" by (simp add: demo_process_def)
  from process_received_append [OF this, of demo_msg] s1 have "1 \<le> process_received demo_main demo_daemons demo_msg ?evs s"
    by simp
  with s show ?thesis by (meson order_trans)
qed

text \<open>
  C15: in every reachable state of the app with its daemons, stopping ones included, a daemon is
  running exactly when the loop knows it as its daemon, and then with the current network and
  configuration; the transports a daemon has open are those of its two connections; and one that
  was stopped has none left, however late it got to shut down.
\<close>

theorem process_daemons:
  assumes "process_reachable menv denv wenv xsrfKey fs st s" and "daemons s k = Some d"
  shows "(d_phase d = Running \<longleftrightarrow> daemon (app s) = Some k)
    \<and> (d_phase d = Running \<longrightarrow>
        d_network d = the (ipNetwork (app s)) \<and> d_connector d = config_connector (serverConfig (app s)))
    \<and> track (trace (d_proxy d)) {#} = Some (open_handles (d_proxy d))
    \<and> (d_phase d = Stopped \<longrightarrow> open_handles (d_proxy d) = {#})"
proof -
  have wf: "good_daemons (daemon_view (app s)) s" using process_reachable_good [OF assms(1)] by (simp add: wf_process_def)
  with assms(2) have g: "good_daemon d" "d_phase d = Running \<longleftrightarrow> daemon_view (app s) = Some (k, d_network d, d_connector d)"
    by (auto simp: good_daemons_def)
  have "daemon (app s) = Some k \<Longrightarrow> d_phase d = Running"
    using wf assms(2) by (auto simp: good_daemons_def daemon_view_def split: option.splits)
  with g show ?thesis
    by (auto simp: good_daemon_def tracked_def open_handles_def IsClosed_def daemon_view_def split: option.splits)
qed

theorem process_daemons_witness:
  "\<exists>s d. demo_process = Ret s \<and> daemons s 0 = Some d \<and> daemon (app s) = Some 0 \<and> open_handles (d_proxy d) = {#9, 100#}"
proof -
  obtain s d where s: "demo_process = Ret s" "daemons s 0 = Some d" "d_phase d = Running"
    "trace (d_proxy d) = [Accepted 9, Dialed (Some 100)]"
    and r: "process_reachable demo_main demo_daemons demo_web ''key'' (\<lambda>path. None) eph_NewStore s"
    using demo_process_runs by blast
  from process_daemons [OF r s(2)] s show ?thesis by (auto simp: add_mset_commute)
qed

text \<open>
  C16: the process of the app does not die. From every state of its files, whatever requests come in,
  in whatever order its daemons run, and whatever fails, every event is handled: the loop never
  waits for a daemon that is gone, no daemon panics, and every replay ends. The servers send no
  KICK or PART without parameters, and what the store can keep; the fuel is as in C6.
\<close>

theorem process_returns:
  assumes "log_store ops good contents cgood pending fails keeps" and "all_daemons ops n denv"
    and "good st" and "quiet_logs (contents st)" and "logs_within contents B st" and "B + length evs < n"
    and "list_all (requested wenv xsrfKey) evs" and "list_all (acceptable keeps) evs"
  shows "\<exists>s s'. process_start menv denv fs st = Ret s \<and> process_run menv denv evs s = Ret s'
    \<and> logs_within contents (B + length evs) (shared_logs s')"
proof -
  have "\<exists>s. process_start menv denv fs st = Ret s \<and> wf_process s \<and> shared_logs s = st"
    by (rule process_start_good)
  then obtain s where s: "process_start menv denv fs st = Ret s" "wf_process s" "shared_logs s = st" by blast
  have "good (shared_logs s) \<and> logs_within contents B (shared_logs s) \<and> quiet_logs (contents (shared_logs s))"
    using assms(3-5) s(3) by simp
  from log_store.process_run_returns [OF assms(1,2,6) s(2) this assms(7,8), of menv] obtain s' where
    s': "process_run menv denv evs s = Ret s'" "logs_within contents (B + length evs) (shared_logs s')" by blast
  show ?thesis by (intro exI [of _ s] exI [of _ s'] conjI s(1) s')
qed

theorem process_returns_witness:
  "\<exists>s s'. process_start demo_main demo_daemons (\<lambda>path. None) eph_NewStore = Ret s
    \<and> process_run demo_main demo_daemons
        (demo_boot @ DaemonRecv 0 (ClientRecv (Some demo_nick)) # DaemonRecv 0 (ServerRecv (Some demo_msg)) # demo_restart) s
      = Ret s' \<and> logs_within eph_contents 8 (shared_logs s')"
proof -
  let ?evs = "demo_boot @ DaemonRecv 0 (ClientRecv (Some demo_nick)) # DaemonRecv 0 (ServerRecv (Some demo_msg)) # demo_restart"
  have "length ?evs = 8" "list_all (requested demo_web ''key'') ?evs" "list_all (acceptable (\<lambda>m. True)) ?evs"
    by (simp, simp add: demo_boot_def demo_restart_def, simp add: demo_events_requested,
      simp add: demo_boot_def demo_restart_def)
  with process_returns [OF eph.log_store_axioms demo_all_daemons, where st = eph_NewStore and B = 0 and evs = ?evs
      and wenv = demo_web and xsrfKey = "''key''" and menv = demo_main and fs = "\<lambda>path. None"]
  show ?thesis by (simp del: process_run.simps add: quiet_logs_def logs_within_def)
qed

text \<open>
  C36: with TLS switched on, every connection to a server that the running daemon of the app has ever
  used was dialled, on the current network, at the address of the current configuration, and
  passed a handshake for exactly the host that was configured. The host must be free of brackets.
\<close>

theorem app_connects_verified:
  assumes "process_reachable menv (\<lambda>k net dc. via_connector (nenv net) dc (base k)) wenv xsrfKey fs st s"
    and "daemons s k = Some d" and "d_phase d = Running" and "Dialed (Some h) \<in> set (trace (d_proxy d))"
    and "cfg = serverConfig (app s)" and "cfg_TLS cfg" and "plain_host (cfg_Host cfg)"
  shows "\<exists>n. raw_dial (nenv (the (ipNetwork (app s))) n) 0 ''tcp'' (ServerConfig_String cfg) = Inr h
    \<and> handshake_err (nenv (the (ipNetwork (app s))) n) 1 (cfg_Host cfg) (Raw h) = None"
proof -
  from running_current [OF process_reachable_good [OF assms(1)] assms(2,3)] assms(5)
  have d: "d_network d = the (ipNetwork (app s))" "d_connector d = config_connector cfg" by auto
  from dialling.process_keeps [OF assms(1,2)] assms(4) d
  obtain n where "dial (via_connector (nenv (the (ipNetwork (app s)))) (config_connector cfg) (base k)) n = Inr h"
    by (auto simp: dialled_def)
  then obtain conn tr where
    c: "DialerConnector_Connect (nenv (the (ipNetwork (app s))) n) (config_connector cfg) [] = (Inr conn, tr)"
    and h: "h = raw_of conn"
    by (cases "DialerConnector_Connect (nenv (the (ipNetwork (app s))) n) (config_connector cfg) []")
      (auto simp: via_connector_def split: sum.splits)
  from Connect_config_verified [OF assms(6,7) c] h show ?thesis by blast
qed

theorem app_connects_verified_witness:
  "raw_dial demo_net 0 ''tcp'' (ServerConfig_String demo_config) = Inr 100 \<and> handshake_err demo_net 1 ''irc.example'' (Raw 100) = None"
proof -
  obtain s d where s: "daemons s 0 = Some d" "d_phase d = Running" "trace (d_proxy d) = [Accepted 9, Dialed (Some 100)]"
    "serverConfig (app s) = demo_config"
    and r: "process_reachable demo_main (\<lambda>k net dc. via_connector (\<lambda>n. demo_net) dc demo_env) demo_web ''key'' (\<lambda>path. None) eph_NewStore s"
    using demo_process_runs unfolding demo_daemons_def by blast
  from app_connects_verified [OF r s(1,2) _ s(4) [symmetric]] s(3)
  show ?thesis by (simp add: demo_config_def plain_host_def)
qed

section \<open>Masks, stores and the inspector\<close>

text \<open>
  C33: both stores pass the conformance check of the repository, on every assignment of logs to
  channels: the store in memory, and the SQL store over any database that keeps the promises of
  SQL and reports no error, for messages that survive being written and read.
\<close>

theorem stores_conform:
  assumes "distinct (map fst m)" and "reliable_db D table" and "table d = []"
    and "list_all (\<lambda>(name, v). list_all storable v) m"
  shows "checkFunc eph_ops eph_NewStore m = Ret True \<and> checkFunc (sql_ops D) (sql_NewStore d) m = Ret True"
proof
  have "list_all (\<lambda>(name, v). list_all (\<lambda>m. True) v) m" by (auto simp: list_all_iff)
  with eph.check_passes [of eph_NewStore m] assms(1) show "checkFunc eph_ops eph_NewStore m = Ret True" by simp
  show "checkFunc (sql_ops D) (sql_NewStore d) m = Ret True"
    using assms by (intro reliable_db.sql_conforms)
qed

theorem stores_conform_witness:
  "checkFunc eph_ops eph_NewStore [(''#s'', [demo_msg])] = Ret True
    \<and> checkFunc (sql_ops table_db) (sql_NewStore []) [(''#s'', [demo_msg])] = Ret True"
proof -
  have "storable demo_msg" unfolding demo_msg_def by code_simp
  then show ?thesis
    using stores_conform [OF _ mem.reliable_db_axioms, of "[(''#s'', [demo_msg])]" "[]"] by simp
qed

text \<open>
  C40: the repository's own random test passes on both stores, whatever random values it draws and
  however often it is run: it never panics while it generates logs, and the check accepts the stores
  on all of them.
\<close>

theorem random_test_passes:
  assumes "list_all rand_ok rs" and "reliable_db D table" and "table d = []"
  shows "RandTest eph_ops eph_NewStore rs = Ret True \<and> RandTest (sql_ops D) (sql_NewStore d) rs = Ret True"
proof -
  have "checkFunc eph_ops eph_NewStore m = Ret True" if "distinct (map fst m)" for m
    using eph.check_passes [of eph_NewStore m] that by (simp add: list_all_iff split_beta)
  then show ?thesis
    by (intro conjI RandTest_passes [OF assms(1)]) (simp_all add: reliable_db.sql_conforms [OF assms(2,3)])
qed

theorem random_test_passes_witness:
  "RandTest (sql_ops table_db) (sql_NewStore []) (replicate 100
     \<lparr>rand_below = (\<lambda>k b. b - 1), rand_bytes = (\<lambda>k n. replicate n CHR ''x''), rand_string = (\<lambda>k. ''#s'')\<rparr>) = Ret True"
    (is "RandTest _ _ (replicate 100 ?r) = _")
proof -
  have "list_all rand_ok (replicate 100 ?r)" by (auto simp: rand_ok_def list_all_iff)
  from random_test_passes [OF this mem.reliable_db_axioms refl] show ?thesis by blast
qed

text \<open>
  C35: the pattern made from a mask stands for the same set of strings as the mask: it always compiles,
  and it matches a string from end to end exactly when the string matches the mask in the sense of
  RFC 2812, for ASCII masks and ASCII strings without a line feed. That \<open>MatchString\<close> is content with
  a part of the string is shown by \<open>mask_not_anchored\<close>.
\<close>

theorem mask_language:
  assumes "ascii m" and "ascii s" and "LF \<notin> set s"
  shows "FullMatch (ToRegexp m) s = Some (mask_matches m s)"
  using assms by (rule FullMatch_ToRegexp)

theorem mask_language_witness:
  "FullMatch (ToRegexp ''a*c'') ''axxc'' = Some True \<and> FullMatch (ToRegexp ''a'') ''bab'' = Some False"
proof -
  have "mask_matches ''a*c'' ''axxc''" "\<not> mask_matches ''a'' ''bab''" by code_simp+
  then show ?thesis using mask_language [of "''a*c''" "''axxc''"] mask_language [of "''a''" "''bab''"]
    by (simp add: ascii_def)
qed

text \<open>
  C39: the inspector's two loops run as goroutines, and every interleaving of their reads, locks and
  writes is covered. For each writer, the peer or the standard output: the messages written to it
  by a goroutine are, in order, those it owes for what it has read (the peer everything typed and a
  PONG with the same parameters for every PING, the output every other message), up to the one
  it has in hand. When no \<open>Write\<close> fails, the bytes the writer has taken are the lines of these
  messages, never mixed, and at most the beginning of one line in hand: the process may end between a
  read and its write, or in the middle of a line. Only an error of a read ends it.
\<close>

theorem inspector_answers:
  assumes "mainLoop evs = Some st"
  shows "(\<exists>ms part.
      (\<forall>g. [m. (g', m) \<leftarrow> ms, g' = g] @ in_hand w (pcs st g) = owed w g (reads_of g evs))
      \<and> (whole_writes evs \<longrightarrow> taken st w = concat (map (String \<circ> snd) ms) @ part
          \<and> (part \<noteq> [] \<longrightarrow> (\<exists>g m. in_hand w (pcs st g) = [m] \<and> (\<exists>rest. String m = part @ rest)))))
    \<and> (exited st \<longrightarrow> (\<exists>g e. Inl e \<in> set (reads_of g evs)))"
  using inspector_output [OF assms] inspector_ends [OF assms] by blast

theorem inspector_answers_witness:
  "\<exists>st. mainLoop demo_cut = Some st \<and> exited st \<and> taken st PeerWriter = ''PONG''
    \<and> (\<exists>ms. [m. (g', m) \<leftarrow> ms, g' = PingPong] @ in_hand PeerWriter (pcs st PingPong) = [msg_of ''PONG'' [''x'']])
    \<and> (\<exists>g e. Inl e \<in> set (reads_of g demo_cut))"
proof -
  have "case mainLoop demo_cut of None \<Rightarrow> False | Some st \<Rightarrow> exited st \<and> taken st PeerWriter = ''PONG''"
    by code_simp
  then obtain st where st: "mainLoop demo_cut = Some st" "exited st" "taken st PeerWriter = ''PONG''"
    by (auto split: option.splits)
  have "owed PeerWriter PingPong (reads_of PingPong demo_cut) = [msg_of ''PONG'' [''x'']]" by code_simp
  with inspector_answers [OF st(1), of PeerWriter] st show ?thesis by metis
qed

end
